(* ===== verification/Prelude.thy ===== *)
theory Prelude
  imports Main "HOL-Library.Word" "HOL-Library.Char_ord" "HOL-Library.List_Lexorder"
    "HOL-Library.Multiset"
begin

section \<open>Prelude: names, results and lemmas the components share\<close>

text \<open>
  This theory holds what every component of the model uses and no component owns: the
  machine types, the outcome type of a C++ call, decimal printing (\<open>std::to_string\<close>), the
  order of \<open>std::string\<close> and the collections of simplification rules.

  A C++ call of the program either returns or ends in one of a few ways the source does not
  guard against: undefined behaviour of a container access, an exception of the standard
  library nobody catches, or a lock a thread takes twice. Each is a constructor of
  \<open>crash\<close>, and a fallible operation has the type \<open>'a res\<close>.
\<close>

named_theorems rt_simps \<open>routing table accessors after routing table updates\<close>
named_theorems base_simps \<open>the shared part of message objects\<close>
named_theorems op_defs \<open>definitions of the operations of the message objects\<close>
named_theorems node_simps \<open>fields of the node after a step\<close>

unbundle bit_operations_syntax

subsection \<open>Machine types\<close>

type_synonym byte = "8 word"
type_synonym u32 = "32 word"
type_synonym u64 = "64 word"

lemma byte_less: "unat (b :: byte) < 256"
  using unsigned_less [of b] by simp

subsection \<open>Outcomes\<close>

datatype crash =
    FrontOfEmpty          \<comment> \<open>\<open>front()\<close> of an empty vector\<close>
  | InsertPastEnd         \<comment> \<open>\<open>insert\<close> at \<open>begin() + 1\<close> of an empty vector\<close>
  | NullPointer           \<comment> \<open>a null \<open>unique_ptr\<close> or raw pointer is dereferenced\<close>
  | BadOptionalAccess     \<comment> \<open>\<open>optional::value\<close> of an empty optional\<close>
  | BadVariantAccess      \<comment> \<open>\<open>std::get\<close> of the alternative a variant does not hold\<close>
  | PromiseSatisfied      \<comment> \<open>a promise is given a second value\<close>
  | FutureRetrieved       \<comment> \<open>\<open>get_future\<close> is called twice\<close>
  | FutureBlocks          \<comment> \<open>\<open>future::get\<close> waits for a value nobody will give\<close>
  | ReadPastEnd           \<comment> \<open>a buffer is read past its end\<close>
  | DivisionByZero
  | AssertFailed
  | SystemError           \<comment> \<open>a socket call throws\<close>
  | SelfDeadlock          \<comment> \<open>a thread locks a \<open>std::mutex\<close> it already holds\<close>
  | Reentrant             \<comment> \<open>a child completes inside its own creation with a result\<close>

type_synonym 'a res = "crash + 'a"

definition res_bind :: "'a res \<Rightarrow> ('a \<Rightarrow> 'b res) \<Rightarrow> 'b res" where
  "res_bind r f = (case r of Inl e \<Rightarrow> Inl e | Inr x \<Rightarrow> f x)"

definition res_ok :: "'a res \<Rightarrow> bool" where
  "res_ok r = (case r of Inl _ \<Rightarrow> False | Inr _ \<Rightarrow> True)"

lemma res_bind_simps [simp]:
  "res_bind (Inl e) f = Inl e"
  "res_bind (Inr x) f = f x"
  by (simp_all add: res_bind_def)

lemma res_ok_simps [simp]:
  "\<not> res_ok (Inl e)"
  "res_ok (Inr x)"
  by (simp_all add: res_ok_def)

lemma res_bind_InrE:
  assumes "res_bind r f = Inr y"
  obtains x where "r = Inr x" and "f x = Inr y"
  using assms by (cases r) auto

lemma res_bind_split:
  "P (res_bind r f) \<longleftrightarrow> (\<forall>e. r = Inl e \<longrightarrow> P (Inl e)) \<and> (\<forall>x. r = Inr x \<longrightarrow> P (f x))"
  by (cases r) auto

lemma res_bind_assoc: "res_bind (res_bind r f) g = res_bind r (\<lambda>x. res_bind (f x) g)"
  by (cases r) simp_all

text \<open>\<open>vector::front\<close>: undefined on an empty vector.\<close>

definition front :: "'a list \<Rightarrow> 'a res" where
  "front xs = (case xs of [] \<Rightarrow> Inl FrontOfEmpty | x # _ \<Rightarrow> Inr x)"

lemma front_simps [simp]:
  "front [] = Inl FrontOfEmpty"
  "front (x # xs) = Inr x"
  by (simp_all add: front_def)

lemma front_Inr_iff: "front xs = Inr x \<longleftrightarrow> xs \<noteq> [] \<and> hd xs = x"
  by (cases xs) auto

text \<open>\<open>vector::resize\<close>: cut at the end, or padded with default values.\<close>

definition resize :: "nat \<Rightarrow> 'a \<Rightarrow> 'a list \<Rightarrow> 'a list" where
  "resize n d xs = take n xs @ replicate (n - length xs) d"

lemma length_resize [simp]: "length (resize n d xs) = n"
  by (simp add: resize_def)

lemma resize_Cons [simp]: "resize (Suc n) d (x # xs) = x # resize n d xs"
  by (simp add: resize_def)

lemma hd_resize: "0 < n \<Longrightarrow> xs \<noteq> [] \<Longrightarrow> hd (resize n d xs) = hd xs"
  by (cases xs; cases n) (simp_all add: resize_def)

lemma resize_eq_Nil_iff [simp]: "resize n d xs = [] \<longleftrightarrow> n = 0"
  by (metis length_0_conv length_resize)

lemma set_resize_subset: "set (resize n d xs) \<subseteq> insert d (set xs)"
  by (auto simp: resize_def dest: in_set_takeD)

lemma last_resize_pad: "length xs < n \<Longrightarrow> last (resize n d xs) = d"
  by (simp add: resize_def)

lemma resize_same [simp]: "length xs = n \<Longrightarrow> resize n d xs = xs"
  by (simp add: resize_def)

subsection \<open>Decimal printing\<close>

text \<open>\<open>std::to_string\<close> and \<open>operator<<\<close> of an unsigned number.\<close>

definition dec_digit :: "nat \<Rightarrow> char" where
  "dec_digit d = char_of (48 + d)"

fun to_string :: "nat \<Rightarrow> string" where
  "to_string n = (if n < 10 then [dec_digit n] else to_string (n div 10) @ [dec_digit (n mod 10)])"

declare to_string.simps [simp del]

lemma dec_digit_inj: "a < 10 \<Longrightarrow> b < 10 \<Longrightarrow> dec_digit a = dec_digit b \<longleftrightarrow> a = b"
  by (simp add: dec_digit_def char_of_eq_iff take_bit_nat_eq_self)

lemma to_string_not_Nil [simp]: "to_string n \<noteq> []" "[] \<noteq> to_string n"
  by (subst to_string.simps, simp)+

lemma to_string_inj: "to_string m = to_string n \<Longrightarrow> m = n"
proof (induction m arbitrary: n rule: to_string.induct)
  case (1 m)
  show ?case
  proof (cases "m < 10 \<or> n < 10")
    case True
    with "1.prems" show ?thesis
      by (auto simp: to_string.simps [of m] to_string.simps [of n] dec_digit_inj
          split: if_splits)
  next
    case False
    with "1.prems" have "to_string (m div 10) = to_string (n div 10)"
      and d: "m mod 10 = n mod 10"
      by (auto simp: to_string.simps [of m] to_string.simps [of n] dec_digit_inj)
    with False "1.IH" have "m div 10 = n div 10" by simp
    with d show ?thesis by (metis div_mult_mod_eq)
  qed
qed

subsection \<open>Lists\<close>

lemma mset_butlast: "xs \<noteq> [] \<Longrightarrow> mset (butlast xs) = mset xs - {#last xs#}"
proof -
  assume "xs \<noteq> []"
  then have "mset xs = mset (butlast xs @ [last xs])" by simp
  then show ?thesis by simp
qed

subsection \<open>Codecs\<close>

text \<open>What encoders and decoders of all layers promise each other: what was encoded is decoded to
  the value it came from.\<close>

locale codec =
  fixes ok :: "'a \<Rightarrow> bool"
    and enc :: "'a \<Rightarrow> 'b res"
    and dec :: "'b \<Rightarrow> 'a res"
  assumes enc_total: "ok x \<Longrightarrow> \<exists>y. enc x = Inr y"
    and dec_enc: "ok x \<Longrightarrow> enc x = Inr y \<Longrightarrow> dec y = Inr x"
begin

lemma roundtrip: "ok x \<Longrightarrow> res_bind (enc x) dec = Inr x"
  using enc_total dec_enc by fastforce

lemma enc_inj: "ok x \<Longrightarrow> ok x' \<Longrightarrow> enc x = enc x' \<Longrightarrow> x = x'"
  by (metis Inr_inject dec_enc enc_total)

lemma enc_list: "\<forall>x \<in> set xs. ok x \<Longrightarrow> \<exists>ys. map enc xs = map Inr ys \<and> map dec ys = map Inr xs"
proof (induction xs)
  case (Cons x xs)
  then obtain y ys where "enc x = Inr y" "map enc xs = map Inr ys" "map dec ys = map Inr xs"
    using enc_total [of x] by auto
  with Cons.prems show ?case using dec_enc [of x y] by (intro exI [of _ "y # ys"]) simp
qed simp

lemma dec_list: "\<forall>x \<in> set xs. ok x \<Longrightarrow> map enc xs = map Inr ys \<Longrightarrow> map dec ys = map Inr xs"
proof (induction xs arbitrary: ys)
  case (Cons x xs)
  then show ?case using dec_enc [of x] by (cases ys) auto
qed simp

end

end
