(* ===== verification/Identifiers.thy ===== *)
theory Identifiers
  imports Prelude
begin

section \<open>Identifiers: the ring order and the hashes (cryptowrapper)\<close>

text \<open>
  \<open>src/src/cryptowrapper.cpp\<close>: \<open>util::between\<close> is the order of the identifier ring, and
  every routing decision of the program is a call of it. Identifiers are the hexadecimal
  digests of an address, compared as \<open>std::string\<close>s, that is byte by byte.

  The digests themselves are computed by Crypto++ and libsodium, which are not part of the
  program: they are arguments of the definitions (\<open>sha\<close> hashes a string to its printed
  digest, \<open>digest\<close> gives the raw bytes, \<open>seal\<close> and \<open>open\<close> are the secret box).

  The laws of a ring order are collected in the locale \<open>cyclic_order\<close>, which is
  interpreted on \<open>between\<close>; routing rests on its lemmas.
\<close>

subsection \<open>The ring order\<close>

definition between :: "string \<Rightarrow> string \<Rightarrow> string \<Rightarrow> bool" where
  "between id_1 id_2 id_3 =
     (if id_1 < id_3 then id_1 < id_2 \<and> id_2 < id_3
      else id_1 < id_2 \<or> id_2 < id_3)"

text \<open>A strict cyclic order: the open arc from \<open>a\<close> to \<open>c\<close>, where the arc from a point
  to itself is everything but that point.\<close>

locale cyclic_order =
  fixes btw :: "'a \<Rightarrow> 'a \<Rightarrow> 'a \<Rightarrow> bool"
  assumes not_left: "\<not> btw a a c"
    and not_right: "\<not> btw a c c"
    and full_arc: "btw a x a \<longleftrightarrow> x \<noteq> a"
    and arc_trans: "btw a p c \<Longrightarrow> btw p m c \<Longrightarrow> btw a m c"
    and prefix_trans: "c \<noteq> p \<Longrightarrow> btw c m q \<Longrightarrow> btw c q p \<Longrightarrow> btw c m p"
    and arc_total: "a \<noteq> x \<Longrightarrow> x \<noteq> c \<Longrightarrow> a \<noteq> c \<Longrightarrow> btw a x c \<or> btw a c x"
    and arc_asym: "btw a x c \<Longrightarrow> a \<noteq> c \<Longrightarrow> \<not> btw a c x"
    and arc_rotate: "btw a x c \<Longrightarrow> a \<noteq> c \<Longrightarrow> btw c a x"
begin

text \<open>Moving the start of an arc to a member of it loses that member and adds nothing.\<close>

lemma arc_shrinks:
  assumes "btw a p c"
  shows "{m \<in> N. btw p m c} \<subseteq> {m \<in> N. btw a m c} - {p}"
  using assms arc_trans not_left by blast

lemma card_arc_less:
  assumes "finite N" "btw a p c" "p \<in> N"
  shows "card {m \<in> N. btw p m c} < card {m \<in> N. btw a m c}"
proof (rule psubset_card_mono)
  show "finite {m \<in> N. btw a m c}" using assms(1) by simp
  have "p \<in> {m \<in> N. btw a m c}" using assms(2,3) by simp
  with arc_shrinks [OF assms(2), of N] show "{m \<in> N. btw p m c} \<subset> {m \<in> N. btw a m c}"
    by blast
qed

text \<open>Two first members after the same point are the same.\<close>

lemma first_unique:
  assumes "p \<noteq> c" "q \<noteq> c" "\<not> btw c q p" "\<not> btw c p q"
  shows "p = q"
  using assms arc_total [of c q p] by blast

text \<open>Every point outside a finite non-empty set has a first member after it.\<close>

lemma first_exists:
  assumes "N \<noteq> {}" "finite N" "c \<notin> N"
  shows "\<exists>p \<in> N. \<forall>m \<in> N. \<not> btw c m p"
proof -
  from assms(1) obtain k where "k \<in> N" by blast
  then obtain p where p: "p \<in> N"
    and least: "\<And>q. q \<in> N \<Longrightarrow> card {m \<in> N. btw c m p} \<le> card {m \<in> N. btw c m q}"
    using ex_has_least_nat [of "\<lambda>p. p \<in> N" k "\<lambda>p. card {m \<in> N. btw c m p}"] by blast
  from p assms(3) have "c \<noteq> p" by blast
  have "\<not> btw c q p" if q: "q \<in> N" for q
  proof
    assume cqp: "btw c q p"
    have "{m \<in> N. btw c m q} \<subseteq> {m \<in> N. btw c m p} - {q}"
      using cqp \<open>c \<noteq> p\<close> prefix_trans not_right by blast
    moreover have "q \<in> {m \<in> N. btw c m p}" using q cqp by simp
    ultimately have "{m \<in> N. btw c m q} \<subset> {m \<in> N. btw c m p}" by blast
    then have "card {m \<in> N. btw c m q} < card {m \<in> N. btw c m p}"
      by (rule psubset_card_mono [rotated]) (simp add: assms(2))
    with least [OF q] show False by simp
  qed
  with p show ?thesis by blast
qed

end

lemma between_cases:
  "between a x c \<longleftrightarrow> (a < x \<and> x < c) \<or> (\<not> a < c \<and> (a < x \<or> x < c))"
  by (auto simp: between_def)

interpretation ring: cyclic_order between
proof
  fix a c p q m x :: string
  show "\<not> between a a c" and "\<not> between a c c" by (auto simp: between_def)
  show "between a x a \<longleftrightarrow> x \<noteq> a" by (auto simp: between_def)
  show "between a m c" if "between a p c" "between p m c"
    using that by (auto simp: between_def split: if_splits)
  show "between c m p" if "c \<noteq> p" "between c m q" "between c q p"
    using that by (auto simp: between_def split: if_splits)
  show "between a x c \<or> between a c x" if "a \<noteq> x" "x \<noteq> c" "a \<noteq> c"
    using that by (auto simp: between_def)
  show "\<not> between a c x" if "between a x c" "a \<noteq> c"
    using that by (auto simp: between_def split: if_splits)
  show "between c a x" if "between a x c" "a \<noteq> c"
    using that by (auto simp: between_def split: if_splits)
qed

text \<open>The node responsible for an identifier in a ring of nodes \<open>N\<close>: the node with that
  identifier, or else the first one after it.\<close>

definition owns_id :: "string set \<Rightarrow> string \<Rightarrow> string \<Rightarrow> bool" where
  "owns_id N x p \<longleftrightarrow> p \<in> N \<and> (p = x \<or> (x \<notin> N \<and> (\<forall>m \<in> N. \<not> between x m p)))"

lemma owns_id_unique: "owns_id N x p \<Longrightarrow> owns_id N x q \<Longrightarrow> p = q"
  unfolding owns_id_def using ring.first_unique [of p x q] by blast

lemma owns_id_exists: "finite N \<Longrightarrow> N \<noteq> {} \<Longrightarrow> \<exists>p. owns_id N x p"
  unfolding owns_id_def using ring.first_exists [of N x] by blast

subsection \<open>Digests\<close>

definition generate_sha256 :: "(string \<Rightarrow> string) \<Rightarrow> string \<Rightarrow> string" where
  "generate_sha256 sha data = sha data"

definition generate_sha256_addr :: "(string \<Rightarrow> string) \<Rightarrow> string \<Rightarrow> string \<Rightarrow> string" where
  "generate_sha256_addr sha ip port = sha (ip @ port)"

text \<open>\<open>ss << std::hex << std::setw(2) << std::setfill('0') << (int) digest[i]\<close>: two lower-case
  digits for every byte of the digest.\<close>

definition hex_digit :: "nat \<Rightarrow> char" where
  "hex_digit d = (if d < 10 then char_of (48 + d) else char_of (87 + d))"

definition hex_byte :: "byte \<Rightarrow> string" where
  "hex_byte b = [hex_digit (unat b div 16), hex_digit (unat b mod 16)]"

definition sha256_from_file :: "(byte list \<Rightarrow> byte list) \<Rightarrow> byte list \<Rightarrow> string" where
  "sha256_from_file digest content = concat (map hex_byte (digest content))"

lemma hex_digit_inj: "a < 16 \<Longrightarrow> b < 16 \<Longrightarrow> hex_digit a = hex_digit b \<Longrightarrow> a = b"
  by (auto simp: hex_digit_def char_of_eq_iff take_bit_nat_eq_self split: if_splits)

lemma hex_byte_inj: "hex_byte a = hex_byte b \<Longrightarrow> a = b"
proof -
  assume "hex_byte a = hex_byte b"
  moreover have "unat a < 256" "unat b < 256" by (rule byte_less)+
  ultimately have "unat a div 16 = unat b div 16" and "unat a mod 16 = unat b mod 16"
    by (simp_all add: hex_byte_def hex_digit_inj)
  then have "unat a = unat b" by (metis div_mult_mod_eq)
  then show "a = b" by (simp add: word_unat_eq_iff)
qed

lemma hex_bytes_inj: "concat (map hex_byte xs) = concat (map hex_byte ys) \<Longrightarrow> xs = ys"
proof (induction xs arbitrary: ys)
  case Nil
  then show ?case by (cases ys) (simp_all add: hex_byte_def)
next
  case (Cons x xs)
  then show ?case
    by (cases ys) (auto simp: hex_byte_def intro!: hex_byte_inj)
qed

lemma length_sha256_from_file: "length (sha256_from_file digest c) = 2 * length (digest c)"
  by (simp add: sha256_from_file_def length_concat hex_byte_def o_def sum_list_triv)

lemma sha256_from_file_eq_iff:
  "sha256_from_file digest c = sha256_from_file digest d \<longleftrightarrow> digest c = digest d"
  by (auto simp: sha256_from_file_def dest: hex_bytes_inj)

subsection \<open>The secret box\<close>

text \<open>
  \<open>encrypt\<close> and \<open>decrypt\<close> call libsodium with a nonce of zeros; \<open>keybytes\<close> and
  \<open>macbytes\<close> are its constants. The key is read through \<open>key.data()\<close> with no check of its
  length, the plaintext buffer of \<open>decrypt\<close> has \<open>length - macbytes\<close> bytes, and it is
  returned (\<open>junk\<close>: uninitialised memory) when the box does not open.
\<close>

definition encrypt ::
  "nat \<Rightarrow> (string \<Rightarrow> string \<Rightarrow> string) \<Rightarrow> string \<Rightarrow> string \<Rightarrow> string res" where
  "encrypt keybytes seal key data =
     (if length key < keybytes then Inl ReadPastEnd else Inr (seal key data))"

definition decrypt ::
  "nat \<Rightarrow> nat \<Rightarrow> (string \<Rightarrow> string \<Rightarrow> string option) \<Rightarrow> (nat \<Rightarrow> string) \<Rightarrow> string \<Rightarrow> string
   \<Rightarrow> string res" where
  "decrypt keybytes macbytes open_box junk key data =
     (if length key < keybytes \<or> length data < macbytes then Inl ReadPastEnd
      else case open_box key data of
        Some plain \<Rightarrow> Inr plain
      | None \<Rightarrow> Inr (junk (length data - macbytes)))"

subsection \<open>The remaining helpers\<close>

definition generate_hash :: "(string \<Rightarrow> u64) \<Rightarrow> string \<Rightarrow> u64" where
  "generate_hash std_hash data = std_hash data"

definition generate_limited_hash :: "(string \<Rightarrow> u64) \<Rightarrow> string \<Rightarrow> u64 \<Rightarrow> u64 res" where
  "generate_limited_hash std_hash data limit =
     (if limit = 0 then Inl DivisionByZero else Inr (std_hash data mod limit))"

lemma generate_limited_hash_bound: "generate_limited_hash h d l = Inr x \<Longrightarrow> x < l"
  by (auto simp: generate_limited_hash_def word_less_nat_alt unat_mod unat_gt_0 split: if_splits)

text \<open>The log levels; the console and file filters of \<open>main\<close> compare them with \<open><=\<close>, in the
  order of the enumeration.\<close>

datatype severity_level =
  sev_notify | sev_info | sev_warning | sev_error | sev_critical | sev_debug
  | sev_message_out | sev_message_in

fun severity_code :: "severity_level \<Rightarrow> nat" where
  "severity_code sev_notify = 0"
| "severity_code sev_info = 1"
| "severity_code sev_warning = 2"
| "severity_code sev_error = 3"
| "severity_code sev_critical = 4"
| "severity_code sev_debug = 5"
| "severity_code sev_message_out = 6"
| "severity_code sev_message_in = 7"

lemma severity_code_inj: "severity_code a = severity_code b \<longleftrightarrow> a = b"
  by (cases a; cases b) simp_all

instantiation severity_level :: linorder
begin

definition less_eq_severity_level :: "severity_level \<Rightarrow> severity_level \<Rightarrow> bool" where
  "less_eq_severity_level a b \<longleftrightarrow> severity_code a \<le> severity_code b"

definition less_severity_level :: "severity_level \<Rightarrow> severity_level \<Rightarrow> bool" where
  "less_severity_level a b \<longleftrightarrow> severity_code a < severity_code b"

instance
  by standard
    (auto simp: less_eq_severity_level_def less_severity_level_def severity_code_inj)

end

text \<open>\<open>operator<<\<close> of a log level.\<close>

definition severity_name :: "severity_level \<Rightarrow> string" where
  "severity_name lvl =
     [''notify'', ''info'', ''warning'', ''error'', ''critical'', ''debug'', ''message_out'',
      ''message_in''] ! severity_code lvl"

end
