(* ===== verification/Messages.thy ===== *)
theory Messages
  imports Identifiers
begin

section \<open>Peers, headers and messages\<close>

text \<open>
  The data the nodes exchange: \<open>peer.hpp\<close>, \<open>header.hpp\<close> and \<open>message.hpp\<close>. A class is a
  record with the class's fields, a constructor is a definition, a setter the record update.
  The clock (seconds since the epoch) and the hash are arguments; the static counter of
  \<open>generate_transaction_id\<close> is threaded through.
\<close>

subsection \<open>Peer\<close>

record Peer =
  peer_id :: string
  peer_ip :: string
  peer_port :: string

definition Peer_new :: "string \<Rightarrow> string \<Rightarrow> string \<Rightarrow> Peer" where
  "Peer_new i ip port = \<lparr>peer_id = i, peer_ip = ip, peer_port = port\<rparr>"

definition Peer_empty :: Peer where
  "Peer_empty = \<lparr>peer_id = '''', peer_ip = '''', peer_port = ''''\<rparr>"

definition Peer_eq :: "Peer \<Rightarrow> Peer \<Rightarrow> bool" where
  "Peer_eq p q \<longleftrightarrow> peer_id p = peer_id q \<and> peer_ip p = peer_ip q \<and> peer_port p = peer_port q"

definition Peer_neq :: "Peer \<Rightarrow> Peer \<Rightarrow> bool" where
  "Peer_neq p q \<longleftrightarrow> peer_id p \<noteq> peer_id q \<or> peer_ip p \<noteq> peer_ip q \<or> peer_port p \<noteq> peer_port q"

definition Peer_stringify :: "Peer \<Rightarrow> string" where
  "Peer_stringify p = peer_id p @ peer_ip p @ peer_port p"

definition Peer_is_valid :: "Peer \<Rightarrow> bool" where
  "Peer_is_valid p \<longleftrightarrow> peer_id p \<noteq> '''' \<and> peer_ip p \<noteq> '''' \<and> peer_port p \<noteq> ''''"

lemma Peer_eq_iff: "Peer_eq p q \<longleftrightarrow> p = q"
  by (cases p; cases q) (auto simp: Peer_eq_def)

lemma Peer_neq_iff: "Peer_neq p q \<longleftrightarrow> \<not> Peer_eq p q"
  by (auto simp: Peer_neq_def Peer_eq_def)

lemma Peer_empty_simps [simp]:
  "peer_id Peer_empty = ''''"
  "peer_ip Peer_empty = ''''"
  "peer_port Peer_empty = ''''"
  "\<not> Peer_is_valid Peer_empty"
  by (simp_all add: Peer_empty_def Peer_is_valid_def)

lemma Peer_new_simps [simp]:
  "peer_id (Peer_new i ip port) = i"
  "peer_ip (Peer_new i ip port) = ip"
  "peer_port (Peer_new i ip port) = port"
  by (simp_all add: Peer_new_def)

subsection \<open>Header\<close>

record Header =
  t_flag :: bool
  ttl :: u32
  message_length :: u64
  request_type :: string
  transaction_id :: string
  correlational_id :: string
  hdr_version :: string
  response_code :: string

definition Header_empty :: Header where
  "Header_empty =
     \<lparr>t_flag = False, ttl = 0, message_length = 0, request_type = '''', transaction_id = '''',
      correlational_id = '''', hdr_version = '''', response_code = ''''\<rparr>"

text \<open>The constructor without a correlation id, and the one with it.\<close>

definition Header_new ::
  "bool \<Rightarrow> u32 \<Rightarrow> u64 \<Rightarrow> string \<Rightarrow> string \<Rightarrow> string \<Rightarrow> string \<Rightarrow> Header" where
  "Header_new t_fl ttl' len ty tid ver code =
     \<lparr>t_flag = t_fl, ttl = ttl', message_length = len, request_type = ty, transaction_id = tid,
      correlational_id = '''', hdr_version = ver, response_code = code\<rparr>"

definition Header_new_corr ::
  "bool \<Rightarrow> u32 \<Rightarrow> u64 \<Rightarrow> string \<Rightarrow> string \<Rightarrow> string \<Rightarrow> string \<Rightarrow> string \<Rightarrow> Header" where
  "Header_new_corr t_fl ttl' len ty tid cid ver code =
     \<lparr>t_flag = t_fl, ttl = ttl', message_length = len, request_type = ty, transaction_id = tid,
      correlational_id = cid, hdr_version = ver, response_code = code\<rparr>"

definition Header_stringify :: "Header \<Rightarrow> string" where
  "Header_stringify h =
     (if t_flag h then ''1'' else ''0'') @ to_string (unat (ttl h)) @
     to_string (unat (message_length h)) @ request_type h @ transaction_id h @
     correlational_id h @ hdr_version h @ response_code h"

definition generate_response_header :: "Header \<Rightarrow> Header" where
  "generate_response_header h =
     Header_new_corr False (ttl h) (message_length h) (request_type h) '''' (transaction_id h)
       (hdr_version h) (response_code h)"

subsection \<open>Files\<close>

record FileInfo =
  file_name :: string
  sha256sum :: string
  file_size :: u64
  file_offset :: u64

text \<open>The three constructors: missing members keep their initialisers.\<close>

definition FileInfo_size :: "string \<Rightarrow> u64 \<Rightarrow> FileInfo" where
  "FileInfo_size name size' = \<lparr>file_name = name, sha256sum = '''', file_size = size', file_offset = 0\<rparr>"

definition FileInfo_sum :: "string \<Rightarrow> string \<Rightarrow> u64 \<Rightarrow> FileInfo" where
  "FileInfo_sum name s size' = \<lparr>file_name = name, sha256sum = s, file_size = size', file_offset = 0\<rparr>"

definition FileInfo_offset :: "string \<Rightarrow> string \<Rightarrow> u64 \<Rightarrow> u64 \<Rightarrow> FileInfo" where
  "FileInfo_offset name s size' off =
     \<lparr>file_name = name, sha256sum = s, file_size = size', file_offset = off\<rparr>"

record FileChunk =
  chunk_size :: u64
  chunk_offset :: u64
  chunk_data :: "byte list"

text \<open>\<open>data{data_ptr, data_ptr + data_size}\<close>: the first \<open>data_size\<close> bytes of a buffer.\<close>

definition FileChunk_new :: "byte list \<Rightarrow> nat \<Rightarrow> u64 \<Rightarrow> FileChunk" where
  "FileChunk_new buf data_size off =
     \<lparr>chunk_size = of_nat data_size, chunk_offset = off, chunk_data = take data_size buf\<rparr>"

definition DEFAULT_BUF_SIZE :: nat where
  "DEFAULT_BUF_SIZE = 1024"

subsection \<open>Message\<close>

record Message =
  msg_header :: Header
  msg_peers :: "Peer list"
  msg_files :: "FileInfo list"
  msg_data :: string
  msg_file_chunk :: "FileChunk option"

definition Message_empty :: Message where
  "Message_empty =
     \<lparr>msg_header = Header_empty, msg_peers = [], msg_files = [], msg_data = '''', msg_file_chunk = None\<rparr>"

definition Message_stringify :: "Message \<Rightarrow> string" where
  "Message_stringify m = Header_stringify (msg_header m) @ concat (map Peer_stringify (msg_peers m))"

definition is_request :: "Message \<Rightarrow> bool" where
  "is_request m = t_flag (msg_header m)"

definition get_transaction_id :: "Message \<Rightarrow> string" where
  "get_transaction_id m = transaction_id (msg_header m)"

definition get_correlational_id :: "Message \<Rightarrow> string" where
  "get_correlational_id m = correlational_id (msg_header m)"

definition get_request_type :: "Message \<Rightarrow> string" where
  "get_request_type m = request_type (msg_header m)"

text \<open>\<open>get_header().set_correlational_id(id)\<close>: \<open>get_header\<close> returns the header by value, so
  the setter changes a temporary copy.\<close>

definition set_correlational_id :: "string \<Rightarrow> Message \<Rightarrow> Message" where
  "set_correlational_id i m = (let copy = (msg_header m)\<lparr>correlational_id := i\<rparr> in m)"

definition add_peer :: "Peer \<Rightarrow> Message \<Rightarrow> Message" where
  "add_peer p m = m\<lparr>msg_peers := msg_peers m @ [p]\<rparr>"

definition add_file :: "FileInfo \<Rightarrow> Message \<Rightarrow> Message" where
  "add_file f m = m\<lparr>msg_files := msg_files m @ [f]\<rparr>"

definition add_file_named :: "string \<Rightarrow> u64 \<Rightarrow> Message \<Rightarrow> Message" where
  "add_file_named name size' m = m\<lparr>msg_files := msg_files m @ [FileInfo_size name size']\<rparr>"

definition generate_response :: "Message \<Rightarrow> Message" where
  "generate_response m = Message_empty\<lparr>msg_header := generate_response_header (msg_header m)\<rparr>"

subsection \<open>Transaction ids\<close>

text \<open>\<open>static std::atomic<unsigned int> Counter\<close>: reset when it holds the largest value, then
  incremented.\<close>

definition next_counter :: "u32 \<Rightarrow> u32" where
  "next_counter c = (if c = - 1 then 0 else c) + 1"

definition transaction_preimage :: "nat \<Rightarrow> u32 \<Rightarrow> Message \<Rightarrow> string" where
  "transaction_preimage now c m = Message_stringify m @ (to_string now @ to_string (unat c))"

definition generate_transaction_id ::
  "(string \<Rightarrow> string) \<Rightarrow> nat \<Rightarrow> u32 \<Rightarrow> Message \<Rightarrow> Message \<times> u32" where
  "generate_transaction_id sha now c m =
     (let c' = next_counter c;
          tid = generate_sha256 sha (transaction_preimage now c' m)
      in (m\<lparr>msg_header := (msg_header m)\<lparr>transaction_id := tid\<rparr>\<rparr>, c'))"

definition create_request ::
  "(string \<Rightarrow> string) \<Rightarrow> nat \<Rightarrow> u32 \<Rightarrow> string \<Rightarrow> Message \<times> u32" where
  "create_request sha now c ty =
     generate_transaction_id sha now c
       (Message_empty\<lparr>msg_header := Header_new True 0 0 ty '''' '''' ''''\<rparr>)"

definition create_request_peers ::
  "(string \<Rightarrow> string) \<Rightarrow> nat \<Rightarrow> u32 \<Rightarrow> string \<Rightarrow> Peer list \<Rightarrow> Message \<times> u32" where
  "create_request_peers sha now c ty ps =
     generate_transaction_id sha now c
       (Message_empty\<lparr>msg_header := Header_new True 0 0 ty '''' '''' '''', msg_peers := ps\<rparr>)"

lemma next_counter_eq: "unat (next_counter c) = unat c mod (2 ^ 32 - 1) + 1"
proof (cases "c = - 1")
  case True
  then show ?thesis
    by (simp add: next_counter_def unsigned_minus_1_eq_mask mask_eq_exp_minus_1)
next
  case False
  have le: "unat c < 2 ^ 32" using unsigned_less [of c] by simp
  moreover have "unat c \<noteq> 2 ^ 32 - 1"
    using False by (auto simp: word_unat_eq_iff unsigned_minus_1_eq_mask mask_eq_exp_minus_1)
  ultimately have "unat c < 2 ^ 32 - 1" by linarith
  with False show ?thesis
    by (simp add: next_counter_def unat_word_ariths)
qed

lemma generated_message_simps [simp]:
  "msg_peers (fst (generate_transaction_id sha now c m)) = msg_peers m"
  "msg_files (fst (generate_transaction_id sha now c m)) = msg_files m"
  "msg_data (fst (generate_transaction_id sha now c m)) = msg_data m"
  "msg_file_chunk (fst (generate_transaction_id sha now c m)) = msg_file_chunk m"
  "t_flag (msg_header (fst (generate_transaction_id sha now c m))) = t_flag (msg_header m)"
  "request_type (msg_header (fst (generate_transaction_id sha now c m))) = request_type (msg_header m)"
  "correlational_id (msg_header (fst (generate_transaction_id sha now c m))) =
     correlational_id (msg_header m)"
  "snd (generate_transaction_id sha now c m) = next_counter c"
  by (simp_all add: generate_transaction_id_def Let_def)

lemma generate_response_simps [simp]:
  "\<not> t_flag (msg_header (generate_response m))"
  "correlational_id (msg_header (generate_response m)) = transaction_id (msg_header m)"
  "request_type (msg_header (generate_response m)) = request_type (msg_header m)"
  "msg_peers (generate_response m) = []"
  "msg_file_chunk (generate_response m) = None"
  by (simp_all add: generate_response_def generate_response_header_def Header_new_corr_def
      Message_empty_def)

text \<open>Two requests built one after the other in the same second and equal otherwise hash
  different texts.\<close>

lemma transaction_preimage_counter:
  "transaction_preimage now c m = transaction_preimage now d m \<Longrightarrow> c = d"
  by (auto simp: transaction_preimage_def word_unat_eq_iff dest: to_string_inj)

end
