(* ===== verification/Routing_Table.thy ===== *)
theory Routing_Table
  imports Messages
begin

section \<open>The routing table\<close>

text \<open>
  \<open>concurrent_routing_table.hpp\<close>, at \<open>T = Peer\<close>. Every method holds the table's mutex from
  its first line to its last, so an operation is one step of the model and a concurrent run is
  a sequence of operations.

  The three \<open>*_is_set\<close> flags are \<open>mutable\<close> and no constructor sets them: a fresh table has
  whatever the memory held, the argument of \<open>rt_new\<close>. The condition variable is modelled
  by the number of threads that wait on it: \<open>notify_all\<close> wakes them, and a thread that wakes
  waits again unless the predicate holds.

  An out-parameter is returned: \<open>try_get_self(T &value)\<close> is an option with the table (whose
  flag a failed call clears).
\<close>

record RoutingTable =
  rt_self_is_set :: bool
  rt_predecessor_is_set :: bool
  rt_successor_is_set :: bool
  rt_waiters :: nat
  rt_self :: "Peer option"
  rt_predecessor :: "Peer option"
  rt_successor_list :: "Peer list"

definition succ_list_size :: nat where
  "succ_list_size = 10"

definition rt_new :: "bool \<Rightarrow> bool \<Rightarrow> bool \<Rightarrow> RoutingTable" where
  "rt_new s p t =
     \<lparr>rt_self_is_set = s, rt_predecessor_is_set = p, rt_successor_is_set = t, rt_waiters = 0,
      rt_self = None, rt_predecessor = None, rt_successor_list = []\<rparr>"

definition rt_is_valid :: "RoutingTable \<Rightarrow> bool" where
  "rt_is_valid rt \<longleftrightarrow> rt_self_is_set rt \<and> rt_predecessor_is_set rt \<and> rt_successor_is_set rt"

definition notify_all :: "RoutingTable \<Rightarrow> RoutingTable" where
  "notify_all rt = (if rt_is_valid rt then rt\<lparr>rt_waiters := 0\<rparr> else rt)"

definition wait_til_valid :: "RoutingTable \<Rightarrow> RoutingTable" where
  "wait_til_valid rt =
     (if rt_is_valid rt then rt else rt\<lparr>rt_waiters := rt_waiters rt + 1\<rparr>)"

definition try_get_self :: "RoutingTable \<Rightarrow> Peer option \<times> RoutingTable" where
  "try_get_self rt =
     (case rt_self rt of
        None \<Rightarrow> (None, rt\<lparr>rt_self_is_set := False\<rparr>)
      | Some p \<Rightarrow> (Some p, rt))"

definition has_self :: "RoutingTable \<Rightarrow> bool" where
  "has_self rt \<longleftrightarrow> rt_self rt \<noteq> None"

definition set_self :: "Peer \<Rightarrow> RoutingTable \<Rightarrow> RoutingTable" where
  "set_self p rt = rt\<lparr>rt_self := Some p, rt_self_is_set := True\<rparr>"

definition try_get_predecessor :: "RoutingTable \<Rightarrow> Peer option \<times> RoutingTable" where
  "try_get_predecessor rt =
     (case rt_predecessor rt of
        None \<Rightarrow> (None, rt\<lparr>rt_predecessor_is_set := False\<rparr>)
      | Some p \<Rightarrow> (Some p, rt))"

definition has_predecessor :: "RoutingTable \<Rightarrow> bool" where
  "has_predecessor rt \<longleftrightarrow> rt_predecessor rt \<noteq> None"

definition set_predecessor :: "Peer \<Rightarrow> RoutingTable \<Rightarrow> RoutingTable" where
  "set_predecessor p rt =
     notify_all (rt\<lparr>rt_predecessor := Some p, rt_predecessor_is_set := True\<rparr>)"

definition reset_predecessor :: "RoutingTable \<Rightarrow> RoutingTable" where
  "reset_predecessor rt = rt\<lparr>rt_predecessor := None\<rparr>"

definition try_get_successor :: "RoutingTable \<Rightarrow> Peer option \<times> RoutingTable" where
  "try_get_successor rt =
     (case rt_successor_list rt of
        [] \<Rightarrow> (None, rt\<lparr>rt_successor_is_set := False\<rparr>)
      | p # _ \<Rightarrow> (Some p, rt))"

definition has_sucessor :: "RoutingTable \<Rightarrow> bool" where
  "has_sucessor rt \<longleftrightarrow> rt_successor_list rt \<noteq> []"

definition set_successor :: "Peer \<Rightarrow> RoutingTable \<Rightarrow> RoutingTable" where
  "set_successor p rt =
     notify_all
       (rt\<lparr>rt_successor_list :=
             (case rt_successor_list rt of [] \<Rightarrow> [p] | _ # ps \<Rightarrow> p # ps),
           rt_successor_is_set := True\<rparr>)"

definition replace_successor_list :: "Peer list \<Rightarrow> RoutingTable \<Rightarrow> RoutingTable" where
  "replace_successor_list new rt =
     rt\<lparr>rt_successor_list := resize succ_list_size Peer_empty new\<rparr>"

text \<open>\<open>insert(begin() + 1, ...)\<close> on an empty vector starts past its end.\<close>

definition replace_after_successor :: "Peer list \<Rightarrow> RoutingTable \<Rightarrow> RoutingTable res" where
  "replace_after_successor new rt =
     (case rt_successor_list rt of
        [] \<Rightarrow> Inl InsertPastEnd
      | p # ps \<Rightarrow>
          Inr (rt\<lparr>rt_successor_list := resize succ_list_size Peer_empty (p # new @ ps)\<rparr>))"

definition rt_size :: "RoutingTable \<Rightarrow> nat" where
  "rt_size rt = length (rt_successor_list rt)"

definition rt_push_back :: "Peer \<Rightarrow> RoutingTable \<Rightarrow> RoutingTable" where
  "rt_push_back p rt = rt\<lparr>rt_successor_list := rt_successor_list rt @ [p]\<rparr>"

definition rt_get_peers :: "RoutingTable \<Rightarrow> Peer list" where
  "rt_get_peers rt = rt_successor_list rt"

definition rt_pop_front :: "RoutingTable \<Rightarrow> bool \<times> RoutingTable" where
  "rt_pop_front rt =
     (if length (rt_successor_list rt) \<le> 1 then (False, rt)
      else (True, rt\<lparr>rt_successor_list := tl (rt_successor_list rt)\<rparr>))"

subsection \<open>Frame rules\<close>

lemmas rt_defs =
  set_self_def set_predecessor_def reset_predecessor_def set_successor_def
  replace_successor_list_def rt_push_back_def rt_pop_front_def notify_all_def
  wait_til_valid_def

lemma rt_self_frame [simp, rt_simps]:
  "rt_self (set_self p rt) = Some p"
  "rt_self (set_predecessor p rt) = rt_self rt"
  "rt_self (reset_predecessor rt) = rt_self rt"
  "rt_self (set_successor p rt) = rt_self rt"
  "rt_self (replace_successor_list ps rt) = rt_self rt"
  "rt_self (snd (rt_pop_front rt)) = rt_self rt"
  "rt_self (rt_push_back p rt) = rt_self rt"
  "rt_self (wait_til_valid rt) = rt_self rt"
  by (simp_all add: rt_defs)

lemma rt_predecessor_frame [simp, rt_simps]:
  "rt_predecessor (set_self p rt) = rt_predecessor rt"
  "rt_predecessor (set_predecessor p rt) = Some p"
  "rt_predecessor (reset_predecessor rt) = None"
  "rt_predecessor (set_successor p rt) = rt_predecessor rt"
  "rt_predecessor (replace_successor_list ps rt) = rt_predecessor rt"
  "rt_predecessor (snd (rt_pop_front rt)) = rt_predecessor rt"
  "rt_predecessor (rt_push_back p rt) = rt_predecessor rt"
  "rt_predecessor (wait_til_valid rt) = rt_predecessor rt"
  by (simp_all add: rt_defs)

lemma rt_successor_list_frame [simp, rt_simps]:
  "rt_successor_list (set_self p rt) = rt_successor_list rt"
  "rt_successor_list (set_predecessor p rt) = rt_successor_list rt"
  "rt_successor_list (reset_predecessor rt) = rt_successor_list rt"
  "rt_successor_list (replace_successor_list ps rt) = resize succ_list_size Peer_empty ps"
  "rt_successor_list (rt_push_back p rt) = rt_successor_list rt @ [p]"
  "rt_successor_list (wait_til_valid rt) = rt_successor_list rt"
  "rt_successor_list (set_successor p rt) = p # tl (rt_successor_list rt)"
  by (simp_all add: rt_defs split: list.split)

lemma rt_successor_list_pop [simp, rt_simps]:
  "rt_successor_list (snd (rt_pop_front rt)) =
     (if length (rt_successor_list rt) \<le> 1 then rt_successor_list rt
      else tl (rt_successor_list rt))"
  by (simp add: rt_pop_front_def)

lemma try_get_frame [simp, rt_simps]:
  "rt_self (snd (try_get_self rt)) = rt_self rt"
  "rt_predecessor (snd (try_get_self rt)) = rt_predecessor rt"
  "rt_successor_list (snd (try_get_self rt)) = rt_successor_list rt"
  "rt_self (snd (try_get_predecessor rt)) = rt_self rt"
  "rt_predecessor (snd (try_get_predecessor rt)) = rt_predecessor rt"
  "rt_successor_list (snd (try_get_predecessor rt)) = rt_successor_list rt"
  "rt_self (snd (try_get_successor rt)) = rt_self rt"
  "rt_predecessor (snd (try_get_successor rt)) = rt_predecessor rt"
  "rt_successor_list (snd (try_get_successor rt)) = rt_successor_list rt"
  by (simp_all add: try_get_self_def try_get_predecessor_def try_get_successor_def
      split: option.split list.split)

lemma fst_try_get [simp, rt_simps]:
  "fst (try_get_self rt) = rt_self rt"
  "fst (try_get_predecessor rt) = rt_predecessor rt"
  "fst (try_get_successor rt) =
     (case rt_successor_list rt of [] \<Rightarrow> None | p # _ \<Rightarrow> Some p)"
  by (simp_all add: try_get_self_def try_get_predecessor_def try_get_successor_def
      split: option.split list.split)

subsection \<open>The invariant of the running node\<close>

text \<open>After \<open>MessageHandler::init\<close> the node knows itself and has between one and ten
  successors; every operation the message objects call keeps that.\<close>

definition rt_inv :: "RoutingTable \<Rightarrow> bool" where
  "rt_inv rt \<longleftrightarrow>
     rt_self rt \<noteq> None \<and> rt_successor_list rt \<noteq> [] \<and> rt_size rt \<le> succ_list_size"

lemma rt_invD:
  assumes "rt_inv rt"
  obtains me s ss where "rt_self rt = Some me" "rt_successor_list rt = s # ss"
    "length ss < succ_list_size"
  using assms by (cases "rt_successor_list rt") (auto simp: rt_inv_def rt_size_def)

lemma rt_inv_preserved [simp, intro]:
  assumes "rt_inv rt"
  shows "rt_inv (set_self p rt)" "rt_inv (set_predecessor p rt)"
    "rt_inv (reset_predecessor rt)" "rt_inv (set_successor p rt)"
    "rt_inv (replace_successor_list ps rt)" "rt_inv (snd (rt_pop_front rt))"
    "rt_inv (wait_til_valid rt)"
    "rt_inv (snd (try_get_self rt))" "rt_inv (snd (try_get_predecessor rt))"
    "rt_inv (snd (try_get_successor rt))"
  using assms
  by (auto simp: rt_inv_def rt_size_def succ_list_size_def tl_Nil split: if_splits
      elim: order_trans)

lemma rt_inv_replace_after:
  "rt_inv rt \<Longrightarrow> \<exists>rt'. replace_after_successor ps rt = Inr rt' \<and> rt_inv rt'"
  by (cases "rt_successor_list rt")
    (auto simp: replace_after_successor_def rt_inv_def rt_size_def succ_list_size_def)

end
