(* ===== verification/Containers.thy ===== *)
theory Containers
  imports Prelude
begin

section \<open>The concurrent containers\<close>

text \<open>
  \<open>concurrent_queue.hpp\<close> (\<open>ConcurrentQueue\<close>, \<open>ConcurrentDeque\<close>) and
  \<open>concurrent_request_handler.hpp\<close> (\<open>ConcurrentSet\<close> and the deprecated
  \<open>ConcurrentRequestHandler\<close>). Every method holds the container's mutex throughout, so a
  method is one step. What a caller may rely on is stated by the locales \<open>fifo\<close> and
  \<open>keyed_set\<close>, which are interpreted on the code's operations.
\<close>

subsection \<open>ConcurrentQueue\<close>

type_synonym 'a queue = "'a list"

definition queue_new :: "'a queue" where
  "queue_new = []"

definition queue_empty :: "'a queue \<Rightarrow> bool" where
  "queue_empty q \<longleftrightarrow> q = []"

definition queue_push :: "'a \<Rightarrow> 'a queue \<Rightarrow> 'a queue" where
  "queue_push x q = q @ [x]"

definition queue_push_new :: "'a \<Rightarrow> 'a queue \<Rightarrow> 'a queue" where
  "queue_push_new x q = q @ [x]"

definition queue_try_pop :: "'a queue \<Rightarrow> 'a option \<times> 'a queue" where
  "queue_try_pop q = (if queue_empty q then (None, q) else (Some (hd q), tl q))"

text \<open>\<open>wait_for_and_pop\<close> returns when the queue is not empty or when the time is up: None is
  the null pointer of a time-out. The unbounded \<open>wait_and_pop\<close> is enabled only when there is
  something to pop.\<close>

definition wait_for_and_pop :: "'a queue \<Rightarrow> 'a option \<times> 'a queue" where
  "wait_for_and_pop q = (if q \<noteq> [] then (Some (hd q), tl q) else (None, q))"

definition wait_and_pop :: "'a queue \<Rightarrow> ('a \<times> 'a queue) option" where
  "wait_and_pop q = (case q of [] \<Rightarrow> None | x # xs \<Rightarrow> Some (x, xs))"

text \<open>First in, first out: what a producer and a consumer of a queue may rely on.\<close>

locale fifo =
  fixes new :: 'q
    and push :: "'a \<Rightarrow> 'q \<Rightarrow> 'q"
    and pop :: "'q \<Rightarrow> 'a option \<times> 'q"
    and contents :: "'q \<Rightarrow> 'a list"
  assumes contents_new: "contents new = []"
    and contents_push: "contents (push x q) = contents q @ [x]"
    and pop_Nil: "contents q = [] \<Longrightarrow> fst (pop q) = None"
    and pop_Cons: "contents q = x # xs \<Longrightarrow> fst (pop q) = Some x \<and> contents (snd (pop q)) = xs"
begin

text \<open>Pushing a list of elements.\<close>

lemma contents_pushes: "contents (fold push xs q) = contents q @ xs"
  by (induction xs arbitrary: q) (simp_all add: contents_push)

text \<open>\<open>n\<close> pops give the first \<open>n\<close> elements in the order they were pushed and leave the
  others.\<close>

lemma pops:
  "n \<le> length (contents q) \<Longrightarrow>
     map (\<lambda>i. fst (pop (((\<lambda>q. snd (pop q)) ^^ i) q))) [0..<n] = map Some (take n (contents q)) \<and>
     contents (((\<lambda>q. snd (pop q)) ^^ n) q) = drop n (contents q)"
proof (induction n)
  case 0
  then show ?case by simp
next
  case (Suc n)
  let ?q = "((\<lambda>q. snd (pop q)) ^^ n) q"
  from Suc have ih: "map (\<lambda>i. fst (pop (((\<lambda>q. snd (pop q)) ^^ i) q))) [0..<n] =
      map Some (take n (contents q))" and rest: "contents ?q = drop n (contents q)"
    by simp_all
  from rest Suc.prems have "contents ?q = contents q ! n # drop (Suc n) (contents q)"
    by (simp add: Cons_nth_drop_Suc)
  from pop_Cons [OF this] ih Suc.prems show ?case
    by (simp add: take_Suc_conv_app_nth)
qed

end

interpretation conc_queue: fifo "queue_new :: 'a queue" queue_push queue_try_pop "\<lambda>q. q"
  by unfold_locales
    (simp_all add: queue_new_def queue_push_def queue_try_pop_def queue_empty_def)

interpretation timed_queue: fifo "queue_new :: 'a queue" queue_push_new wait_for_and_pop "\<lambda>q. q"
  by unfold_locales (simp_all add: queue_new_def queue_push_new_def wait_for_and_pop_def)

subsection \<open>ConcurrentDeque::clean\<close>

text \<open>
  The loop of \<open>clean\<close>: every element is asked to check its state (which may change the shared
  state \<open>'s\<close> and the element); a finished one is overwritten with the last element, which is
  then popped, and the same index is looked at again. \<open>gone\<close> is the effect of destroying the
  element that was overwritten.
\<close>

function clean_loop ::
  "('s \<Rightarrow> 'a \<Rightarrow> 'a \<times> 's) \<Rightarrow> ('a \<Rightarrow> bool) \<Rightarrow> ('a \<Rightarrow> 's \<Rightarrow> 's) \<Rightarrow> nat \<Rightarrow> 'a list \<Rightarrow> 's \<Rightarrow> 'a list \<times> 's"
  where
  "clean_loop check fin gone i xs s =
     (if i < length xs then
        let (x, s') = check s (xs ! i); ys = xs[i := x] in
        if \<not> fin x then clean_loop check fin gone (Suc i) ys s'
        else clean_loop check fin gone i (butlast (ys[i := last ys])) (gone x s')
      else (xs, s))"
  by pat_completeness auto
termination
  by (relation "measure (\<lambda>(check, fin, gone, i, xs, s). length xs - i)") (auto split: prod.splits)

declare clean_loop.simps [simp del]

definition deque_clean ::
  "('s \<Rightarrow> 'a \<Rightarrow> 'a \<times> 's) \<Rightarrow> ('a \<Rightarrow> bool) \<Rightarrow> ('a \<Rightarrow> 's \<Rightarrow> 's) \<Rightarrow> 'a list \<Rightarrow> 's \<Rightarrow> 'a list \<times> 's"
  where
  "deque_clean check fin gone xs s = clean_loop check fin gone 0 xs s"

definition deque_push_back :: "'a \<Rightarrow> 'a list \<Rightarrow> 'a list" where
  "deque_push_back x xs = xs @ [x]"

text \<open>Replacing one element by the last and dropping the last removes exactly that element.\<close>

lemma mset_swap_remove:
  assumes "i < length ys"
  shows "mset (butlast (ys[i := last ys])) = mset ys - {#ys ! i#}"
proof -
  have ne: "ys \<noteq> []" using assms by auto
  have l: "last (ys[i := last ys]) = last ys"
    using assms by (simp add: last_conv_nth ne nth_list_update)
  have "mset (butlast (ys[i := last ys])) = mset (ys[i := last ys]) - {#last ys#}"
    using mset_butlast [of "ys[i := last ys]"] ne l by simp
  also have "\<dots> = mset ys - {#ys ! i#}"
    using assms by (simp add: mset_update)
  finally show ?thesis .
qed

lemma set_swap_remove:
  assumes "i < length ys"
  shows "set (butlast (ys[i := last ys])) \<subseteq> set ys"
proof -
  have "set_mset (mset (butlast (ys[i := last ys]))) \<subseteq> set_mset (mset ys)"
    unfolding mset_swap_remove [OF assms] by (meson in_diffD subsetI)
  then show ?thesis by simp
qed

lemma take_swap_remove:
  assumes "i < length ys"
  shows "take i (butlast (ys[i := y])) = take i ys"
  using assms by (simp add: butlast_conv_take)

text \<open>One turn of the loop, in the two cases.\<close>

lemma clean_loop_keep:
  "i < length xs \<Longrightarrow> check s (xs ! i) = (x, s') \<Longrightarrow> \<not> fin x \<Longrightarrow>
     clean_loop check fin gone i xs s = clean_loop check fin gone (Suc i) (xs[i := x]) s'"
  by (subst clean_loop.simps) (simp add: Let_def)

lemma clean_loop_drop:
  "i < length xs \<Longrightarrow> check s (xs ! i) = (x, s') \<Longrightarrow> fin x \<Longrightarrow>
     clean_loop check fin gone i xs s =
     clean_loop check fin gone i (butlast (xs[i := last (xs[i := x])])) (gone x s')"
  by (subst clean_loop.simps) (simp add: Let_def)

lemma clean_loop_end: "\<not> i < length xs \<Longrightarrow> clean_loop check fin gone i xs s = (xs, s)"
  by (simp add: clean_loop.simps)

text \<open>Induction over the turns of the loop.\<close>

lemma clean_loop_induct [case_names stop keep drop]:
  assumes "\<And>i xs s. \<not> i < length xs \<Longrightarrow> P i xs s"
    and "\<And>i xs s x s'. i < length xs \<Longrightarrow> check s (xs ! i) = (x, s') \<Longrightarrow> \<not> fin x \<Longrightarrow>
       P (Suc i) (xs[i := x]) s' \<Longrightarrow> P i xs s"
    and "\<And>i xs s x s'. i < length xs \<Longrightarrow> check s (xs ! i) = (x, s') \<Longrightarrow> fin x \<Longrightarrow>
       P i (butlast (xs[i := last (xs[i := x])])) (gone x s') \<Longrightarrow> P i xs s"
  shows "P i xs s"
proof (induction "length xs - i" arbitrary: i xs s rule: less_induct)
  case (less i xs s)
  show ?case
  proof (cases "i < length xs")
    case i: True
    obtain x s' where c: "check s (xs ! i) = (x, s')" by fastforce
    show ?thesis
    proof (cases "fin x")
      case True
      from i have "length (butlast (xs[i := last (xs[i := x])])) - i < length xs - i"
        by simp
      then have "P i (butlast (xs[i := last (xs[i := x])])) (gone x s')" by (rule less)
      from i c True this show ?thesis by (rule assms(3) [where x = x and s' = s'])
    next
      case False
      from i have "length (xs[i := x]) - Suc i < length xs - i" by simp
      then have "P (Suc i) (xs[i := x]) s'" by (rule less)
      from i c False this show ?thesis by (rule assms(2) [where x = x and s' = s'])
    qed
  next
    case False
    then show ?thesis by (rule assms(1))
  qed
qed

text \<open>Nothing that is finished stays in the deque.\<close>

lemma clean_loop_none_finished:
  "\<forall>x \<in> set (take i xs). \<not> fin x \<Longrightarrow>
     \<forall>x \<in> set (fst (clean_loop check fin gone i xs s)). \<not> fin x"
proof (induction i xs s rule: clean_loop_induct [where check = check and fin = fin and gone = gone])
  case (stop i xs s)
  then show ?case by (simp add: clean_loop_end)
next
  case (keep i xs s x s')
  have "take (Suc i) (xs[i := x]) = take i xs @ [x]"
    using keep.hyps(1) by (simp add: take_Suc_conv_app_nth)
  with keep.hyps(3) keep.prems have "\<forall>x \<in> set (take (Suc i) (xs[i := x])). \<not> fin x"
    by simp
  from keep.IH [OF this] show ?case by (simp only: clean_loop_keep
        [where check = check and fin = fin and gone = gone and s = s and s' = s' and x = x and i = i and xs = xs, OF keep.hyps])
next
  case (drop i xs s x s')
  from drop.prems have "\<forall>y \<in> set (take i (butlast (xs[i := last (xs[i := x])]))). \<not> fin y"
    using take_swap_remove [OF drop.hyps(1)] by simp
  from drop.IH [OF this] show ?case by (simp only: clean_loop_drop
        [where check = check and fin = fin and gone = gone and s = s and s' = s' and x = x and i = i and xs = xs, OF drop.hyps])
qed

text \<open>A property of every element and of the shared state that checking and destroying keep
  holds at the end.\<close>

lemma clean_loop_invariant:
  assumes "\<And>s x. I s \<Longrightarrow> Q x \<Longrightarrow> I (snd (check s x)) \<and> Q (fst (check s x))"
    and "\<And>s x. I s \<Longrightarrow> Q x \<Longrightarrow> I (gone x s)"
  shows "I s \<Longrightarrow> \<forall>x \<in> set xs. Q x \<Longrightarrow>
    I (snd (clean_loop check fin gone i xs s)) \<and>
    (\<forall>x \<in> set (fst (clean_loop check fin gone i xs s)). Q x)"
proof (induction i xs s rule: clean_loop_induct [where check = check and fin = fin and gone = gone])
  case (stop i xs s)
  then show ?case by (simp add: clean_loop_end)
next
  case (keep i xs s x s')
  from assms(1) [OF keep.prems(1), of "xs ! i"] keep have x: "I s'" "Q x" by auto
  then have "\<forall>y \<in> set (xs[i := x]). Q y"
    using keep.prems(2) set_update_subset_insert [of xs i x] by blast
  with keep x show ?case by (simp add: clean_loop_keep)
next
  case (drop i xs s x s')
  from assms(1) [OF drop.prems(1), of "xs ! i"] drop have x: "I s'" "Q x" by auto
  then have "\<forall>y \<in> set (xs[i := x]). Q y"
    using drop.prems(2) set_update_subset_insert [of xs i x] by blast
  then have "\<forall>y \<in> set (butlast (xs[i := last (xs[i := x])])). Q y"
    using set_swap_remove [of i "xs[i := x]"] drop.hyps(1) by auto
  moreover have "I (gone x s')" using assms(2) x by blast
  ultimately show ?case using drop by (simp add: clean_loop_drop)
qed

text \<open>When every check finishes its element, nothing is left.\<close>

lemma clean_loop_empty:
  assumes "\<And>s x. I s \<Longrightarrow> Q x \<Longrightarrow> fin (fst (check s x)) \<and> I (gone (fst (check s x)) (snd (check s x)))"
  shows "I s \<Longrightarrow> \<forall>x \<in> set xs. Q x \<Longrightarrow> fst (clean_loop check fin gone 0 xs s) = []"
proof (induction "length xs" arbitrary: xs s)
  case 0
  then show ?case by (simp add: clean_loop_end)
next
  case (Suc n)
  then obtain y ys where xs: "xs = y # ys" by (cases xs) auto
  obtain x s' where c: "check s y = (x, s')" by fastforce
  from assms [OF Suc.prems(1), of y] Suc.prems(2) c xs have x: "fin x" "I (gone x s')" by auto
  let ?zs = "butlast ((x # ys)[0 := last (x # ys)])"
  have zs: "clean_loop check fin gone 0 xs s = clean_loop check fin gone 0 ?zs (gone x s')"
    using clean_loop_drop [of 0 xs check s x s' fin gone] c x(1) xs by simp
  have "set ?zs \<subseteq> set ys"
    by (cases ys rule: rev_cases) (auto dest: in_set_butlastD)
  then have "\<forall>x \<in> set ?zs. Q x" using Suc.prems(2) xs by auto
  moreover have "n = length ?zs" using Suc.hyps(2) xs by simp
  ultimately show ?case unfolding zs by (intro Suc.hyps(1) x(2))
qed

text \<open>With a check whose effect on an element does not depend on the others, every element is
  checked once and exactly the finished ones are removed.\<close>

lemma mset_take_nth_drop:
  "i < length xs \<Longrightarrow> mset xs = mset (take i xs) + {#xs ! i#} + mset (drop (Suc i) xs)"
  by (metis add.assoc add_mset_add_single append_take_drop_id Cons_nth_drop_Suc mset.simps(2)
      mset_append union_commute)

lemma clean_loop_filter:
  assumes "\<And>s x. fst (check s x) = f x"
  shows "mset (fst (clean_loop check fin gone i xs s)) =
    mset (take i xs) + filter_mset (\<lambda>x. \<not> fin x) (image_mset f (mset (drop i xs)))"
proof (induction i xs s rule: clean_loop_induct [where check = check and fin = fin and gone = gone])
  case (stop i xs s)
  then show ?case by (simp add: clean_loop_end)
next
  case (keep i xs s x s')
  from keep.hyps assms [of s "xs ! i"] have x: "x = f (xs ! i)" by simp
  have "mset (drop i xs) = add_mset (xs ! i) (mset (drop (Suc i) xs))"
    using keep.hyps(1) by (metis Cons_nth_drop_Suc mset.simps(2))
  with keep x show ?case by (simp add: clean_loop_keep take_Suc_conv_app_nth)
next
  case (drop i xs s x s')
  from drop.hyps assms [of s "xs ! i"] have x: "x = f (xs ! i)" by simp
  let ?zs = "xs[i := x]" and ?ys = "butlast (xs[i := last (xs[i := x])])"
  have "mset ?ys = mset ?zs - {#?zs ! i#}"
    using mset_swap_remove [of i ?zs] drop.hyps(1) by simp
  also have "\<dots> = mset (take i xs) + mset (drop (Suc i) xs)"
    using mset_take_nth_drop [of i ?zs] drop.hyps(1) by simp
  finally have "mset (drop i ?ys) = mset (drop (Suc i) xs)"
    using take_swap_remove [OF drop.hyps(1), of "last ?zs"]
    by (metis add_left_cancel append_take_drop_id mset_append)
  moreover have "mset (drop i xs) = add_mset (xs ! i) (mset (drop (Suc i) xs))"
    using drop.hyps(1) by (metis Cons_nth_drop_Suc mset.simps(2))
  ultimately show ?case
    using drop x take_swap_remove [OF drop.hyps(1), of "last ?zs"] by (simp add: clean_loop_drop)
qed

lemma deque_clean_none_finished:
  "x \<in> set (fst (deque_clean check fin gone xs s)) \<Longrightarrow> \<not> fin x"
  using clean_loop_none_finished [of 0 xs fin check gone s] by (simp add: deque_clean_def)

subsection \<open>ConcurrentSet\<close>

text \<open>
  A \<open>std::set\<close> ordered by a key (the \<open>operator<\<close> of the stored type compares correlation
  ids) is the list of its elements in the order of an iteration. \<open>insert\<close> leaves an element with
  an equivalent key in place, and the transparent comparator lets \<open>find\<close> search by the key.
\<close>

definition set_wf :: "('a \<Rightarrow> 'k::linorder) \<Rightarrow> 'a list \<Rightarrow> bool" where
  "set_wf key xs \<longleftrightarrow> sorted_wrt (\<lambda>x y. key x < key y) xs"

definition set_find :: "('a \<Rightarrow> 'k::linorder) \<Rightarrow> 'k \<Rightarrow> 'a list \<Rightarrow> 'a option" where
  "set_find key k xs = List.find (\<lambda>x. key x = k) xs"

definition set_contains :: "('a \<Rightarrow> 'k::linorder) \<Rightarrow> 'k \<Rightarrow> 'a list \<Rightarrow> bool" where
  "set_contains key k xs \<longleftrightarrow> set_find key k xs \<noteq> None"

fun set_insert :: "('a \<Rightarrow> 'k::linorder) \<Rightarrow> 'a \<Rightarrow> 'a list \<Rightarrow> 'a list" where
  "set_insert key x [] = [x]"
| "set_insert key x (y # ys) =
     (if key x < key y then x # y # ys
      else if key x = key y then y # ys
      else y # set_insert key x ys)"

definition set_erase :: "('a \<Rightarrow> 'k::linorder) \<Rightarrow> 'k \<Rightarrow> 'a list \<Rightarrow> 'a list" where
  "set_erase key k xs = filter (\<lambda>x. key x \<noteq> k) xs"

definition get_and_erase ::
  "('a \<Rightarrow> 'k::linorder) \<Rightarrow> 'k \<Rightarrow> 'a list \<Rightarrow> 'a option \<times> 'a list" where
  "get_and_erase key k xs =
     (case set_find key k xs of
        None \<Rightarrow> (None, xs)
      | Some x \<Rightarrow> (Some x, set_erase key k xs))"

definition get_and_erase_if ::
  "('a \<Rightarrow> 'k::linorder) \<Rightarrow> ('a \<Rightarrow> bool) \<Rightarrow> 'k \<Rightarrow> 'a list \<Rightarrow> 'a option \<times> 'a list" where
  "get_and_erase_if key p k xs =
     (case set_find key k xs of
        None \<Rightarrow> (None, xs)
      | Some x \<Rightarrow> if p x then (Some x, set_erase key k xs) else (Some x, xs))"

fun set_erase_if :: "('a \<Rightarrow> bool) \<Rightarrow> 'a list \<Rightarrow> 'a list" where
  "set_erase_if p [] = []"
| "set_erase_if p (x # xs) = (if p x then set_erase_if p xs else x # set_erase_if p xs)"

text \<open>What the client of the set relies on.\<close>

locale keyed_set =
  fixes key :: "'a \<Rightarrow> 'k"
    and wf :: "'s \<Rightarrow> bool"
    and lookup :: "'k \<Rightarrow> 's \<Rightarrow> 'a option"
    and insert :: "'a \<Rightarrow> 's \<Rightarrow> 's"
    and take_if :: "('a \<Rightarrow> bool) \<Rightarrow> 'k \<Rightarrow> 's \<Rightarrow> 'a option \<times> 's"
    and purge :: "('a \<Rightarrow> bool) \<Rightarrow> 's \<Rightarrow> 's"
  assumes wf_insert: "wf s \<Longrightarrow> wf (insert x s)"
    and wf_take: "wf s \<Longrightarrow> wf (snd (take_if p k s))"
    and wf_purge: "wf s \<Longrightarrow> wf (purge p s)"
    and lookup_insert: "wf s \<Longrightarrow>
      lookup k (insert x s) = (if k = key x \<and> lookup k s = None then Some x else lookup k s)"
    and fst_take: "wf s \<Longrightarrow> fst (take_if p k s) = lookup k s"
    and lookup_take: "wf s \<Longrightarrow>
      lookup k' (snd (take_if p k s)) =
        (if k' = k \<and> (\<exists>x. lookup k s = Some x \<and> p x) then None else lookup k' s)"
    and lookup_purge: "wf s \<Longrightarrow>
      lookup k (purge p s) =
        (case lookup k s of None \<Rightarrow> None | Some x \<Rightarrow> if p x then None else Some x)"
begin

text \<open>What was inserted under a fresh key is what is taken, and it can be taken once unless the
  predicate lets it stay.\<close>

lemma take_inserted:
  assumes "wf s" "lookup (key x) s = None"
  shows "fst (take_if p (key x) (insert x s)) = Some x"
    and "p x \<Longrightarrow> fst (take_if p' (key x) (snd (take_if p (key x) (insert x s)))) = None"
    and "\<not> p x \<Longrightarrow> fst (take_if p' (key x) (snd (take_if p (key x) (insert x s)))) = Some x"
  using assms by (simp_all add: fst_take lookup_insert lookup_take wf_insert wf_take)

text \<open>Taking one key does not disturb another, and a second insertion under a key is lost.\<close>

lemma take_other:
  assumes "wf s" "k' \<noteq> k"
  shows "fst (take_if p k' (snd (take_if q k s))) = fst (take_if p k' s)"
  using assms by (simp add: fst_take lookup_take wf_take)

lemma insert_twice:
  assumes "wf s" "key x = key y"
  shows "lookup (key x) (insert y (insert x s)) = lookup (key x) (insert x s)"
  using assms by (simp add: lookup_insert wf_insert)

end

lemma set_wf_Cons:
  "set_wf key (x # xs) \<longleftrightarrow> (\<forall>y \<in> set xs. key x < key y) \<and> set_wf key xs"
  by (simp add: set_wf_def)

lemma set_set_insert: "set (set_insert key x xs) \<subseteq> insert x (set xs)"
  by (induction xs) auto

lemma set_insert_superset: "set xs \<subseteq> set (set_insert key x xs)"
  by (induction xs) auto

lemma set_wf_insert: "set_wf key xs \<Longrightarrow> set_wf key (set_insert key x xs)"
proof (induction xs)
  case Nil
  then show ?case by (simp add: set_wf_def)
next
  case (Cons y ys)
  then show ?case
    using set_set_insert [of key x ys] by (auto simp: set_wf_Cons)
qed

lemma set_wf_filter: "set_wf key xs \<Longrightarrow> set_wf key (filter p xs)"
  by (simp add: set_wf_def sorted_wrt_filter)

lemma set_erase_if_filter: "set_erase_if p xs = filter (\<lambda>x. \<not> p x) xs"
  by (induction xs) simp_all

lemma set_find_Cons [simp]:
  "set_find key k [] = None"
  "set_find key k (x # xs) = (if key x = k then Some x else set_find key k xs)"
  by (simp_all add: set_find_def)

lemma set_find_SomeD: "set_find key k xs = Some x \<Longrightarrow> x \<in> set xs \<and> key x = k"
  by (induction xs) (auto split: if_splits)

lemma set_find_None: "(\<forall>y \<in> set xs. key y \<noteq> k) \<Longrightarrow> set_find key k xs = None"
  by (induction xs) auto

lemma set_find_insert:
  "set_wf key xs \<Longrightarrow>
   set_find key k (set_insert key x xs) =
     (if k = key x \<and> set_find key k xs = None then Some x else set_find key k xs)"
proof (induction xs)
  case Nil
  then show ?case by simp
next
  case (Cons y ys)
  have "set_find key (key x) ys = None" if "key x < key y"
    using Cons.prems that by (intro set_find_None) (force simp: set_wf_Cons)
  with Cons show ?case by (auto simp: set_wf_Cons)
qed

lemma set_find_filter:
  "set_wf key xs \<Longrightarrow>
   set_find key k (filter p xs) =
     (case set_find key k xs of None \<Rightarrow> None | Some x \<Rightarrow> if p x then Some x else None)"
proof (induction xs)
  case Nil
  then show ?case by simp
next
  case (Cons y ys)
  have "set_find key (key y) (filter p ys) = None"
    using Cons.prems by (intro set_find_None) (force simp: set_wf_Cons)
  with Cons show ?case by (auto simp: set_wf_Cons split: option.splits)
qed

interpretation conc_set: keyed_set key "set_wf key" "set_find key" "set_insert key"
    "get_and_erase_if key" set_erase_if
  for key :: "'a \<Rightarrow> 'k::linorder"
proof
  fix s :: "'a list" and x :: 'a and p :: "'a \<Rightarrow> bool" and k k' :: 'k
  assume wf: "set_wf key s"
  show "set_wf key (set_insert key x s)" by (rule set_wf_insert [OF wf])
  show "set_wf key (snd (get_and_erase_if key p k s))"
    using wf by (auto simp: get_and_erase_if_def set_erase_def set_wf_filter split: option.split)
  show "set_wf key (set_erase_if p s)" by (simp add: set_erase_if_filter set_wf_filter wf)
  show "set_find key k (set_insert key x s) =
      (if k = key x \<and> set_find key k s = None then Some x else set_find key k s)"
    by (rule set_find_insert [OF wf])
  show "fst (get_and_erase_if key p k s) = set_find key k s"
    by (simp add: get_and_erase_if_def split: option.split)
  show "set_find key k' (snd (get_and_erase_if key p k s)) =
      (if k' = k \<and> (\<exists>x. set_find key k s = Some x \<and> p x) then None else set_find key k' s)"
    using wf
    by (auto simp: get_and_erase_if_def set_erase_def set_find_filter split: option.split
        dest: set_find_SomeD)
  show "set_find key k (set_erase_if p s) =
      (case set_find key k s of None \<Rightarrow> None | Some x \<Rightarrow> if p x then None else Some x)"
    using wf by (auto simp: set_erase_if_filter set_find_filter split: option.split)
qed

lemma get_and_erase_is_if: "get_and_erase key k xs = get_and_erase_if key (\<lambda>_. True) k xs"
  by (simp add: get_and_erase_def get_and_erase_if_def split: option.split)

subsection \<open>The deprecated ConcurrentRequestHandler\<close>

text \<open>A \<open>std::map\<close> from ids, as the list of its pairs in key order. \<open>operator[]\<close> inserts a
  default value under a missing key, also when it is only read.\<close>

fun map_assign :: "'k::linorder \<Rightarrow> 'v \<Rightarrow> ('k \<times> 'v) list \<Rightarrow> ('k \<times> 'v) list" where
  "map_assign k v [] = [(k, v)]"
| "map_assign k v ((k', v') # m) =
     (if k < k' then (k, v) # (k', v') # m
      else if k = k' then (k, v) # m
      else (k', v') # map_assign k v m)"

definition handler_index :: "'v \<Rightarrow> 'k::linorder \<Rightarrow> ('k \<times> 'v) list \<Rightarrow> 'v \<times> ('k \<times> 'v) list" where
  "handler_index dflt k m =
     (case map_of m k of
        Some v \<Rightarrow> (v, m)
      | None \<Rightarrow> (dflt, map_assign k dflt m))"

definition handler_set :: "'k::linorder \<Rightarrow> 'v \<Rightarrow> ('k \<times> 'v) list \<Rightarrow> ('k \<times> 'v) list" where
  "handler_set k v m = map_assign k v m"

definition handler_get :: "'v \<Rightarrow> 'k::linorder \<Rightarrow> ('k \<times> 'v) list \<Rightarrow> 'v \<times> ('k \<times> 'v) list" where
  "handler_get dflt k m = handler_index dflt k m"

definition try_find_and_erase ::
  "'k::linorder \<Rightarrow> ('k \<times> 'v) list \<Rightarrow> 'v option \<times> ('k \<times> 'v) list" where
  "try_find_and_erase k m =
     (case map_of m k of
        None \<Rightarrow> (None, m)
      | Some v \<Rightarrow> (Some v, filter (\<lambda>kv. fst kv \<noteq> k) m))"

text \<open>\<open>handle_timeouts\<close> erases the first request that is no longer valid and stops; that
  request is then called with itself. The call is returned.\<close>

fun handle_timeouts ::
  "('v \<Rightarrow> bool) \<Rightarrow> ('k \<times> 'v) list \<Rightarrow> 'v option \<times> ('k \<times> 'v) list" where
  "handle_timeouts valid [] = (None, [])"
| "handle_timeouts valid ((k, v) # m) =
     (if valid v then (let (r, m') = handle_timeouts valid m in (r, (k, v) # m'))
      else (Some v, m))"

lemma map_of_map_assign: "map_of (map_assign k v m) = (map_of m)(k \<mapsto> v)" if "sorted_wrt (\<lambda>x y. fst x < fst y) m"
  using that
proof (induction k v m rule: map_assign.induct)
  case (1 k v)
  then show ?case by simp
next
  case (2 k v k' v' m)
  then show ?case by (auto simp: fun_eq_iff)
qed

lemma handle_timeouts_correct:
  "handle_timeouts valid m = (r, m') \<Longrightarrow>
     (r = None \<longrightarrow> m' = m \<and> (\<forall>kv \<in> set m. valid (snd kv))) \<and>
     (\<forall>v. r = Some v \<longrightarrow> \<not> valid v \<and> (\<exists>k pre post. m = pre @ (k, v) # post \<and> m' = pre @ post \<and>
        (\<forall>kv \<in> set pre. valid (snd kv))))"
proof (induction valid m arbitrary: r m' rule: handle_timeouts.induct)
  case (1 valid)
  then show ?case by simp
next
  case (2 valid k v m)
  show ?case
  proof (cases "valid v")
    case False
    with "2.prems" show ?thesis by fastforce
  next
    case True
    with "2.prems" obtain m'' where rec: "handle_timeouts valid m = (r, m'')"
      and m': "m' = (k, v) # m''"
      by (auto split: prod.splits)
    from "2.IH" [OF True rec] True m' show ?thesis
      by (auto simp: Cons_eq_append_conv) (metis append_Cons set_ConsD snd_conv)
  qed
qed

text \<open>The clean-up by swapping with the last element removes exactly what a filter removes: when
  the effect of a check on an element does not depend on the others, every element is checked
  once, those that are finished afterwards are gone and all others stay, in some order.\<close>

lemma deque_clean_filters:
  assumes "\<And>s x. fst (check s x) = f x"
  shows "mset (fst (deque_clean check fin gone xs s)) =
    filter_mset (\<lambda>x. \<not> fin x) (image_mset f (mset xs))"
  using clean_loop_filter [where i = 0 and xs = xs and s = s and fin = fin and gone = gone, OF assms] by (simp add: deque_clean_def)

lemma deque_clean_filters_witness:
  "mset (fst (deque_clean (\<lambda>(s :: nat) x. (x + 1, s)) even (\<lambda>x s. s + 1) [1, 2, 3 :: nat] 0)) = {#3#}"
  using deque_clean_filters [where check = "\<lambda>(s :: nat) x. (x + 1, s)" and f = "\<lambda>x. x + 1"
      and fin = even and gone = "\<lambda>x s. s + 1" and xs = "[1, 2, 3 :: nat]" and s = 0]
  by simp

end
