(* ===== verification/Converter.thy ===== *)
theory Converter
  imports Messages
begin

section \<open>Messages on the wire: the protobuf converter\<close>

text \<open>
  \<open>message_converter.hpp\<close> over the schema \<open>proto/messages.proto\<close>. The records below are the
  messages of the schema: a \<open>required\<close> field is a value, an \<open>optional\<close> one an option, a
  \<open>repeated\<close> one a list; \<open>int64\<close> fields are integers, which the code converts from and to
  \<open>size_t\<close>. The encoder and the parser that protobuf generates from the schema are not part of
  the program: \<open>pb_ser\<close> and \<open>pb_parse\<close> are arguments, and a round trip assumes of them only
  that parsing what was serialized gives the message back.
\<close>

subsection \<open>The schema\<close>

record pb_CommonHeader =
  pb_t_flag :: bool
  pb_ttl :: u32
  pb_message_length :: u64
  pb_request_type :: string
  pb_transaction_id :: string
  pb_correlational_id :: string
  pb_version :: string
  pb_response_code :: "string option"

record pb_PeerInfo =
  pb_peer_id :: string
  pb_peer_ip :: string
  pb_peer_port :: string
  pb_peer_rtt :: "string option"
  pb_peer_uptime :: "string option"

record pb_FileInfo =
  pb_file_name :: string
  pb_sha256sum :: "string option"
  pb_file_size :: "int option"
  pb_file_offset :: "int option"

record pb_FileChunk =
  pb_chunk_offset :: int
  pb_chunk_size :: int
  pb_chunk_data :: "byte list"

record pb_Request =
  pb_commonheader :: pb_CommonHeader
  pb_peerinfo :: "pb_PeerInfo list"
  pb_files :: "pb_FileInfo list"
  pb_file_chunk :: "pb_FileChunk option"
  pb_data :: "string option"

text \<open>The conversions between \<open>size_t\<close> and \<open>int64_t\<close>.\<close>

definition int64_of_size :: "u64 \<Rightarrow> int" where
  "int64_of_size w = sint w"

definition size_of_int64 :: "int \<Rightarrow> u64" where
  "size_of_int64 i = word_of_int i"

lemma size_int64_roundtrip [simp]: "size_of_int64 (int64_of_size w) = w"
  by (simp add: size_of_int64_def int64_of_size_def)

subsection \<open>MessageFromSerialized\<close>

definition header_from_pb :: "pb_CommonHeader \<Rightarrow> Header" where
  "header_from_pb h =
     Header_new_corr (pb_t_flag h) (pb_ttl h) (pb_message_length h) (pb_request_type h)
       (pb_transaction_id h) (pb_correlational_id h) (pb_version h)
       (case pb_response_code h of None \<Rightarrow> '''' | Some c \<Rightarrow> c)"

definition peer_from_pb :: "pb_PeerInfo \<Rightarrow> Peer" where
  "peer_from_pb p = Peer_new (pb_peer_id p) (pb_peer_ip p) (pb_peer_port p)"

definition file_from_pb :: "pb_FileInfo \<Rightarrow> FileInfo" where
  "file_from_pb f =
     FileInfo_offset (pb_file_name f)
       (case pb_sha256sum f of None \<Rightarrow> '''' | Some s \<Rightarrow> s)
       (case pb_file_size f of None \<Rightarrow> 0 | Some n \<Rightarrow> size_of_int64 n)
       (case pb_file_offset f of None \<Rightarrow> 0 | Some n \<Rightarrow> size_of_int64 n)"

text \<open>\<open>std::vector<char>(data, data + file_chunk.size)\<close>: the size is the sender's
  \<open>chunk_size\<close> field, whatever the number of bytes in \<open>data\<close>.\<close>

definition chunk_from_pb :: "pb_FileChunk \<Rightarrow> FileChunk res" where
  "chunk_from_pb c =
     (let n = unat (size_of_int64 (pb_chunk_size c)) in
      if n > length (pb_chunk_data c) then Inl ReadPastEnd
      else Inr \<lparr>chunk_size = size_of_int64 (pb_chunk_size c),
                chunk_offset = size_of_int64 (pb_chunk_offset c),
                chunk_data = take n (pb_chunk_data c)\<rparr>)"

definition message_from_pb :: "pb_Request \<Rightarrow> Message res" where
  "message_from_pb r =
     (let m = fold (\<lambda>f m. add_file (file_from_pb f) m) (pb_files r)
                (fold (\<lambda>p m. add_peer (peer_from_pb p) m) (pb_peerinfo r)
                  (Message_empty\<lparr>msg_header := header_from_pb (pb_commonheader r)\<rparr>))
      in res_bind
           (case pb_file_chunk r of
              None \<Rightarrow> Inr m
            | Some c \<Rightarrow> res_bind (chunk_from_pb c) (\<lambda>c'. Inr (m\<lparr>msg_file_chunk := Some c'\<rparr>)))
           (\<lambda>m. Inr (case pb_data r of None \<Rightarrow> m | Some d \<Rightarrow> m\<lparr>msg_data := d\<rparr>)))"

text \<open>The boolean result of \<open>ParseFromArray\<close> is ignored: \<open>pb_parse\<close> gives the message object
  as the call leaves it.\<close>

definition MessageFromSerialized :: "(byte list \<Rightarrow> pb_Request) \<Rightarrow> byte list \<Rightarrow> Message res" where
  "MessageFromSerialized pb_parse buf = message_from_pb (pb_parse buf)"

subsection \<open>SerializedFromMessage\<close>

definition header_to_pb :: "Header \<Rightarrow> pb_CommonHeader" where
  "header_to_pb h =
     \<lparr>pb_t_flag = t_flag h, pb_ttl = ttl h, pb_message_length = message_length h,
      pb_request_type = request_type h, pb_transaction_id = transaction_id h,
      pb_correlational_id = correlational_id h, pb_version = hdr_version h,
      pb_response_code = Some (response_code h)\<rparr>"

definition peer_to_pb :: "Peer \<Rightarrow> pb_PeerInfo" where
  "peer_to_pb p =
     \<lparr>pb_peer_id = peer_id p, pb_peer_ip = peer_ip p, pb_peer_port = peer_port p,
      pb_peer_rtt = None, pb_peer_uptime = None\<rparr>"

definition file_to_pb :: "FileInfo \<Rightarrow> pb_FileInfo" where
  "file_to_pb f =
     \<lparr>pb_file_name = file_name f, pb_sha256sum = Some (sha256sum f),
      pb_file_size = Some (int64_of_size (file_size f)),
      pb_file_offset = Some (int64_of_size (file_offset f))\<rparr>"

text \<open>\<open>set_data(data.data(), size)\<close> copies \<open>size\<close> bytes from the chunk's buffer.\<close>

definition chunk_to_pb :: "FileChunk \<Rightarrow> pb_FileChunk res" where
  "chunk_to_pb c =
     (if unat (chunk_size c) > length (chunk_data c) then Inl ReadPastEnd
      else Inr \<lparr>pb_chunk_offset = int64_of_size (chunk_offset c),
                pb_chunk_size = int64_of_size (chunk_size c),
                pb_chunk_data = take (unat (chunk_size c)) (chunk_data c)\<rparr>)"

definition message_to_pb :: "Message \<Rightarrow> pb_Request res" where
  "message_to_pb m =
     (let r = \<lparr>pb_commonheader = header_to_pb (msg_header m),
               pb_peerinfo = map peer_to_pb (msg_peers m),
               pb_files = map file_to_pb (msg_files m),
               pb_file_chunk = None,
               pb_data = (if msg_data m \<noteq> '''' then Some (msg_data m) else None)\<rparr>
      in case msg_file_chunk m of
           None \<Rightarrow> Inr r
         | Some c \<Rightarrow> res_bind (chunk_to_pb c) (\<lambda>c'. Inr (r\<lparr>pb_file_chunk := Some c'\<rparr>)))"

definition SerializedFromMessage :: "(pb_Request \<Rightarrow> byte list) \<Rightarrow> Message \<Rightarrow> byte list res" where
  "SerializedFromMessage pb_ser m = res_bind (message_to_pb m) (\<lambda>r. Inr (pb_ser r))"

subsection \<open>Round trips\<close>

text \<open>A chunk is well formed when its size is the number of its bytes, which is how
  \<open>FileChunk_new\<close> builds it.\<close>

definition chunk_wf :: "FileChunk \<Rightarrow> bool" where
  "chunk_wf c \<longleftrightarrow> unat (chunk_size c) = length (chunk_data c)"

definition message_wf :: "Message \<Rightarrow> bool" where
  "message_wf m \<longleftrightarrow> (case msg_file_chunk m of None \<Rightarrow> True | Some c \<Rightarrow> chunk_wf c)"

lemma chunk_wf_new:
  "n \<le> length buf \<Longrightarrow> n < 2 ^ 64 \<Longrightarrow> chunk_wf (FileChunk_new buf n off)"
  by (simp add: chunk_wf_def FileChunk_new_def unat_of_nat)

lemma fold_add_peer:
  "fold (\<lambda>p m. add_peer (f p) m) ps m = m\<lparr>msg_peers := msg_peers m @ map f ps\<rparr>"
  by (induction ps arbitrary: m) (simp_all add: add_peer_def)

lemma fold_add_file:
  "fold (\<lambda>x m. add_file (f x) m) xs m = m\<lparr>msg_files := msg_files m @ map f xs\<rparr>"
  by (induction xs arbitrary: m) (simp_all add: add_file_def)

lemma header_from_to_pb [simp]: "header_from_pb (header_to_pb h) = h"
  by (simp add: header_from_pb_def header_to_pb_def Header_new_corr_def)

lemma peer_from_to_pb [simp]: "peer_from_pb (peer_to_pb p) = p"
  by (simp add: peer_from_pb_def peer_to_pb_def Peer_new_def)

lemma file_from_to_pb [simp]: "file_from_pb (file_to_pb f) = f"
  by (simp add: file_from_pb_def file_to_pb_def FileInfo_offset_def)

lemma chunk_from_to_pb:
  "chunk_wf c \<Longrightarrow> res_bind (chunk_to_pb c) chunk_from_pb = Inr c"
  by (simp add: chunk_to_pb_def chunk_from_pb_def chunk_wf_def Let_def)

lemma message_roundtrip_pb:
  assumes "message_wf m"
  shows "res_bind (message_to_pb m) message_from_pb = Inr m"
proof (cases "msg_file_chunk m")
  case None
  then show ?thesis
    by (simp add: message_to_pb_def message_from_pb_def Let_def fold_add_peer fold_add_file
        Message_empty_def comp_def)
next
  case (Some c)
  with assms have wf: "chunk_wf c" by (simp add: message_wf_def)
  then obtain c' where c': "chunk_to_pb c = Inr c'" and again: "chunk_from_pb c' = Inr c"
    using chunk_from_to_pb [OF wf] by (auto elim: res_bind_InrE)
  with Some show ?thesis
    by (simp add: message_to_pb_def message_from_pb_def Let_def fold_add_peer fold_add_file
        Message_empty_def comp_def)
qed

interpretation chunk_codec: codec chunk_wf chunk_to_pb chunk_from_pb
proof
  show "\<exists>y. chunk_to_pb c = Inr y" if "chunk_wf c" for c
    using chunk_from_to_pb [OF that] by (auto elim: res_bind_InrE)
  show "chunk_from_pb y = Inr c" if "chunk_wf c" "chunk_to_pb c = Inr y" for c y
    using chunk_from_to_pb [OF that(1)] that(2) by simp
qed

interpretation message_codec: codec message_wf message_to_pb message_from_pb
proof
  show "\<exists>y. message_to_pb m = Inr y" if "message_wf m" for m
    using message_roundtrip_pb [OF that] by (auto elim: res_bind_InrE)
  show "message_from_pb y = Inr m" if "message_wf m" "message_to_pb m = Inr y" for m y
    using message_roundtrip_pb [OF that(1)] that(2) by simp
qed

text \<open>C19. A well-formed message that is serialized and parsed again is the same message: every
  field of the header, the peers, the files with their sizes and offsets, the chunk and the
  data. Protobuf is only assumed to parse back what it serialized.\<close>

theorem converter_roundtrip:
  assumes "message_wf m"
    and "\<And>r. message_to_pb m = Inr r \<Longrightarrow> pb_parse (pb_ser r) = r"
  shows "res_bind (SerializedFromMessage pb_ser m) (MessageFromSerialized pb_parse) = Inr m"
proof -
  obtain r where "message_to_pb m = Inr r" using message_codec.enc_total [OF assms(1)] by blast
  with message_codec.dec_enc [OF assms(1) this] assms(2) show ?thesis
    by (simp add: SerializedFromMessage_def MessageFromSerialized_def)
qed

definition example_message :: Message where
  "example_message =
     \<lparr>msg_header = Header_new_corr False 7 0 ''get_file'' ''AB'' ''CD'' ''1.0.0'' [],
      msg_peers = [Peer_new ''AA'' ''10.0.0.1'' ''1337'', Peer_empty],
      msg_files = [FileInfo_offset ''a.txt'' ''00ff'' 3 1],
      msg_data = ''x'',
      msg_file_chunk = Some (FileChunk_new [1, 2, 3, 4] 3 1024)\<rparr>"

text \<open>The example is serialized to one byte and parsed back.\<close>

theorem converter_roundtrip_witness:
  "res_bind (SerializedFromMessage (\<lambda>_. [1]) example_message)
     (MessageFromSerialized (\<lambda>_. projr (message_to_pb example_message))) = Inr example_message"
  by (rule converter_roundtrip)
    (simp_all add: example_message_def message_wf_def chunk_wf_def FileChunk_new_def)


end
