(* ===== verification/Framing.thy ===== *)
theory Framing
  imports Prelude "HOL-Library.Sublist"
begin

section \<open>Framing: lengths, sessions and the byte stream\<close>

text \<open>
  \<open>boost_session.cpp\<close> and the framing part of \<open>consumer.hpp\<close>. A frame on a TCP connection is
  the length of the message as four bytes, the most significant first, and the message.

  A session is the record \<open>session\<close>: the buffers of the class, and in place of the socket what
  Boost.Asio does with it: the asynchronous operation in progress in each direction, the bytes
  that have gone out, those that have arrived and not been read, and the messages pushed onto the
  receive queue. A callback of Asio is a labelled step: an operation ends with success or with an
  error code, and bytes arrive in pieces of any size.
\<close>

subsection \<open>The length header\<close>

definition header_size :: nat where
  "header_size = 4"

definition header_bytes :: "u32 \<Rightarrow> byte list" where
  "header_bytes sz =
     [ucast (drop_bit 24 sz AND 0xFF), ucast (drop_bit 16 sz AND 0xFF),
      ucast (drop_bit 8 sz AND 0xFF), ucast (sz AND 0xFF)]"

definition encode_header :: "byte list \<Rightarrow> u32 \<Rightarrow> byte list res" where
  "encode_header buf sz =
     (if length buf < header_size then Inl AssertFailed
      else Inr (buf[0 := ucast (drop_bit 24 sz AND 0xFF),
                    1 := ucast (drop_bit 16 sz AND 0xFF),
                    2 := ucast (drop_bit 8 sz AND 0xFF),
                    3 := ucast (sz AND 0xFF)]))"

definition decode_header :: "byte list \<Rightarrow> u32" where
  "decode_header buf =
     (if length buf < header_size then 0
      else fold (\<lambda>b msg_size. msg_size * 256 + (ucast b AND 0xFF)) (take header_size buf) 0)"

text \<open>The dispatcher writes the header with a function of its own. What \<open>run_send_internal\<close> puts in
  front of the serialized message; the \<open>size_t\<close> size is passed as an \<open>unsigned\<close>.\<close>

definition dispatcher_encode_header :: "byte list \<Rightarrow> u32 \<Rightarrow> byte list res" where
  "dispatcher_encode_header buf sz =
     (if \<not> 4 \<le> length buf then Inl AssertFailed
      else let b1 = buf[0 := ucast (drop_bit 24 sz AND 0xFF)];
               b2 = b1[1 := ucast (drop_bit 16 sz AND 0xFF)];
               b3 = b2[2 := ucast (drop_bit 8 sz AND 0xFF)]
           in Inr (b3[3 := ucast (sz AND 0xFF)]))"

definition frame_message :: "byte list \<Rightarrow> byte list res" where
  "frame_message message_buf =
     res_bind (dispatcher_encode_header (resize 4 0 []) (of_nat (length message_buf)))
       (\<lambda>encoded_buf. Inr (encoded_buf @ message_buf))"

definition frame :: "byte list \<Rightarrow> byte list" where
  "frame m = header_bytes (of_nat (length m)) @ m"

lemma length_header_bytes [simp]: "length (header_bytes n) = 4"
  by (simp add: header_bytes_def)

lemma list_length_4E:
  assumes "length xs = 4"
  obtains a b c d where "xs = [a, b, c, d]"
  using assms by (auto simp: eval_nat_numeral length_Suc_conv)

text \<open>Both ends of a connection agree on the header.\<close>

lemma dispatcher_encode_header_eq: "dispatcher_encode_header = encode_header"
  by (intro ext) (auto simp: dispatcher_encode_header_def encode_header_def header_size_def)

lemma encode_header_exact: "length buf = 4 \<Longrightarrow> encode_header buf sz = Inr (header_bytes sz)"
  by (elim list_length_4E) (simp add: encode_header_def header_bytes_def header_size_def)

lemma frame_message_eq: "frame_message m = Inr (frame m)"
  by (simp add: frame_message_def frame_def dispatcher_encode_header_eq encode_header_exact)

lemma and_255_word32: "(x :: u32) AND 255 = take_bit 8 x"
  by (simp add: take_bit_eq_mask mask_eq_exp_minus_1)

lemma unat_byte_of: "unat (ucast (drop_bit n (s :: u32) AND 255) :: byte) = unat s div 2 ^ n mod 256"
proof -
  have "unat s < 2 ^ 32" using unsigned_less [of s] by simp
  then have "take_bit 32 (unat s) = unat s" by (simp add: take_bit_nat_eq_self)
  then have "unat (ucast (drop_bit n s AND 255) :: byte) = take_bit 8 (drop_bit n (unat s))"
    by (simp add: and_255_word32 unsigned_ucast_eq unsigned_take_bit_eq unsigned_drop_bit_eq)
  also have "\<dots> = unat s div 2 ^ n mod 256"
    by (simp only: take_bit_eq_mod drop_bit_eq_div) simp
  finally show ?thesis .
qed

lemma ucast_byte_and: "(ucast (b :: byte) :: u32) AND 255 = of_nat (unat b)"
proof -
  have "unat ((ucast b :: u32) AND 255) = unat b"
    using byte_less [of b]
    by (simp add: and_255_word32 unsigned_ucast_eq unsigned_take_bit_eq take_bit_nat_eq_self)
  then show ?thesis by (metis of_nat_unat ucast_id)
qed

lemma decode_header_4:
  "decode_header (a # b # c # d # rest) =
     of_nat (((unat a * 256 + unat b) * 256 + unat c) * 256 + unat d)"
proof -
  have t: "take header_size (a # b # c # d # rest) = [a, b, c, d]"
    by (simp add: header_size_def)
  show ?thesis
    unfolding decode_header_def t by (simp add: header_size_def ucast_byte_and algebra_simps)
qed

text \<open>Base 256.\<close>

definition be32 :: "nat \<Rightarrow> nat \<Rightarrow> nat \<Rightarrow> nat \<Rightarrow> nat" where
  "be32 a b c d = ((a * 256 + b) * 256 + c) * 256 + d"

lemma be32_digits:
  "be32 (n div 2 ^ 24) (n div 2 ^ 16 mod 256) (n div 2 ^ 8 mod 256) (n mod 256) = n"
proof -
  have step: "m div 256 * 256 + m mod 256 = m" for m :: nat by simp
  have d: "n div 2 ^ 16 = n div 256 div 256" "n div 2 ^ 24 = n div 256 div 256 div 256"
    "n div 2 ^ 8 = n div 256"
    by (simp_all flip: div_mult2_eq)
  show ?thesis by (simp only: be32_def d step)
qed

lemma digits_be32:
  assumes "b < 256" "c < 256" "d < 256"
  shows "be32 a b c d div 2 ^ 24 = a" "be32 a b c d div 2 ^ 16 = a * 256 + b"
    "be32 a b c d div 2 ^ 8 = (a * 256 + b) * 256 + c" "be32 a b c d mod 256 = d"
proof -
  have p: "(2 :: nat) ^ 16 = 256 * 256" "(2 :: nat) ^ 24 = 256 * 256 * 256" "(2 :: nat) ^ 8 = 256"
    by simp_all
  have q: "(x * 256 + y) div 256 = x" if "y < 256" for x y :: nat using that by simp
  show "be32 a b c d div 2 ^ 24 = a" "be32 a b c d div 2 ^ 16 = a * 256 + b"
    "be32 a b c d div 2 ^ 8 = (a * 256 + b) * 256 + c"
    using assms by (simp_all only: be32_def p div_mult2_eq q)
  show "be32 a b c d mod 256 = d"
    using assms by (simp only: be32_def mod_mult_self3 mod_less)
qed

lemma unat_header_bytes:
  "map unat (header_bytes s) =
     [unat s div 2 ^ 24, unat s div 2 ^ 16 mod 256, unat s div 2 ^ 8 mod 256, unat s mod 256]"
proof -
  have "unat s < 2 ^ 32" using unsigned_less [of s] by simp
  then have "unat s div 2 ^ 24 mod 256 = unat s div 2 ^ 24" by simp
  then show ?thesis
    using unat_byte_of [of 24 s] unat_byte_of [of 16 s] unat_byte_of [of 8 s] unat_byte_of [of 0 s]
    by (simp add: header_bytes_def)
qed

lemma decode_header_be32:
  "decode_header (a # b # c # d # rest) = of_nat (be32 (unat a) (unat b) (unat c) (unat d))"
  by (simp only: decode_header_4 be32_def)

lemma decode_header_bytes [simp]: "decode_header (header_bytes s @ rest) = s"
proof -
  obtain a b c d where h: "header_bytes s = [a, b, c, d]"
    by (rule list_length_4E [OF length_header_bytes])
  with unat_header_bytes [of s] have "be32 (unat a) (unat b) (unat c) (unat d) = unat s"
    by (simp only: h list.map list.inject be32_digits)
  then show ?thesis by (simp add: h decode_header_be32)
qed

lemma header_bytes_decode:
  assumes "length h = 4"
  shows "header_bytes (decode_header h) = h"
proof -
  from assms obtain a b c d where h: "h = [a, b, c, d]" by (rule list_length_4E)
  let ?n = "be32 (unat a) (unat b) (unat c) (unat d)"
  note lt = byte_less [of a] byte_less [of b] byte_less [of c] byte_less [of d]
  have "?n < 2 ^ 32" using lt by (simp add: be32_def)
  then have "unat (of_nat ?n :: u32) = ?n" by (simp add: unat_of_nat)
  then have "map unat (header_bytes (decode_header h)) = map unat h"
    by (simp only: h decode_header_be32 unat_header_bytes digits_be32 [OF lt(2-4)] list.map
        mod_mult_self3 mod_less lt)
  then show ?thesis by (rule map_injective) (simp add: inj_def word_unat_eq_iff)
qed

interpretation length_codec: codec "\<lambda>n. True" "encode_header [0, 0, 0, 0]" "\<lambda>h. Inr (decode_header h)"
  using decode_header_bytes [of _ "[]"] by unfold_locales (auto simp: encode_header_exact)

subsection \<open>The session\<close>

datatype ec = NoError | OperationAborted | OtherError

datatype read_op = ReadHeader | ReadBody nat

record session =
  ss_readbuf :: "byte list"
  ss_send_queue :: "byte list list"
  ss_open :: bool
  ss_writing :: "byte list option"
  ss_reading :: "read_op option"
  ss_wire :: "byte list"
  ss_inbox :: "byte list"
  ss_received :: "byte list list"

definition session_new :: session where
  "session_new =
     \<lparr>ss_readbuf = [], ss_send_queue = [], ss_open = True, ss_writing = None, ss_reading = None,
      ss_wire = [], ss_inbox = [], ss_received = []\<rparr>"

definition session_stop :: "session \<Rightarrow> session" where
  "session_stop s = s\<lparr>ss_open := False\<rparr>"

definition start_packet_send :: "session \<Rightarrow> session" where
  "start_packet_send s = s\<lparr>ss_writing := Some (hd (ss_send_queue s))\<rparr>"

definition queue_message :: "byte list \<Rightarrow> session \<Rightarrow> session" where
  "queue_message m s =
     (let write_in_progress = (ss_send_queue s \<noteq> []);
          s' = s\<lparr>ss_send_queue := ss_send_queue s @ [m]\<rparr>
      in if \<not> write_in_progress then start_packet_send s' else s')"

definition packet_send_done :: "ec \<Rightarrow> session \<Rightarrow> session" where
  "packet_send_done err s =
     (if err = NoError then
        let s' = s\<lparr>ss_send_queue := tl (ss_send_queue s)\<rparr> in
        if ss_send_queue s' \<noteq> [] then start_packet_send s' else s'
      else if err \<noteq> OperationAborted then session_stop s
      else s)"

definition do_read_header :: "session \<Rightarrow> session" where
  "do_read_header s =
     s\<lparr>ss_readbuf := resize header_size 0 (ss_readbuf s), ss_reading := Some ReadHeader\<rparr>"

definition do_read_message :: "u32 \<Rightarrow> session \<Rightarrow> session" where
  "do_read_message msg_len s =
     s\<lparr>ss_readbuf := resize (header_size + unat msg_len) 0 (ss_readbuf s),
       ss_reading := Some (ReadBody (unat msg_len))\<rparr>"

definition handle_read_header :: "ec \<Rightarrow> session \<Rightarrow> session" where
  "handle_read_header err s =
     (if err = NoError then do_read_message (decode_header (ss_readbuf s)) s
      else if err \<noteq> OperationAborted then session_stop s
      else s)"

definition handle_read_message :: "ec \<Rightarrow> session \<Rightarrow> session" where
  "handle_read_message err s =
     (if err = NoError then
        s\<lparr>ss_received := ss_received s @ [drop header_size (ss_readbuf s)]\<rparr>
      else do_read_header s)"

text \<open>
  The labelled steps. \<open>WriteFailed k e\<close> and \<open>ReadFailed k e\<close> are completions with an error after
  \<open>k\<close> bytes. \<open>read\<close> is called when no read is outstanding.
\<close>

datatype sess_event =
    Queue "byte list"
  | Written
  | WriteFailed nat ec
  | Arrived "byte list"
  | Read
  | ReadDone
  | ReadFailed nat ec

inductive session_step :: "session \<Rightarrow> sess_event \<Rightarrow> session \<Rightarrow> bool" where
  queue: "session_step s (Queue m) (queue_message m s)"
| written: "ss_writing s = Some b \<Longrightarrow>
    session_step s Written
      (packet_send_done NoError (s\<lparr>ss_wire := ss_wire s @ b, ss_writing := None\<rparr>))"
| write_failed: "ss_writing s = Some b \<Longrightarrow> e \<noteq> NoError \<Longrightarrow>
    session_step s (WriteFailed k e)
      (packet_send_done e (s\<lparr>ss_wire := ss_wire s @ take k b, ss_writing := None\<rparr>))"
| arrived: "session_step s (Arrived bs) (s\<lparr>ss_inbox := ss_inbox s @ bs\<rparr>)"
| read: "ss_reading s = None \<Longrightarrow> session_step s Read (do_read_header s)"
| header_read: "ss_reading s = Some ReadHeader \<Longrightarrow> header_size \<le> length (ss_inbox s) \<Longrightarrow>
    session_step s ReadDone
      (handle_read_header NoError
        (s\<lparr>ss_readbuf := take header_size (ss_inbox s), ss_inbox := drop header_size (ss_inbox s),
           ss_reading := None\<rparr>))"
| body_read: "ss_reading s = Some (ReadBody n) \<Longrightarrow> n \<le> length (ss_inbox s) \<Longrightarrow>
    session_step s ReadDone
      (handle_read_message NoError
        (s\<lparr>ss_readbuf := take header_size (ss_readbuf s) @ take n (ss_inbox s),
           ss_inbox := drop n (ss_inbox s), ss_reading := None\<rparr>))"
| header_failed: "ss_reading s = Some ReadHeader \<Longrightarrow> e \<noteq> NoError \<Longrightarrow>
    session_step s (ReadFailed k e)
      (handle_read_header e (s\<lparr>ss_inbox := drop k (ss_inbox s), ss_reading := None\<rparr>))"
| body_failed: "ss_reading s = Some (ReadBody n) \<Longrightarrow> e \<noteq> NoError \<Longrightarrow>
    session_step s (ReadFailed k e)
      (handle_read_message e (s\<lparr>ss_inbox := drop k (ss_inbox s), ss_reading := None\<rparr>))"

inductive session_run :: "session \<Rightarrow> sess_event list \<Rightarrow> session \<Rightarrow> bool" where
  none: "session_run s [] s"
| more: "session_run s es t \<Longrightarrow> session_step t e u \<Longrightarrow> session_run s (es @ [e]) u"

inductive_cases session_stepE: "session_step s e t"

fun queued_messages :: "sess_event list \<Rightarrow> byte list list" where
  "queued_messages [] = []"
| "queued_messages (Queue m # es) = m # queued_messages es"
| "queued_messages (_ # es) = queued_messages es"

fun arrived_bytes :: "sess_event list \<Rightarrow> byte list" where
  "arrived_bytes [] = []"
| "arrived_bytes (Arrived bs # es) = bs @ arrived_bytes es"
| "arrived_bytes (_ # es) = arrived_bytes es"

lemma queued_messages_append [simp]:
  "queued_messages (es @ fs) = queued_messages es @ queued_messages fs"
  by (induction es rule: queued_messages.induct) simp_all

lemma arrived_bytes_append [simp]: "arrived_bytes (es @ fs) = arrived_bytes es @ arrived_bytes fs"
  by (induction es rule: arrived_bytes.induct) simp_all

lemmas session_defs =
  queue_message_def start_packet_send_def packet_send_done_def session_stop_def
  do_read_header_def do_read_message_def handle_read_header_def handle_read_message_def

text \<open>The write side. Either the first queued buffer is being written, or nothing is queued, or
  a write has failed and none will start again.\<close>

definition write_inv :: "byte list list \<Rightarrow> session \<Rightarrow> bool" where
  "write_inv ms s \<longleftrightarrow>
     (case ss_writing s of
        Some b \<Rightarrow> (\<exists>q. ss_send_queue s = b # q) \<and> ss_wire s @ concat (ss_send_queue s) = concat ms
      | None \<Rightarrow> if ss_send_queue s = [] then ss_wire s = concat ms
                else prefix (ss_wire s) (concat ms))"

lemma prefix_wire_fail:
  "w @ b @ c = d \<Longrightarrow> prefix (w @ take k b) d"
  by (metis append.assoc append_take_drop_id prefixI)

lemma write_inv_queue: "write_inv ms s \<Longrightarrow> write_inv (ms @ [m]) (queue_message m s)"
  by (auto simp: write_inv_def session_defs Let_def split: option.splits if_splits)

lemma write_inv_frame:
  assumes "ss_writing t = ss_writing s" "ss_send_queue t = ss_send_queue s" "ss_wire t = ss_wire s"
  shows "write_inv ms t = write_inv ms s"
  unfolding write_inv_def assms ..

lemma read_step_frame:
  assumes "session_step s e t" "\<forall>m. e \<noteq> Queue m" "e \<noteq> Written" "\<forall>k x. e \<noteq> WriteFailed k x"
  shows "ss_writing t = ss_writing s" "ss_send_queue t = ss_send_queue s" "ss_wire t = ss_wire s"
  using assms by (auto elim!: session_stepE simp: session_defs)

lemma write_inv_step:
  assumes "session_step s e t" "write_inv ms s"
  shows "write_inv (ms @ queued_messages [e]) t"
  using assms
proof (cases rule: session_step.cases)
  case (queue m)
  then show ?thesis using write_inv_queue assms(2) by simp
next
  case (written b)
  with assms(2) obtain q where "ss_send_queue s = b # q" "ss_wire s @ b @ concat q = concat ms"
    by (auto simp: write_inv_def)
  with written show ?thesis
    by (cases q) (simp_all add: write_inv_def session_defs Let_def)
next
  case (write_failed b e k)
  with assms(2) obtain q where "ss_send_queue s = b # q" "ss_wire s @ b @ concat q = concat ms"
    by (auto simp: write_inv_def)
  with write_failed show ?thesis
    by (auto simp: write_inv_def session_defs prefix_wire_fail)
qed (use assms(2) write_inv_frame [OF read_step_frame [OF assms(1)]] in simp_all)

lemma write_inv_run: "session_run session_new es s \<Longrightarrow> write_inv (queued_messages es) s"
proof (induction session_new es s rule: session_run.induct)
  case none
  then show ?case by (simp add: write_inv_def session_new_def)
next
  case (more es t e u)
  then show ?case using write_inv_step by fastforce
qed

text \<open>The read side. The bytes that arrived are the frames of the messages received so far, the
  header of the message being read, and the bytes nobody has read.\<close>

definition partial_frame :: "session \<Rightarrow> byte list" where
  "partial_frame s =
     (case ss_reading s of Some (ReadBody n) \<Rightarrow> take header_size (ss_readbuf s) | _ \<Rightarrow> [])"

definition read_inv :: "byte list \<Rightarrow> session \<Rightarrow> bool" where
  "read_inv bytes s \<longleftrightarrow>
     bytes = concat (map frame (ss_received s)) @ partial_frame s @ ss_inbox s \<and>
     (\<forall>n. ss_reading s = Some (ReadBody n) \<longrightarrow>
        n < 2 ^ 32 \<and> take header_size (ss_readbuf s) = header_bytes (of_nat n)) \<and>
     (\<forall>m \<in> set (ss_received s). length m < 2 ^ 32)"

lemma header_bytes_inj:
  "header_bytes a = header_bytes b \<Longrightarrow> a = b"
  by (metis append_Nil2 decode_header_bytes)

lemma frame_prefix:
  assumes "length d < 2 ^ 32" "length m < 2 ^ 32" "prefix (frame d @ x) (frame m @ y)"
  shows "d = m \<and> prefix x y"
proof -
  from assms(3) obtain z where z: "frame m @ y = frame d @ x @ z" by (auto elim: prefixE)
  then have h: "header_bytes (of_nat (length m)) = header_bytes (of_nat (length d))"
    and r: "m @ y = d @ x @ z"
    by (simp_all add: frame_def append_eq_append_conv)
  have "unat (of_nat (length m) :: u32) = unat (of_nat (length d) :: u32)"
    by (simp only: header_bytes_inj [OF h])
  then have "length m = length d"
    using assms(1,2) by (simp add: unat_of_nat)
  with r show ?thesis by (auto intro: prefixI)
qed

lemma frames_prefix:
  "prefix (concat (map frame ds)) (concat (map frame ms)) \<Longrightarrow>
   \<forall>d \<in> set ds. length d < 2 ^ 32 \<Longrightarrow> \<forall>m \<in> set ms. length m < 2 ^ 32 \<Longrightarrow> prefix ds ms"
proof (induction ds arbitrary: ms)
  case Nil
  then show ?case by simp
next
  case (Cons d ds)
  show ?case
  proof (cases ms)
    case Nil
    with Cons.prems(1) show ?thesis by (simp add: frame_def header_bytes_def)
  next
    case (Cons m ms')
    with Cons.prems have "d = m \<and> prefix (concat (map frame ds)) (concat (map frame ms'))"
      by (intro frame_prefix) simp_all
    with Cons.IH Cons.prems Cons show ?thesis by simp
  qed
qed

lemma read_inv_frame:
  assumes "ss_reading t = ss_reading s" "ss_readbuf t = ss_readbuf s" "ss_received t = ss_received s"
  shows "partial_frame t = partial_frame s"
  unfolding partial_frame_def assms ..

lemma read_inv_write:
  assumes "read_inv bytes s" "ss_reading t = ss_reading s" "ss_readbuf t = ss_readbuf s"
    "ss_received t = ss_received s" "ss_inbox t = ss_inbox s @ x"
  shows "read_inv (bytes @ x) t"
  using assms(1) unfolding read_inv_def read_inv_frame [OF assms(2-4)] assms(2-5) by simp

lemma write_step_frame:
  assumes "session_step s e t" "e \<noteq> Read" "e \<noteq> ReadDone" "\<forall>k x. e \<noteq> ReadFailed k x"
  shows "ss_reading t = ss_reading s" "ss_readbuf t = ss_readbuf s" "ss_received t = ss_received s"
    "ss_inbox t = ss_inbox s @ arrived_bytes [e]"
  using assms by (auto elim!: session_stepE simp: session_defs Let_def)

lemma read_inv_step:
  assumes "session_step s e t" "read_inv bytes s" "\<forall>k x. e \<noteq> ReadFailed k x"
  shows "read_inv (bytes @ arrived_bytes [e]) t"
  using assms(1)
proof (cases rule: session_step.cases)
  case (header_read)
  let ?h = "take header_size (ss_inbox s)"
  have len: "length ?h = 4" using header_read by (simp add: header_size_def)
  have n: "header_bytes (of_nat (unat (decode_header ?h))) = ?h"
    using header_bytes_decode [OF len] by simp
  have "unat (decode_header ?h) < 2 ^ 32" using unsigned_less [of "decode_header ?h"] by simp
  moreover have "take header_size (resize (header_size + k) 0 ?h) = ?h" for k
    using len by (simp add: resize_def header_size_def)
  ultimately show ?thesis
    using header_read assms(2) n
    by (auto simp: read_inv_def partial_frame_def handle_read_header_def do_read_message_def)
next
  case (body_read n)
  then have "concat (map frame (ss_received s)) @ header_bytes (of_nat n) @ ss_inbox s = bytes"
    and nl: "n < 2 ^ 32" and lens: "\<forall>m \<in> set (ss_received s). length m < 2 ^ 32"
    and h: "take header_size (ss_readbuf s) = header_bytes (of_nat n)"
    using assms(2) by (auto simp: read_inv_def partial_frame_def)
  moreover have "frame (take n (ss_inbox s)) @ drop n (ss_inbox s) =
      header_bytes (of_nat n) @ ss_inbox s"
    using body_read by (simp add: frame_def min_absorb2)
  moreover have "drop header_size (take header_size (ss_readbuf s) @ take n (ss_inbox s)) =
      take n (ss_inbox s)"
    by (simp only: h) (simp add: header_size_def)
  ultimately show ?thesis
    using body_read
    by (simp add: read_inv_def partial_frame_def handle_read_message_def)
next
  case read
  then show ?thesis
    using assms(2) by (simp add: read_inv_def partial_frame_def do_read_header_def)
qed (use assms(3) read_inv_write [OF assms(2) write_step_frame [OF assms(1)]] in simp_all)

lemma read_inv_run:
  "session_run session_new es s \<Longrightarrow> \<forall>k x. ReadFailed k x \<notin> set es \<Longrightarrow> read_inv (arrived_bytes es) s"
proof (induction session_new es s rule: session_run.induct)
  case none
  then show ?case by (simp add: read_inv_def partial_frame_def session_new_def)
next
  case (more es t e u)
  then show ?case using read_inv_step [of t e u "arrived_bytes es"] by auto
qed

text \<open>A session that is stuck in a read has no further frame in its input.\<close>

lemma next_frame_complete:
  assumes inv: "read_inv bytes s" and "ss_reading s \<noteq> None" and stuck: "\<nexists>t. session_step s ReadDone t"
    and rest: "concat (map frame rest) = partial_frame s @ ss_inbox s"
    and lens: "\<forall>m \<in> set rest. length m < 2 ^ 32"
  shows "rest = []"
proof (rule ccontr)
  assume "rest \<noteq> []"
  then obtain m rest' where m: "rest = m # rest'" by (cases rest) auto
  from assms(2) obtain op where op: "ss_reading s = Some op" by blast
  show False
  proof (cases op)
    case ReadHeader
    with op rest m have "header_size \<le> length (ss_inbox s)"
      by (auto simp: partial_frame_def frame_def header_size_def dest: arg_cong [where f = length])
    with op ReadHeader stuck show False by (blast intro: header_read)
  next
    case (ReadBody n)
    with inv op have h: "partial_frame s = header_bytes (of_nat n)" and n: "n < 2 ^ 32"
      by (auto simp: read_inv_def partial_frame_def)
    from rest m h have hh: "header_bytes (of_nat (length m)) = header_bytes (of_nat n)"
      and body: "m @ concat (map frame rest') = ss_inbox s"
      by (simp_all add: frame_def append_eq_append_conv)
    have "unat (of_nat (length m) :: u32) = unat (of_nat n :: u32)"
      by (simp only: header_bytes_inj [OF hh])
    then have "n = length m" using n lens m by (simp add: unat_of_nat)
    with body have "n \<le> length (ss_inbox s)" by (metis le_add1 length_append)
    with op ReadBody stuck show False by (blast intro: body_read)
  qed
qed

lemma received_frames:
  assumes "session_run session_new es s" "\<forall>k x. ReadFailed k x \<notin> set es"
    and "\<forall>m \<in> set ms. length m < 2 ^ 32"
  shows "(prefix (arrived_bytes es) (concat (map frame ms)) \<longrightarrow> prefix (ss_received s) ms) \<and>
    (arrived_bytes es = concat (map frame ms) \<and> ss_reading s \<noteq> None \<and>
      (\<nexists>t. session_step s ReadDone t) \<longrightarrow> ss_received s = ms)"
proof -
  have inv: "read_inv (arrived_bytes es) s" using read_inv_run assms(1,2) by blast
  then have lens: "\<forall>m \<in> set (ss_received s). length m < 2 ^ 32" by (simp add: read_inv_def)
  have pre: "prefix (ss_received s) ms" if "prefix (arrived_bytes es) (concat (map frame ms))"
  proof (rule frames_prefix [OF _ lens assms(3)])
    have "prefix (concat (map frame (ss_received s))) (arrived_bytes es)"
      using inv by (auto simp: read_inv_def)
    then show "prefix (concat (map frame (ss_received s))) (concat (map frame ms))"
      using that by (rule prefix_order.trans)
  qed
  have "ss_received s = ms" if all: "arrived_bytes es = concat (map frame ms)"
    and r: "ss_reading s \<noteq> None" and stuck: "\<nexists>t. session_step s ReadDone t"
  proof -
    from pre all obtain rest where ms: "ms = ss_received s @ rest" by (auto elim: prefixE)
    with inv all have rest: "concat (map frame rest) = partial_frame s @ ss_inbox s"
      by (simp add: read_inv_def)
    have "rest = []"
      using next_frame_complete [OF inv r stuck rest] assms(3) ms by simp
    with ms show ?thesis by simp
  qed
  with pre show ?thesis by blast
qed

subsection \<open>Properties\<close>

text \<open>The length header is a bijection between the 32-bit lengths and the four-byte strings:
  decoding what was encoded gives the length back, and encoding what was decoded gives the same
  four bytes.\<close>

lemma header_roundtrip:
  "(length buf = 4 \<longrightarrow> res_bind (encode_header buf n) (\<lambda>h. Inr (decode_header h)) = Inr n) \<and>
   (length h = 4 \<longrightarrow> encode_header buf (decode_header h) = (if length buf < 4 then Inl AssertFailed
      else Inr (h @ drop 4 buf)))"
proof (intro conjI impI)
  assume "length buf = 4"
  then show "res_bind (encode_header buf n) (\<lambda>h. Inr (decode_header h)) = Inr n"
    using decode_header_bytes [of n "[]"] by (simp add: encode_header_exact)
next
  assume h: "length h = 4"
  show "encode_header buf (decode_header h) = (if length buf < 4 then Inl AssertFailed
      else Inr (h @ drop 4 buf))"
  proof (cases "length buf < 4")
    case True
    then show ?thesis by (simp add: encode_header_def header_size_def)
  next
    case False
    then have "length (take 4 buf) = 4" by simp
    then obtain a b c d where "take 4 buf = [a, b, c, d]" by (rule list_length_4E)
    then have "buf = [a, b, c, d] @ drop 4 buf" by (metis append_take_drop_id)
    then obtain rest where "buf = a # b # c # d # rest" by simp
    then show ?thesis
      using header_bytes_decode [OF h]
      by (simp add: encode_header_def header_size_def header_bytes_def)
  qed
qed

theorem header_roundtrip_witness:
  "encode_header [9, 9, 9, 9, 7] (decode_header [0, 1, 2, 3]) = Inr [0, 1, 2, 3, 7]"
  using header_roundtrip [of "[9, 9, 9, 9, 7]" 0 "[0, 1, 2, 3]"] by simp



text \<open>C10. However TCP cuts the stream, a session whose peer sends the frames of \<open>ms\<close> pushes
  messages of \<open>ms\<close> only, in order and each once; and when it is reading and cannot go on with the
  bytes it has, although all of them have arrived, it has pushed all of \<open>ms\<close>.\<close>

theorem session_receives_frames:
  assumes "session_run session_new es s" "\<forall>k x. ReadFailed k x \<notin> set es"
    and "\<forall>m \<in> set ms. length m < 2 ^ 32"
  shows "(prefix (arrived_bytes es) (concat (map frame ms)) \<longrightarrow> prefix (ss_received s) ms) \<and>
    (arrived_bytes es = concat (map frame ms) \<and> ss_reading s \<noteq> None \<and>
      (\<nexists>t. session_step s ReadDone t) \<longrightarrow> ss_received s = ms)"
  using assms by (rule received_frames)

text \<open>One frame that arrives in two pieces.\<close>

theorem session_receives_frames_witness:
  "\<exists>s. session_run session_new ([] @ [Read] @ [Arrived [0, 0, 0]] @ [Arrived [2, 7, 8]] @ [ReadDone] @ [ReadDone]) s \<and>
     prefix (ss_received s) [[7, 8]] \<and> ss_received s \<noteq> []"
proof -
  define s1 where "s1 = do_read_header session_new"
  define s2 where "s2 = s1\<lparr>ss_inbox := ss_inbox s1 @ [0, 0, 0]\<rparr>"
  define s3 where "s3 = s2\<lparr>ss_inbox := ss_inbox s2 @ [2, 7, 8]\<rparr>"
  define s4 where "s4 = handle_read_header NoError
    (s3\<lparr>ss_readbuf := take header_size (ss_inbox s3), ss_inbox := drop header_size (ss_inbox s3),
        ss_reading := None\<rparr>)"
  define s5 where "s5 = handle_read_message NoError
    (s4\<lparr>ss_readbuf := take header_size (ss_readbuf s4) @ take 2 (ss_inbox s4),
        ss_inbox := drop 2 (ss_inbox s4), ss_reading := None\<rparr>)"
  note ds = s1_def s2_def s3_def s4_def session_new_def session_defs header_size_def
  have d: "decode_header [0, 0, 0, 2] = 2" by (simp add: decode_header_4)
  have "session_step session_new Read s1"
    unfolding s1_def by (rule session_step.read) (simp add: session_new_def)
  moreover have "session_step s1 (Arrived [0, 0, 0]) s2" "session_step s2 (Arrived [2, 7, 8]) s3"
    unfolding s2_def s3_def by (rule session_step.arrived)+
  moreover have "session_step s3 ReadDone s4"
    unfolding s4_def by (rule session_step.header_read) (simp_all add: ds)
  moreover have "session_step s4 ReadDone s5"
    unfolding s5_def by (rule session_step.body_read) (simp_all add: ds d)
  ultimately have "session_run session_new ((((([] @ [Read]) @ [Arrived [0, 0, 0]]) @
      [Arrived [2, 7, 8]]) @ [ReadDone]) @ [ReadDone]) s5"
    by (blast intro: session_run.intros)
  then have run: "session_run session_new ([] @ [Read] @ [Arrived [0, 0, 0]] @ [Arrived [2, 7, 8]] @
      [ReadDone] @ [ReadDone]) s5" by simp
  have "frame [7, 8] = [0, 0, 0, 2, 7, 8]"
    by (simp add: frame_def header_bytes_def)
  with session_receives_frames [OF run, of "[[7, 8]]"] have "prefix (ss_received s5) [[7, 8]]"
    by simp
  moreover have "ss_received s5 \<noteq> []" by (simp add: s5_def ds d)
  ultimately show ?thesis using run by blast
qed

end
