(* ===== verification/Storage.thy ===== *)
theory Storage
  imports Messages
begin

section \<open>The file storage\<close>

text \<open>
  \<open>storage.hpp\<close> and \<open>storage.cpp\<close>: the shared files of a node, the files it is receiving, the
  SQLite table \<open>file_transfer\<close> that lets a broken transfer resume, and the output stream of a
  file being received.

  The world outside is part of the state: \<open>st_fs\<close> is the file system (the content of every
  path that exists), \<open>st_can_open\<close> says which paths the operating system lets the process
  open, \<open>st_db\<close> is the table, whose \<open>file_name\<close> column is unique. A \<open>blocked_files_\<close> entry
  holds a name and its write token, a shared flag that the stream's destructor clears; the
  token's identity is a number. \<open>digest\<close> is SHA-256.
\<close>

record file_row =
  row_sha256sum :: string
  row_file_size :: u64
  row_bytes_written :: u64

record OfstreamWrapper =
  ow_path :: string
  ow_good :: bool
  ow_pos :: nat
  ow_file_info :: FileInfo
  ow_token :: "nat option"

record StaticStorage =
  st_path :: string
  st_files :: "FileInfo list"
  st_blocked :: "(string \<times> nat \<times> bool) list"
  st_next_token :: nat
  st_db :: "string \<Rightarrow> file_row option"
  st_fs :: "string \<Rightarrow> byte list option"
  st_can_open :: "string \<Rightarrow> bool"

subsection \<open>Queries\<close>

definition exists_internal :: "string \<Rightarrow> StaticStorage \<Rightarrow> bool" where
  "exists_internal i st = list_ex (\<lambda>f. file_name f = i) (st_files st)"

definition is_blocked_internal :: "string \<Rightarrow> StaticStorage \<Rightarrow> bool" where
  "is_blocked_internal i st = list_ex (\<lambda>(n, tok, b). n = i \<and> b = True) (st_blocked st)"

definition is_blocked :: "string \<Rightarrow> StaticStorage \<Rightarrow> bool" where
  "is_blocked i st = is_blocked_internal i st"

definition file_exists :: "string \<Rightarrow> StaticStorage \<Rightarrow> bool" where
  "file_exists i st = exists_internal i st"

definition file_info_exists :: "FileInfo \<Rightarrow> StaticStorage \<Rightarrow> bool" where
  "file_info_exists f st = exists_internal (file_name f) st"

definition get_files :: "StaticStorage \<Rightarrow> FileInfo list" where
  "get_files st = st_files st"

text \<open>Opening a file for reading: it must exist, and the system must allow it.\<close>

definition open_read :: "string \<Rightarrow> StaticStorage \<Rightarrow> byte list option" where
  "open_read p st = (if st_can_open st p then st_fs st p else None)"

subsection \<open>Adding and reading files\<close>

definition storage_add_file ::
  "(byte list \<Rightarrow> byte list) \<Rightarrow> string \<Rightarrow> StaticStorage \<Rightarrow> bool \<times> StaticStorage" where
  "storage_add_file digest name st =
     (case open_read (st_path st @ name) st of
        None \<Rightarrow> (False, st)
      | Some content \<Rightarrow>
          (True, st\<lparr>st_files := st_files st @
             [FileInfo_sum name (sha256_from_file digest content) (of_nat (length content))]\<rparr>))"

text \<open>The constructor's scan of the storage directory; \<open>entries\<close> is what
  \<open>directory_iterator\<close> lists.\<close>

fun sync_files ::
  "(byte list \<Rightarrow> byte list) \<Rightarrow> string list \<Rightarrow> StaticStorage \<Rightarrow> StaticStorage" where
  "sync_files digest [] st = st"
| "sync_files digest (name # entries) st =
     (if name = ''db.sqlite'' \<or> name = ''db.sqlite-journal'' then sync_files digest entries st
      else if st_db st name \<noteq> None then sync_files digest entries st
      else sync_files digest entries (snd (storage_add_file digest name st)))"

definition storage_path_of :: "string \<Rightarrow> string" where
  "storage_path_of i = ''/tmp/peerpaste/'' @ i @ ''/''"

text \<open>\<open>create table if not exists\<close> keeps the rows of an earlier run.\<close>

definition StaticStorage_new ::
  "(byte list \<Rightarrow> byte list) \<Rightarrow> string \<Rightarrow> (string \<Rightarrow> file_row option) \<Rightarrow>
   (string \<Rightarrow> byte list option) \<Rightarrow> (string \<Rightarrow> bool) \<Rightarrow> string list \<Rightarrow> StaticStorage" where
  "StaticStorage_new digest i db fs can entries =
     sync_files digest entries
       \<lparr>st_path = storage_path_of i, st_files = [], st_blocked = [], st_next_token = 0,
        st_db = db, st_fs = fs, st_can_open = can\<rparr>"

text \<open>The stream that \<open>read_file\<close> opens at the end (\<open>ate\<close>) is returned as the content.\<close>

definition read_file :: "FileInfo \<Rightarrow> StaticStorage \<Rightarrow> byte list option" where
  "read_file f st =
     (if \<not> file_exists (file_name f) st then None
      else open_read (st_path st @ file_name f) st)"

subsection \<open>Receiving a file\<close>

text \<open>\<open>write\<close> at a position of the file: a gap is filled with zeros, and writing nothing
  changes nothing.\<close>

definition write_at :: "nat \<Rightarrow> byte list \<Rightarrow> byte list \<Rightarrow> byte list" where
  "write_at pos d c =
     (if d = [] then c else resize pos 0 c @ d @ drop (pos + length d) c)"

text \<open>\<open>seekp\<close> takes a signed offset; a negative one puts the stream into the failed state.\<close>

definition seekp :: "u64 \<Rightarrow> OfstreamWrapper \<Rightarrow> OfstreamWrapper" where
  "seekp off ow =
     (if ow_good ow \<and> 0 \<le> sint off then ow\<lparr>ow_pos := unat off\<rparr> else ow\<lparr>ow_good := False\<rparr>)"

definition ow_write_at ::
  "byte list \<Rightarrow> u64 \<Rightarrow> OfstreamWrapper \<Rightarrow> StaticStorage \<Rightarrow> OfstreamWrapper \<times> StaticStorage" where
  "ow_write_at s off ow st =
     (let ow1 = seekp off ow;
          st1 = (if ow_good ow1 then
                   st\<lparr>st_fs := (st_fs st)(ow_path ow1 \<mapsto>
                      write_at (ow_pos ow1) s (case st_fs st (ow_path ow1) of None \<Rightarrow> [] | Some c \<Rightarrow> c))\<rparr>
                 else st);
          ow2 = (if ow_good ow1 then ow1\<lparr>ow_pos := ow_pos ow1 + length s\<rparr> else ow1);
          name = file_name (ow_file_info ow)
      in (ow2,
          case st_db st1 name of
            None \<Rightarrow> st1
          | Some row \<Rightarrow> st1\<lparr>st_db := (st_db st1)(name \<mapsto> row\<lparr>row_bytes_written := off\<rparr>)\<rparr>))"

text \<open>\<open>write(chunk)\<close> writes \<open>chunk.size\<close> bytes from the chunk's buffer.\<close>

definition ow_write ::
  "FileChunk \<Rightarrow> OfstreamWrapper \<Rightarrow> StaticStorage \<Rightarrow> (OfstreamWrapper \<times> StaticStorage) res" where
  "ow_write c ow st =
     (if unat (chunk_size c) > length (chunk_data c) then Inl ReadPastEnd
      else Inr (ow_write_at (take (unat (chunk_size c)) (chunk_data c)) (chunk_offset c) ow st))"

definition tellp :: "OfstreamWrapper \<Rightarrow> int" where
  "tellp ow = (if ow_good ow then int (ow_pos ow) else - 1)"

text \<open>The destructor clears the token, if the entry that owns it is still there.\<close>

definition ow_destroy :: "OfstreamWrapper \<Rightarrow> StaticStorage \<Rightarrow> StaticStorage" where
  "ow_destroy ow st =
     st\<lparr>st_blocked :=
          map (\<lambda>(n, tok, b). (n, tok, if ow_token ow = Some tok then False else b)) (st_blocked st)\<rparr>"

definition create_file ::
  "FileInfo \<Rightarrow> StaticStorage \<Rightarrow> (OfstreamWrapper option \<times> FileInfo) \<times> StaticStorage" where
  "create_file fi st =
     (let name = file_name fi; p = st_path st @ name in
      if exists_internal name st \<or> is_blocked_internal name st then ((None, fi), st)
      else
        let row = st_db st name;
            fi' = (case row of None \<Rightarrow> fi | Some r \<Rightarrow> fi\<lparr>file_offset := row_bytes_written r\<rparr>);
            opened = st_can_open st p \<and> (row \<noteq> None \<longrightarrow> st_fs st p \<noteq> None)
        in if \<not> opened then ((None, fi'), st)
           else
             let fs = (if row = None then (st_fs st)(p \<mapsto> []) else st_fs st);
                 tok = st_next_token st;
                 ow = seekp (file_offset fi')
                        \<lparr>ow_path = p, ow_good = True, ow_pos = 0, ow_file_info = fi',
                         ow_token = Some tok\<rparr>;
                 db = (if row = None then
                         (st_db st)(name \<mapsto>
                           \<lparr>row_sha256sum = sha256sum fi', row_file_size = file_size fi',
                            row_bytes_written = file_offset fi'\<rparr>)
                       else st_db st)
             in ((Some ow, fi'),
                 st\<lparr>st_fs := fs, st_db := db, st_next_token := Suc tok,
                    st_blocked := st_blocked st @ [(name, tok, True)]\<rparr>))"

definition finalize_file ::
  "(byte list \<Rightarrow> byte list) \<Rightarrow> FileInfo \<Rightarrow> StaticStorage \<Rightarrow> bool \<times> StaticStorage" where
  "finalize_file digest fi st =
     (let name = file_name fi in
      if exists_internal name st then (False, st)
      else if \<not> is_blocked_internal name st then (False, st)
      else
        let content = (case open_read (st_path st @ name) st of None \<Rightarrow> [] | Some c \<Rightarrow> c);
            s = sha256_from_file digest content
        in if s \<noteq> sha256sum fi then (False, st)
           else
             (True, st\<lparr>st_blocked := filter (\<lambda>(n, tok, b). n \<noteq> name) (st_blocked st),
                       st_files := st_files st @ [FileInfo_sum name s (of_nat (length content))],
                       st_db := (st_db st)(name := None)\<rparr>))"

subsection \<open>The old interface\<close>

definition storage_put :: "string \<Rightarrow> byte list \<Rightarrow> StaticStorage \<Rightarrow> StaticStorage" where
  "storage_put i d st =
     (let p = st_path st @ i in
      if st_can_open st p then st\<lparr>st_fs := (st_fs st)(p \<mapsto> d)\<rparr> else st)"

definition storage_get :: "string \<Rightarrow> StaticStorage \<Rightarrow> byte list res" where
  "storage_get i st =
     (case open_read (st_path st @ i) st of None \<Rightarrow> Inl AssertFailed | Some c \<Rightarrow> Inr c)"

text \<open>\<open>exists\<close> compares the names of the shared files, and is asked for the full path.\<close>

definition storage_remove :: "string \<Rightarrow> StaticStorage \<Rightarrow> StaticStorage" where
  "storage_remove i st =
     (if file_exists (st_path st @ i) st then st\<lparr>st_fs := (st_fs st)(st_path st @ i := None)\<rparr>
      else st)"

subsection \<open>The invariant\<close>

text \<open>
  Names are listed once; a name has at most one writer whose token is set; a name with a writer
  is not listed yet and has a row in the table; a listed file has no row. The token of a new
  stream is fresh.
\<close>

definition active_writers :: "StaticStorage \<Rightarrow> string list" where
  "active_writers st = map fst (filter (\<lambda>(n, tok, b). b) (st_blocked st))"

definition storage_inv :: "StaticStorage \<Rightarrow> bool" where
  "storage_inv st \<longleftrightarrow>
     distinct (map file_name (st_files st)) \<and>
     distinct (active_writers st) \<and>
     (\<forall>e \<in> set (st_blocked st). fst (snd e) < st_next_token st) \<and>
     (\<forall>n \<in> set (active_writers st). \<not> exists_internal n st \<and> st_db st n \<noteq> None) \<and>
     (\<forall>f \<in> set (st_files st). st_db st (file_name f) = None)"

lemma is_blocked_iff: "is_blocked_internal i st \<longleftrightarrow> i \<in> set (active_writers st)"
  by (auto simp: is_blocked_internal_def active_writers_def list_ex_iff image_iff)

lemma exists_iff: "exists_internal i st \<longleftrightarrow> i \<in> file_name ` set (st_files st)"
  by (auto simp: exists_internal_def list_ex_iff)

lemma seekp_frame [simp]:
  "ow_path (seekp off ow) = ow_path ow" "ow_file_info (seekp off ow) = ow_file_info ow"
  "ow_token (seekp off ow) = ow_token ow"
  by (simp_all add: seekp_def)

lemma ow_write_at_frame [simp]:
  "st_path (snd (ow_write_at s off ow st)) = st_path st"
  "st_files (snd (ow_write_at s off ow st)) = st_files st"
  "st_blocked (snd (ow_write_at s off ow st)) = st_blocked st"
  "st_next_token (snd (ow_write_at s off ow st)) = st_next_token st"
  "st_can_open (snd (ow_write_at s off ow st)) = st_can_open st"
  "ow_path (fst (ow_write_at s off ow st)) = ow_path ow"
  "ow_file_info (fst (ow_write_at s off ow st)) = ow_file_info ow"
  "ow_token (fst (ow_write_at s off ow st)) = ow_token ow"
  by (simp_all add: ow_write_at_def Let_def split: option.split)

lemma ow_write_at_db: "st_db (snd (ow_write_at s off ow st)) n = None \<longleftrightarrow> st_db st n = None"
  by (auto simp: ow_write_at_def Let_def split: option.split)

lemma storage_inv_write:
  "storage_inv st \<Longrightarrow> storage_inv (snd (ow_write_at s off ow st))"
  by (simp add: storage_inv_def active_writers_def exists_internal_def ow_write_at_db)

lemma ow_write_inv: "ow_write c ow st = Inr (ow', st') \<Longrightarrow> storage_inv st \<Longrightarrow> storage_inv st'"
  using storage_inv_write [of st "take (unat (chunk_size c)) (chunk_data c)" "chunk_offset c" ow]
  by (auto simp: ow_write_def split: if_splits)

text \<open>Clearing a token removes its name from the active writers and adds none.\<close>

lemma active_writers_destroy:
  "active_writers (ow_destroy ow st) =
     map fst (filter (\<lambda>(n, tok, b). ow_token ow \<noteq> Some tok)
       (filter (\<lambda>(n, tok, b). b) (st_blocked st)))"
proof -
  have "map fst (filter (\<lambda>(n, tok, b). b)
      (map (\<lambda>(n, tok, b). (n, tok, if ow_token ow = Some tok then False else b)) es)) =
    map fst (filter (\<lambda>(n, tok, b). ow_token ow \<noteq> Some tok) (filter (\<lambda>(n, tok, b). b) es))"
    for es :: "(string \<times> nat \<times> bool) list"
    by (induction es) auto
  then show ?thesis by (simp add: active_writers_def ow_destroy_def)
qed

lemma active_writers_destroy_subset:
  "set (active_writers (ow_destroy ow st)) \<subseteq> set (active_writers st)"
  unfolding active_writers_destroy by (auto simp: active_writers_def)

lemma distinct_active_destroy:
  "distinct (active_writers st) \<Longrightarrow> distinct (active_writers (ow_destroy ow st))"
  unfolding active_writers_destroy by (rule distinct_map_filter) (simp add: active_writers_def)

lemma storage_inv_destroy: "storage_inv st \<Longrightarrow> storage_inv (ow_destroy ow st)"
  using active_writers_destroy_subset [of ow st] distinct_active_destroy [of st ow]
  by (fastforce simp: storage_inv_def exists_internal_def ow_destroy_def)

lemma active_writers_append [simp]:
  "active_writers (st\<lparr>st_blocked := bs @ [(n, t, True)]\<rparr>) = active_writers (st\<lparr>st_blocked := bs\<rparr>) @ [n]"
  by (simp add: active_writers_def)

text \<open>The outcomes of \<open>create_file\<close>.\<close>

lemma create_file_cases [consumes 1, case_names refused opened]:
  assumes "create_file fi st = ((out, fi'), st')"
  obtains "out = None" "st' = st"
  | ow fs db where "out = Some ow" "\<not> exists_internal (file_name fi) st"
      "file_name fi \<notin> set (active_writers st)"
      "fi' = (case st_db st (file_name fi) of None \<Rightarrow> fi
              | Some r \<Rightarrow> fi\<lparr>file_offset := row_bytes_written r\<rparr>)"
      "st' = st\<lparr>st_fs := fs, st_db := db, st_next_token := Suc (st_next_token st),
                st_blocked := st_blocked st @ [(file_name fi, st_next_token st, True)]\<rparr>"
      "ow_token ow = Some (st_next_token st)" "ow_path ow = st_path st @ file_name fi"
      "ow_file_info ow = fi'"
      "db (file_name fi) \<noteq> None" "\<forall>n. n \<noteq> file_name fi \<longrightarrow> db n = st_db st n"
      "\<forall>p. p \<noteq> st_path st @ file_name fi \<longrightarrow> fs p = st_fs st p"
proof (cases out)
  case None
  then show ?thesis using assms that(1)
    by (auto simp: create_file_def Let_def split: if_splits)
next
  case (Some ow)
  with assms show ?thesis
    by (intro that(2) [where ow = ow and fs = "st_fs st'" and db = "st_db st'"])
      (auto simp: create_file_def Let_def is_blocked_iff split: if_splits option.splits)
qed

lemma storage_inv_create:
  assumes "create_file fi st = ((out, fi'), st')" and inv: "storage_inv st"
  shows "storage_inv st'"
  using assms(1)
proof (cases rule: create_file_cases)
  case refused
  then show ?thesis using inv by simp
next
  case (opened ow fs db)
  have w: "active_writers st' = active_writers st @ [file_name fi]"
    and e: "exists_internal n st' = exists_internal n st" for n
    by (simp_all add: opened active_writers_def exists_internal_def)
  have "db n \<noteq> None" if "n \<in> set (active_writers st)" for n
    using that inv opened(9,10) by (cases "n = file_name fi") (auto simp: storage_inv_def)
  moreover have "db (file_name f) = None" if "f \<in> set (st_files st)" for f
    using that inv opened(2,10) unfolding storage_inv_def exists_iff by (metis imageI)
  ultimately show ?thesis
    using inv opened(2,3,9) unfolding storage_inv_def w e
    by (auto simp: opened(5) exists_iff less_Suc_eq)
qed

text \<open>The outcomes of \<open>finalize_file\<close>.\<close>

definition file_sum :: "(byte list \<Rightarrow> byte list) \<Rightarrow> string \<Rightarrow> StaticStorage \<Rightarrow> string" where
  "file_sum digest n st =
     sha256_from_file digest (case open_read (st_path st @ n) st of None \<Rightarrow> [] | Some c \<Rightarrow> c)"

lemma finalize_file_eq:
  "finalize_file digest fi st =
     (let name = file_name fi in
      if exists_internal name st \<or> name \<notin> set (active_writers st) \<or>
         file_sum digest name st \<noteq> sha256sum fi then (False, st)
      else (True, st\<lparr>st_blocked := filter (\<lambda>(n, tok, b). n \<noteq> name) (st_blocked st),
             st_files := st_files st @ [FileInfo_sum name (sha256sum fi) (of_nat (length
                (case open_read (st_path st @ name) st of None \<Rightarrow> [] | Some c \<Rightarrow> c)))],
             st_db := (st_db st)(name := None)\<rparr>))"
  by (auto simp: finalize_file_def file_sum_def is_blocked_iff Let_def)

lemma FileInfo_sum_name [simp]: "file_name (FileInfo_sum n s z) = n"
  by (simp add: FileInfo_sum_def)

lemma storage_inv_finalize:
  assumes inv: "storage_inv st"
  shows "storage_inv (snd (finalize_file digest fi st))"
proof (cases "fst (finalize_file digest fi st)")
  case False
  then show ?thesis using inv by (auto simp: finalize_file_eq Let_def split: if_splits)
next
  case True
  let ?n = "file_name fi" and ?st = "snd (finalize_file digest fi st)"
  have n: "\<not> exists_internal ?n st"
    using True by (auto simp: finalize_file_eq Let_def split: if_splits)
  have w: "active_writers ?st = filter (\<lambda>m. m \<noteq> ?n) (active_writers st)"
    using True
    by (auto simp: finalize_file_eq Let_def active_writers_def filter_map o_def split_def
        conj_commute split: if_splits)
  have fields: "map file_name (st_files ?st) = map file_name (st_files st) @ [?n]"
    "set (st_blocked ?st) \<subseteq> set (st_blocked st)" "st_next_token ?st = st_next_token st"
    "st_db ?st = (st_db st)(?n := None)"
    using True by (auto simp: finalize_file_eq Let_def split: if_splits)
  have names: "file_name ` set (st_files ?st) = insert ?n (file_name ` set (st_files st))"
    using fields(1) by (metis Un_insert_right list.set_map list.simps(15) set_append sup_bot_right list.set(1))
  have ex: "exists_internal m ?st \<longleftrightarrow> m = ?n \<or> exists_internal m st" for m
    by (simp add: exists_iff names)
  have rows: "\<forall>m \<in> file_name ` set (st_files ?st). st_db ?st m = None"
    using inv by (auto simp: names fields(4) storage_inv_def)
  show ?thesis
    using inv n rows fields(2) unfolding storage_inv_def fields(1,3) w ex
    by (auto simp: exists_iff fields(4))
qed

subsection \<open>Runs of the storage\<close>

text \<open>A storage opened on a directory and a table, and then used by the message objects. Streams
  are handed out by \<open>create_file\<close>; a write or a destruction may come through any stream.\<close>

inductive storage_reachable :: "(byte list \<Rightarrow> byte list) \<Rightarrow> StaticStorage \<Rightarrow> bool"
  for digest where
  opened: "distinct entries \<Longrightarrow> storage_reachable digest (StaticStorage_new digest i db fs can entries)"
| created: "storage_reachable digest st \<Longrightarrow> create_file fi st = (r, st') \<Longrightarrow>
    storage_reachable digest st'"
| written: "storage_reachable digest st \<Longrightarrow> ow_write c ow st = Inr (ow', st') \<Longrightarrow>
    storage_reachable digest st'"
| destroyed: "storage_reachable digest st \<Longrightarrow> storage_reachable digest (ow_destroy ow st)"
| finalized: "storage_reachable digest st \<Longrightarrow> finalize_file digest fi st = (b, st') \<Longrightarrow>
    storage_reachable digest st'"

lemma storage_add_file_frame:
  "st_blocked (snd (storage_add_file digest n st)) = st_blocked st"
  "st_next_token (snd (storage_add_file digest n st)) = st_next_token st"
  "st_db (snd (storage_add_file digest n st)) = st_db st"
  "map file_name (st_files (snd (storage_add_file digest n st))) =
     map file_name (st_files st) @
       (if open_read (st_path st @ n) st = None then [] else [n])"
  by (simp_all add: storage_add_file_def split: option.split)

lemma sync_files_inv:
  "storage_inv st \<Longrightarrow> st_blocked st = [] \<Longrightarrow> distinct entries \<Longrightarrow>
     set entries \<inter> file_name ` set (st_files st) = {} \<Longrightarrow> storage_inv (sync_files digest entries st)"
proof (induction digest entries st rule: sync_files.induct)
  case (1 digest st)
  then show ?case by simp
next
  case (2 digest name entries st)
  let ?st = "snd (storage_add_file digest name st)"
  show ?case
  proof (cases "(name = ''db.sqlite'' \<or> name = ''db.sqlite-journal'') \<or> st_db st name \<noteq> None")
    case True
    with 2 show ?thesis by auto
  next
    case False
    have names: "file_name ` set (st_files ?st) \<subseteq> insert name (file_name ` set (st_files st))"
      using arg_cong [OF storage_add_file_frame(4) [of digest name st], of set] by auto
    have d: "distinct (map file_name (st_files ?st))"
      using "2.prems" by (simp add: storage_add_file_frame storage_inv_def)
    have rows: "\<forall>f \<in> set (st_files ?st). st_db ?st (file_name f) = None"
    proof
      fix f assume "f \<in> set (st_files ?st)"
      with names have "file_name f = name \<or> file_name f \<in> file_name ` set (st_files st)"
        by blast
      with "2.prems"(1) False show "st_db ?st (file_name f) = None"
        by (auto simp: storage_add_file_frame storage_inv_def)
    qed
    have inv: "storage_inv ?st" and b: "st_blocked ?st = []"
      using "2.prems" d rows
      by (simp_all add: storage_inv_def storage_add_file_frame active_writers_def)
    have "set entries \<inter> file_name ` set (st_files ?st) = {}"
      using "2.prems"(3,4) names by auto
    with "2.IH"(3) inv b "2.prems"(3) False show ?thesis by simp
  qed
qed

lemma reachable_inv: "storage_reachable digest st \<Longrightarrow> storage_inv st"
proof (induction rule: storage_reachable.induct)
  case (opened entries i db fs can)
  then show ?case
    unfolding StaticStorage_new_def
    by (intro sync_files_inv) (simp_all add: storage_inv_def active_writers_def)
next
  case (created st fi r st')
  then show ?case by (cases r) (auto intro: storage_inv_create)
next
  case (written st c ow ow' st')
  then show ?case by (auto intro: ow_write_inv)
next
  case (destroyed st ow)
  then show ?case by (auto intro: storage_inv_destroy)
next
  case (finalized st fi b st')
  then show ?case using storage_inv_finalize [of st digest fi] by simp
qed

lemma distinct_fst_unique:
  "distinct (map fst (filter (\<lambda>(n, tok, b). b) es)) \<Longrightarrow>
     (n, tok, True) \<in> set es \<Longrightarrow> (n, tok', True) \<in> set es \<Longrightarrow> tok = tok'"
  by (induction es) (fastforce simp: image_iff split: if_splits)+

text \<open>Clearing the token of the only writer frees the name.\<close>

lemma destroy_frees:
  assumes "storage_inv st" "ow_token ow = Some tok" "(n, tok, True) \<in> set (st_blocked st)"
  shows "\<not> is_blocked_internal n (ow_destroy ow st)"
proof
  assume "is_blocked_internal n (ow_destroy ow st)"
  then obtain tok' where "(n, tok', True) \<in> set (st_blocked st)" "tok' \<noteq> tok"
    using assms(2) by (auto simp: is_blocked_iff active_writers_destroy)
  moreover from assms(1) have "distinct (map fst (filter (\<lambda>(n, tok, b). b) (st_blocked st)))"
    by (simp add: storage_inv_def active_writers_def)
  ultimately show False using distinct_fst_unique [OF _ assms(3)] by blast
qed

text \<open>C13. Whatever files were in the directory, and in whatever order the transfers open, write,
  abandon and finish their files, no file name is listed twice, no name has two writers whose
  token is set, a file somebody is still writing is never listed as shared and has its row in
  the table, and a listed file has no unfinished transfer there.\<close>

theorem storage_always_consistent:
  assumes "storage_reachable digest st"
  shows "distinct (map file_name (get_files st)) \<and>
    (\<forall>n t t'. (n, t, True) \<in> set (st_blocked st) \<and> (n, t', True) \<in> set (st_blocked st) \<longrightarrow> t = t') \<and>
    (\<forall>n. is_blocked n st \<longrightarrow> \<not> file_exists n st \<and> st_db st n \<noteq> None) \<and>
    (\<forall>f \<in> set (get_files st). st_db st (file_name f) = None)"
proof -
  have inv: "storage_inv st" by (rule reachable_inv [OF assms])
  then have "distinct (map fst (filter (\<lambda>(n, tok, b). b) (st_blocked st)))"
    by (simp add: storage_inv_def active_writers_def)
  then have "\<forall>n t t'. (n, t, True) \<in> set (st_blocked st) \<and> (n, t', True) \<in> set (st_blocked st) \<longrightarrow>
      t = t'"
    by (blast dest: distinct_fst_unique)
  with inv show ?thesis
    by (simp add: storage_inv_def get_files_def is_blocked_def is_blocked_iff file_exists_def)
qed

text \<open>C25. Resuming a transfer: when the table has a row for the name and the file can be opened,
  \<open>create_file\<close> hands out a stream that stands at the row's offset and asks the sender for
  that offset, and the bytes the file already holds are left as they are.\<close>

theorem create_file_resumes:
  assumes "st_db st (file_name fi) = Some row" "st_fs st (st_path st @ file_name fi) = Some c"
    "st_can_open st (st_path st @ file_name fi)" "\<not> exists_internal (file_name fi) st"
    "\<not> is_blocked (file_name fi) st" "0 \<le> sint (row_bytes_written row)"
  shows "\<exists>ow st'. create_file fi st =
      ((Some ow, fi\<lparr>file_offset := row_bytes_written row\<rparr>), st') \<and>
    ow_good ow \<and> ow_pos ow = unat (row_bytes_written row) \<and> st_fs st' = st_fs st \<and>
    st_db st' = st_db st \<and> is_blocked (file_name fi) st'"
  using assms
  by (auto simp: create_file_def Let_def is_blocked_def is_blocked_internal_def seekp_def)

text \<open>C27. A transfer whose content does not have the announced checksum is refused and changes
  nothing: the row stays, so once the stream is destroyed the next attempt resumes from the
  recorded offset on the same bytes instead of starting over.\<close>

theorem finalize_mismatch_resumes:
  assumes "storage_reachable digest st" "ow_token ow = Some tok"
    "(file_name fi, tok, True) \<in> set (st_blocked st)"
    "sha256_from_file digest c \<noteq> sha256sum fi"
    "st_fs st (st_path st @ file_name fi) = Some c" "st_can_open st (st_path st @ file_name fi)"
    "st_db st (file_name fi) = Some row"
  shows "finalize_file digest fi st = (False, st) \<and>
    (\<exists>ow' fi' st'. create_file fi (ow_destroy ow st) = ((Some ow', fi'), st') \<and>
       file_offset fi' = row_bytes_written row \<and>
       st_fs st' (st_path st @ file_name fi) = Some c)"
proof -
  have inv: "storage_inv st" by (rule reachable_inv [OF assms(1)])
  have "finalize_file digest fi st = (False, st)"
    using assms(4-6) by (simp add: finalize_file_def Let_def open_read_def)
  moreover have free: "\<not> is_blocked_internal (file_name fi) (ow_destroy ow st)"
    by (rule destroy_frees [OF inv assms(2,3)])
  moreover have "\<not> exists_internal (file_name fi) (ow_destroy ow st)"
    using inv assms(3)
    by (force simp: storage_inv_def active_writers_def exists_internal_def ow_destroy_def)
  ultimately show ?thesis
    using assms(5-7) by (simp add: create_file_def Let_def ow_destroy_def)
qed

subsection \<open>A concrete storage\<close>

text \<open>An empty directory, in which the file \<open>a\<close> has been opened for writing.\<close>

definition example_info :: FileInfo where
  "example_info = FileInfo_sum ''a'' ''xx'' 2"

definition example_fresh :: StaticStorage where
  "example_fresh = StaticStorage_new (\<lambda>_. []) ''i'' Map.empty Map.empty (\<lambda>_. True) []"

definition example_storage :: StaticStorage where
  "example_storage = snd (create_file example_info example_fresh)"

lemmas example_storage_defs =
  example_storage_def example_fresh_def example_info_def StaticStorage_new_def create_file_def
  exists_internal_def is_blocked_internal_def FileInfo_sum_def Let_def

lemma example_storage_fields:
  "st_blocked example_storage = [(''a'', 0, True)]"
  "st_path example_storage = storage_path_of ''i''"
  "st_db example_storage = [''a'' \<mapsto> \<lparr>row_sha256sum = ''xx'', row_file_size = 2, row_bytes_written = 0\<rparr>]"
  "st_fs example_storage = [storage_path_of ''i'' @ ''a'' \<mapsto> []]"
  "st_can_open example_storage = (\<lambda>_. True)"
  "st_files example_storage = []"
  by (simp_all add: example_storage_defs)

lemma example_storage_reachable: "storage_reachable (\<lambda>_. []) example_storage"
proof -
  have "storage_reachable (\<lambda>_. []) example_fresh"
    unfolding example_fresh_def by (rule storage_reachable.opened) simp
  then show ?thesis
    unfolding example_storage_def
    by (rule storage_reachable.created [where fi = example_info and r = "fst (create_file example_info example_fresh)"])
      simp
qed

lemma storage_always_consistent_witness:
  "is_blocked ''a'' example_storage \<and> \<not> file_exists ''a'' example_storage"
  using storage_always_consistent [OF example_storage_reachable]
  by (simp add: is_blocked_def is_blocked_internal_def example_storage_fields)

definition example_resumed :: StaticStorage where
  "example_resumed =
     example_fresh\<lparr>st_db := [''a'' \<mapsto> \<lparr>row_sha256sum = ''xx'', row_file_size = 2, row_bytes_written = 1\<rparr>],
                   st_fs := [storage_path_of ''i'' @ ''a'' \<mapsto> [7, 7]]\<rparr>"

lemma create_file_resumes_witness:
  "\<exists>ow st'. create_file example_info example_resumed =
      ((Some ow, example_info\<lparr>file_offset := 1\<rparr>), st') \<and> ow_pos ow = 1 \<and>
      st_fs st' = [storage_path_of ''i'' @ ''a'' \<mapsto> [7, 7]]"
proof -
  have "st_db example_resumed (file_name example_info) =
      Some \<lparr>row_sha256sum = ''xx'', row_file_size = 2, row_bytes_written = 1\<rparr>"
    "st_fs example_resumed (st_path example_resumed @ file_name example_info) = Some [7, 7]"
    "st_can_open example_resumed (st_path example_resumed @ file_name example_info)"
    "\<not> exists_internal (file_name example_info) example_resumed"
    "\<not> is_blocked (file_name example_info) example_resumed"
    "0 \<le> sint (row_bytes_written \<lparr>row_sha256sum = ''xx'', row_file_size = 2, row_bytes_written = 1\<rparr>)"
    by (simp_all add: example_resumed_def example_storage_defs is_blocked_def)
  from create_file_resumes [OF this] show ?thesis
    by (auto simp: example_resumed_def)
qed

lemma finalize_mismatch_resumes_witness:
  "finalize_file (\<lambda>_. []) example_info example_storage = (False, example_storage)"
proof -
  have "sha256_from_file (\<lambda>_. []) [] \<noteq> sha256sum example_info"
    by (simp add: sha256_from_file_def example_info_def FileInfo_sum_def)
  moreover have "file_name example_info = ''a''" by (simp add: example_info_def)
  ultimately show ?thesis
    using finalize_mismatch_resumes [OF example_storage_reachable,
        of "\<lparr>ow_path = [], ow_good = True, ow_pos = 0, ow_file_info = example_info,
           ow_token = Some 0\<rparr>" 0 example_info "[]"]
    by (simp add: example_storage_fields)
qed

end
