(* ===== verification/Request.thy ===== *)
theory Request
  imports Messages
begin

section \<open>Requests and their handlers\<close>

text \<open>
  \<open>request_object.hpp\<close>: what travels between the message objects, the message handler and the
  dispatcher. A message object is known by its number, in place of the \<open>weak_ptr\<close> to it; a
  handler, in the code a member function bound to its object, is the function's name.

  A session is a number as well: its address is \<open>remote_ip\<close>, which is None when the socket is no
  longer connected and \<open>remote_endpoint\<close> throws. The deprecated members of \<open>RequestObject\<close>
  (\<open>call\<close>, the promise) have no caller; they are in \<open>Members\<close>.
\<close>

datatype MessageType =
    UNKNOWN | NOTIFICATION | CHECK_PREDECESSOR | QUERY | FIND_SUCCESSOR | JOIN
  | GET_SUCCESSOR_LIST | GET_SELF_AND_SUCC_LIST | GET_PRED_AND_SUCC_LIST | STABILIZE
  | BROADCAST_FILELIST | GET_FILE

type_synonym oid = nat
type_synonym session_id = nat

datatype handler_fn = HandleResponse | HandleForwardedResponse

record HandlerObject =
  ho_correlation_id :: string
  ho_handler :: handler_fn
  ho_parent :: oid
  ho_is_persistent :: bool

definition HandlerObject_new :: "string \<Rightarrow> handler_fn \<Rightarrow> oid \<Rightarrow> bool \<Rightarrow> HandlerObject" where
  "HandlerObject_new cid f parent persistent =
     \<lparr>ho_correlation_id = cid, ho_handler = f, ho_parent = parent, ho_is_persistent = persistent\<rparr>"

definition handler_is_id :: "HandlerObject \<Rightarrow> string \<Rightarrow> bool" where
  "handler_is_id h other_id \<longleftrightarrow> ho_correlation_id h = other_id"

definition handler_less :: "HandlerObject \<Rightarrow> HandlerObject \<Rightarrow> bool" where
  "handler_less h h' \<longleftrightarrow> ho_correlation_id h < ho_correlation_id h'"

text \<open>\<open>lock\<close> and \<open>is_valid\<close>: the parent is alive. \<open>alive\<close> is the set of objects some
  \<open>shared_ptr\<close> holds.\<close>

definition handler_is_valid :: "oid list \<Rightarrow> HandlerObject \<Rightarrow> bool" where
  "handler_is_valid alive h = List.member alive (ho_parent h)"

definition handler_set_persistency :: "bool \<Rightarrow> HandlerObject \<Rightarrow> HandlerObject" where
  "handler_set_persistency b h = h\<lparr>ho_is_persistent := b\<rparr>"

text \<open>The variant \<open>connection_\<close> holds a pointer to a peer, null at first, or a session.\<close>

datatype connection = ConnPeer "Peer option" | ConnSession session_id

record RequestObject =
  ro_type :: MessageType
  ro_message :: "Message option"
  ro_connection :: connection
  ro_start :: nat
  ro_on_write_handler :: "oid option"

definition RequestObject_new :: "MessageType \<Rightarrow> nat \<Rightarrow> RequestObject" where
  "RequestObject_new ty now =
     \<lparr>ro_type = ty, ro_message = None, ro_connection = ConnPeer None, ro_start = now,
      ro_on_write_handler = None\<rparr>"

definition set_message :: "Message \<Rightarrow> RequestObject \<Rightarrow> RequestObject" where
  "set_message m r = r\<lparr>ro_message := Some m\<rparr>"

definition get_message :: "RequestObject \<Rightarrow> Message res" where
  "get_message r = (case ro_message r of None \<Rightarrow> Inl NullPointer | Some m \<Rightarrow> Inr m)"

definition set_connection_peer :: "Peer option \<Rightarrow> RequestObject \<Rightarrow> RequestObject" where
  "set_connection_peer p r = r\<lparr>ro_connection := ConnPeer p\<rparr>"

definition set_connection_session :: "session_id \<Rightarrow> RequestObject \<Rightarrow> RequestObject" where
  "set_connection_session s r = r\<lparr>ro_connection := ConnSession s\<rparr>"

definition is_session :: "RequestObject \<Rightarrow> bool" where
  "is_session r = (case ro_connection r of ConnSession _ \<Rightarrow> True | ConnPeer _ \<Rightarrow> False)"

definition get_session :: "RequestObject \<Rightarrow> session_id res" where
  "get_session r =
     (case ro_connection r of ConnSession s \<Rightarrow> Inr s | ConnPeer _ \<Rightarrow> Inl BadVariantAccess)"

definition get_peer :: "RequestObject \<Rightarrow> Peer option res" where
  "get_peer r =
     (case ro_connection r of ConnPeer p \<Rightarrow> Inr p | ConnSession _ \<Rightarrow> Inl BadVariantAccess)"

text \<open>Using the peer of a request: a null pointer is dereferenced when there is none.\<close>

definition deref :: "'a option \<Rightarrow> 'a res" where
  "deref p = (case p of None \<Rightarrow> Inl NullPointer | Some x \<Rightarrow> Inr x)"

definition ro_get_correlational_id :: "RequestObject \<Rightarrow> string res" where
  "ro_get_correlational_id r = res_bind (get_message r) (\<lambda>m. Inr (get_correlational_id m))"

definition ro_get_request_type :: "RequestObject \<Rightarrow> string res" where
  "ro_get_request_type r = res_bind (get_message r) (\<lambda>m. Inr (get_request_type m))"

definition ro_is_request :: "RequestObject \<Rightarrow> bool res" where
  "ro_is_request r = res_bind (get_message r) (\<lambda>m. Inr (is_request m))"

definition get_client_ip :: "(session_id \<Rightarrow> string option) \<Rightarrow> RequestObject \<Rightarrow> string res" where
  "get_client_ip remote_ip r =
     (if is_session r then
        res_bind (get_session r)
          (\<lambda>s. case remote_ip s of None \<Rightarrow> Inl SystemError | Some ip \<Rightarrow> Inr ip)
      else res_bind (get_peer r) (\<lambda>p. res_bind (deref p) (\<lambda>p. Inr (peer_ip p))))"

definition set_time_point :: "nat \<Rightarrow> RequestObject \<Rightarrow> RequestObject" where
  "set_time_point now r = r\<lparr>ro_start := now\<rparr>"

text \<open>The duration is cut to whole seconds.\<close>

definition ro_is_valid :: "nat \<Rightarrow> RequestObject \<Rightarrow> bool" where
  "ro_is_valid now r = (let dur = (now - ro_start r) div 1000 in \<not> dur > 10)"

definition has_on_write_handler :: "RequestObject \<Rightarrow> bool" where
  "has_on_write_handler r = (ro_on_write_handler r \<noteq> None)"

definition set_on_write_handler :: "oid \<Rightarrow> RequestObject \<Rightarrow> RequestObject" where
  "set_on_write_handler h r = r\<lparr>ro_on_write_handler := Some h\<rparr>"

lemma request_simps [simp]:
  "get_message (set_message m r) = Inr m"
  "ro_message (set_message m r) = Some m"
  "ro_connection (set_message m r) = ro_connection r"
  "ro_on_write_handler (set_message m r) = ro_on_write_handler r"
  "ro_message (set_connection_peer p r) = ro_message r"
  "get_message (set_connection_peer p r) = get_message r"
  "ro_connection (set_connection_peer p r) = ConnPeer p"
  "ro_on_write_handler (set_connection_peer p r) = ro_on_write_handler r"
  "ro_message (set_connection_session s r) = ro_message r"
  "ro_connection (set_connection_session s r) = ConnSession s"
  "get_message (set_on_write_handler h r) = get_message r"
  "ro_message (set_on_write_handler h r) = ro_message r"
  "ro_connection (set_on_write_handler h r) = ro_connection r"
  "ro_on_write_handler (set_on_write_handler h r) = Some h"
  "ro_on_write_handler (RequestObject_new ty now) = None"
  by (simp_all add: set_message_def get_message_def set_connection_peer_def
      set_connection_session_def set_on_write_handler_def RequestObject_new_def)

lemma deref_simps [simp]: "deref None = Inl NullPointer" "deref (Some x) = Inr x"
  by (simp_all add: deref_def)

end
