(* ===== verification/Messaging.thy ===== *)
theory Messaging
  imports Request Routing_Table Storage
begin

section \<open>Message objects\<close>

text \<open>
  \<open>messaging_base.hpp\<close> and \<open>messaging_base.cpp\<close>: the base class of everything a node does. A class
  derived from \<open>MessagingBase\<close> is a record that extends \<open>MessagingBase\<close>; its member functions
  take the object and the node's shared state, the record \<open>world\<close>, and return both with the
  calls of \<open>Notify\<close> they made, in order. The mutex of an object is held through each of these
  functions, so each is one step.

  What the operating system and the libraries answer is the record \<open>Env\<close>: the text of a SHA-256,
  its bytes, the address at the other end of a session. The clock \<open>w_now\<close> counts milliseconds.
\<close>

record Env =
  en_sha :: "string \<Rightarrow> string"
  en_digest :: "byte list \<Rightarrow> byte list"
  en_remote_ip :: "session_id \<Rightarrow> string option"

record world =
  w_table :: RoutingTable
  w_storage :: StaticStorage
  w_stabilize_flag :: bool
  w_check_predecessor_flag :: bool
  w_counter :: u32
  w_now :: nat
  w_next_oid :: oid

subsection \<open>What an object tells its observer\<close>

text \<open>The three overloads of \<open>Notify\<close>, and the \<open>read\<close> of a session.\<close>

datatype signal =
    Sig RequestObject
  | SigH RequestObject HandlerObject
  | SigNotify
  | SigRead session_id

text \<open>\<open>Observable::Notify\<close> calls every attached observer that is still alive, in the order they
  were attached.\<close>

definition Attach :: "oid \<Rightarrow> oid list \<Rightarrow> oid list" where
  "Attach observer observers = observers @ [observer]"

fun Notify :: "(oid \<Rightarrow> bool) \<Rightarrow> (oid \<Rightarrow> 's \<Rightarrow> 's) \<Rightarrow> oid list \<Rightarrow> 's \<Rightarrow> 's" where
  "Notify is_alive handle_notification [] s = s"
| "Notify is_alive handle_notification (ob # observers) s =
     Notify is_alive handle_notification observers
       (if is_alive ob then handle_notification ob s else s)"

subsection \<open>Promises\<close>

record 'a Awaitable =
  aw_value :: "'a option"
  aw_retrieved :: bool

definition Awaitable_new :: "'a Awaitable" where
  "Awaitable_new = \<lparr>aw_value = None, aw_retrieved = False\<rparr>"

definition set_promise :: "'a \<Rightarrow> 'a Awaitable \<Rightarrow> 'a Awaitable res" where
  "set_promise v a =
     (case aw_value a of
        None \<Rightarrow> Inr (a\<lparr>aw_value := Some v\<rparr>)
      | Some _ \<Rightarrow> Inl PromiseSatisfied)"

text \<open>\<open>get_future().get().value()\<close>, for a promise of an optional.\<close>

definition future_get :: "'a option Awaitable \<Rightarrow> 'a res" where
  "future_get a =
     (if aw_retrieved a then Inl FutureRetrieved
      else case aw_value a of
             None \<Rightarrow> Inl FutureBlocks
           | Some None \<Rightarrow> Inl BadOptionalAccess
           | Some (Some v) \<Rightarrow> Inr v)"

lemma Awaitable_new_simps [simp]:
  "aw_value Awaitable_new = None" "\<not> aw_retrieved Awaitable_new"
  "set_promise v Awaitable_new = Inr \<lparr>aw_value = Some v, aw_retrieved = False\<rparr>"
  by (simp_all add: Awaitable_new_def set_promise_def)

lemma set_promise_Inr_iff:
  "set_promise v a = Inr a' \<longleftrightarrow> aw_value a = None \<and> a' = a\<lparr>aw_value := Some v\<rparr>"
  by (auto simp: set_promise_def split: option.splits)

subsection \<open>The base class\<close>

datatype MESSAGE_STATE = FAILED | TIMEDOUT | VALID | DONE

definition DURATION :: nat where
  "DURATION = 10000"

record MessagingBase =
  mb_oid :: oid
  mb_type :: MessageType
  mb_handler_object :: "HandlerObject option"
  mb_request :: "RequestObject option"
  mb_time_point :: nat
  mb_is_done :: bool
  mb_state :: MESSAGE_STATE
  mb_is_request_handler :: bool

text \<open>The fields a constructor of the base class gives, without and with a request.\<close>

definition MessagingBase_new :: "oid \<Rightarrow> MessageType \<Rightarrow> nat \<Rightarrow> MessagingBase" where
  "MessagingBase_new i ty now =
     \<lparr>mb_oid = i, mb_type = ty, mb_handler_object = None, mb_request = None,
      mb_time_point = now + DURATION, mb_is_done = False, mb_state = VALID,
      mb_is_request_handler = False\<rparr>"

definition MessagingBase_new_request ::
  "oid \<Rightarrow> MessageType \<Rightarrow> RequestObject \<Rightarrow> nat \<Rightarrow> MessagingBase" where
  "MessagingBase_new_request i ty r now =
     \<lparr>mb_oid = i, mb_type = ty, mb_handler_object = None, mb_request = Some r,
      mb_time_point = now + DURATION, mb_is_done = False, mb_state = VALID,
      mb_is_request_handler = True\<rparr>"

type_synonym 'o step = "('o \<times> world \<times> signal list) res"

text \<open>\<open>operator()\<close>.\<close>

definition run_message ::
  "('m MessagingBase_scheme \<Rightarrow> world \<Rightarrow> 'm MessagingBase_scheme step) \<Rightarrow>
   ('m MessagingBase_scheme \<Rightarrow> world \<Rightarrow> 'm MessagingBase_scheme step) \<Rightarrow>
   'm MessagingBase_scheme \<Rightarrow> world \<Rightarrow> 'm MessagingBase_scheme step" where
  "run_message on_request on_create ob w =
     (if mb_is_request_handler ob then on_request ob w else on_create ob w)"

text \<open>\<open>RequestDestruction\<close>, at the end of a function that has notified \<open>sigs\<close>, and a
  function that ends without it.\<close>

definition RequestDestruction ::
  "'m MessagingBase_scheme \<Rightarrow> world \<Rightarrow> signal list \<Rightarrow> 'm MessagingBase_scheme step" where
  "RequestDestruction ob w sigs = Inr (ob\<lparr>mb_is_done := True\<rparr>, w, sigs @ [SigNotify])"

definition finish_as ::
  "MESSAGE_STATE \<Rightarrow> 'm MessagingBase_scheme \<Rightarrow> world \<Rightarrow> signal list \<Rightarrow>
   'm MessagingBase_scheme step" where
  "finish_as st ob w sigs = RequestDestruction (ob\<lparr>mb_state := st\<rparr>) w sigs"

definition create_handler_object ::
  "string \<Rightarrow> handler_fn \<Rightarrow> bool \<Rightarrow> 'm MessagingBase_scheme \<Rightarrow> 'm MessagingBase_scheme" where
  "create_handler_object cid f persistent ob =
     ob\<lparr>mb_handler_object := Some (HandlerObject_new cid f (mb_oid ob) persistent)\<rparr>"

text \<open>\<open>create_handler_object(id, f, persistent); Notify(request, *handler_object_)\<close>.\<close>

definition send_with_handler ::
  "RequestObject \<Rightarrow> string \<Rightarrow> handler_fn \<Rightarrow> bool \<Rightarrow> 'm MessagingBase_scheme \<Rightarrow> world \<Rightarrow>
   'm MessagingBase_scheme step" where
  "send_with_handler r cid f persistent ob w =
     (let ob' = create_handler_object cid f persistent ob in
      res_bind (deref (mb_handler_object ob')) (\<lambda>h. Inr (ob', w, [SigH r h])))"

subsection \<open>Building messages\<close>

text \<open>\<open>generate_transaction_id\<close> reads the clock in seconds and steps the shared counter.\<close>

definition w_generate_id :: "Env \<Rightarrow> Message \<Rightarrow> world \<Rightarrow> Message \<times> world" where
  "w_generate_id env m w =
     (let (m', c) = generate_transaction_id (en_sha env) (w_now w div 1000) (w_counter w) m
      in (m', w\<lparr>w_counter := c\<rparr>))"

definition w_create_request :: "Env \<Rightarrow> string \<Rightarrow> world \<Rightarrow> Message \<times> world" where
  "w_create_request env ty w =
     (let (m, c) = create_request (en_sha env) (w_now w div 1000) (w_counter w) ty
      in (m, w\<lparr>w_counter := c\<rparr>))"

definition w_create_request_peers ::
  "Env \<Rightarrow> string \<Rightarrow> Peer list \<Rightarrow> world \<Rightarrow> Message \<times> world" where
  "w_create_request_peers env ty ps w =
     (let (m, c) = create_request_peers (en_sha env) (w_now w div 1000) (w_counter w) ty ps
      in (m, w\<lparr>w_counter := c\<rparr>))"

text \<open>\<open>try_get_*\<close> on the shared table.\<close>

definition w_get_self :: "world \<Rightarrow> Peer option \<times> world" where
  "w_get_self w = (let (p, rt) = try_get_self (w_table w) in (p, w\<lparr>w_table := rt\<rparr>))"

definition w_get_successor :: "world \<Rightarrow> Peer option \<times> world" where
  "w_get_successor w = (let (p, rt) = try_get_successor (w_table w) in (p, w\<lparr>w_table := rt\<rparr>))"

definition w_get_predecessor :: "world \<Rightarrow> Peer option \<times> world" where
  "w_get_predecessor w =
     (let (p, rt) = try_get_predecessor (w_table w) in (p, w\<lparr>w_table := rt\<rparr>))"

subsection \<open>Time-outs\<close>

text \<open>
  \<open>check_state\<close>, for a class with its \<open>handle_failed\<close> and its way of asking the dependencies
  (\<open>any_expired\<close>, whether an essential one has failed). A leaf class has none.
\<close>

definition check_state ::
  "('m MessagingBase_scheme \<Rightarrow> world \<Rightarrow> ('m MessagingBase_scheme \<times> world) res) \<Rightarrow>
   ('m MessagingBase_scheme \<Rightarrow> world \<Rightarrow> (bool \<times> 'm MessagingBase_scheme \<times> world) res) \<Rightarrow>
   'm MessagingBase_scheme \<Rightarrow> world \<Rightarrow> (MESSAGE_STATE \<times> 'm MessagingBase_scheme \<times> world) res"
  where
  "check_state handle_failed any_expired ob w =
     (if mb_is_done ob then Inr (mb_state ob, ob, w)
      else if w_now w > mb_time_point ob then
        res_bind (handle_failed (ob\<lparr>mb_state := TIMEDOUT, mb_is_done := True\<rparr>) w)
          (\<lambda>(ob', w'). Inr (mb_state ob', ob', w'))
      else
        res_bind (any_expired ob w)
          (\<lambda>(expired, ob', w').
             if expired then
               res_bind (handle_failed ob' w')
                 (\<lambda>(ob'', w''). Inr (TIMEDOUT, ob''\<lparr>mb_is_done := True\<rparr>, w''))
             else Inr (VALID, ob', w')))"

definition no_dependencies ::
  "'m MessagingBase_scheme \<Rightarrow> world \<Rightarrow> (bool \<times> 'm MessagingBase_scheme \<times> world) res" where
  "no_dependencies ob w = Inr (False, ob, w)"

fun is_timed_out :: "nat \<Rightarrow> nat \<Rightarrow> (nat \<times> bool) list \<Rightarrow> bool" where
  "is_timed_out now time_point deps =
     (if now > time_point then True
      else list_ex (\<lambda>(dep_time_point, essential). now > dep_time_point \<and> essential) deps)"

subsection \<open>Simplification rules\<close>

text \<open>The building blocks only change the counter of the world, resp. the flags of its table.\<close>

lemma w_generate_id_simps [simp, base_simps]:
  "snd (w_generate_id env m w) = w\<lparr>w_counter := next_counter (w_counter w)\<rparr>"
  "msg_peers (fst (w_generate_id env m w)) = msg_peers m"
  "msg_files (fst (w_generate_id env m w)) = msg_files m"
  "msg_file_chunk (fst (w_generate_id env m w)) = msg_file_chunk m"
  "t_flag (msg_header (fst (w_generate_id env m w))) = t_flag (msg_header m)"
  "request_type (msg_header (fst (w_generate_id env m w))) = request_type (msg_header m)"
  "correlational_id (msg_header (fst (w_generate_id env m w))) = correlational_id (msg_header m)"
  by (simp_all add: w_generate_id_def split_def)

lemma w_create_request_simps [simp, base_simps]:
  "snd (w_create_request env ty w) = w\<lparr>w_counter := next_counter (w_counter w)\<rparr>"
  "msg_peers (fst (w_create_request env ty w)) = []"
  "t_flag (msg_header (fst (w_create_request env ty w)))"
  "request_type (msg_header (fst (w_create_request env ty w))) = ty"
  by (simp_all add: w_create_request_def create_request_def split_def Header_new_def
      Message_empty_def)

lemma w_create_request_peers_simps [simp, base_simps]:
  "snd (w_create_request_peers env ty ps w) = w\<lparr>w_counter := next_counter (w_counter w)\<rparr>"
  "msg_peers (fst (w_create_request_peers env ty ps w)) = ps"
  "t_flag (msg_header (fst (w_create_request_peers env ty ps w)))"
  "request_type (msg_header (fst (w_create_request_peers env ty ps w))) = ty"
  by (simp_all add: w_create_request_peers_def create_request_peers_def split_def Header_new_def
      Message_empty_def)

lemma w_get_simps [simp, base_simps]:
  "fst (w_get_self w) = rt_self (w_table w)"
  "snd (w_get_self w) = w\<lparr>w_table := snd (try_get_self (w_table w))\<rparr>"
  "fst (w_get_successor w) =
     (case rt_successor_list (w_table w) of [] \<Rightarrow> None | p # _ \<Rightarrow> Some p)"
  "snd (w_get_successor w) = w\<lparr>w_table := snd (try_get_successor (w_table w))\<rparr>"
  "fst (w_get_predecessor w) = rt_predecessor (w_table w)"
  "snd (w_get_predecessor w) = w\<lparr>w_table := snd (try_get_predecessor (w_table w))\<rparr>"
  by (simp_all add: w_get_self_def w_get_successor_def w_get_predecessor_def split_def)

lemmas finish_defs = finish_as_def RequestDestruction_def

lemma send_with_handler_eq [op_defs]:
  "send_with_handler r cid f persistent ob w =
     Inr (ob\<lparr>mb_handler_object := Some (HandlerObject_new cid f (mb_oid ob) persistent)\<rparr>, w,
          [SigH r (HandlerObject_new cid f (mb_oid ob) persistent)])"
  by (simp add: send_with_handler_def create_handler_object_def)

subsection \<open>What every operation of a message object keeps\<close>

definition world_inv :: "world \<Rightarrow> bool" where
  "world_inv w \<longleftrightarrow> rt_inv (w_table w) \<and> storage_inv (w_storage w)"

text \<open>A request that can be sent: it has a message, and its peer is not null.\<close>

definition request_sound :: "RequestObject \<Rightarrow> bool" where
  "request_sound r \<longleftrightarrow> ro_message r \<noteq> None \<and> ro_connection r \<noteq> ConnPeer None"

text \<open>What an object \<open>i\<close> notifies: sound requests, and with a handler only requests registered
  under the transaction id they carry, with the object itself as the parent.\<close>

fun sig_ok :: "oid \<Rightarrow> signal \<Rightarrow> bool" where
  "sig_ok i (Sig r) \<longleftrightarrow> request_sound r"
| "sig_ok i (SigH r h) \<longleftrightarrow>
     request_sound r \<and> \<not> is_session r \<and> ho_parent h = i \<and>
     (\<exists>m. ro_message r = Some m \<and> is_request m \<and> get_transaction_id m = ho_correlation_id h)"
| "sig_ok i SigNotify \<longleftrightarrow> True"
| "sig_ok i (SigRead s) \<longleftrightarrow> True"

definition base_inv :: "'m MessagingBase_scheme \<Rightarrow> bool" where
  "base_inv ob \<longleftrightarrow>
     (mb_is_request_handler ob \<longrightarrow> mb_request ob \<noteq> None) \<and>
     (\<forall>r. mb_request ob = Some r \<longrightarrow> request_sound r)"

text \<open>The outcome of an operation of \<open>ob\<close>: the object keeps its identity, the invariant of the
  world holds again, and an object that becomes done has told its observer.\<close>

definition step_ok :: "'m MessagingBase_scheme \<Rightarrow> world \<Rightarrow> 'm MessagingBase_scheme step \<Rightarrow> bool" where
  "step_ok ob w r \<longleftrightarrow>
     (\<forall>ob' w' sigs. r = Inr (ob', w', sigs) \<longrightarrow>
        mb_oid ob' = mb_oid ob \<and> mb_type ob' = mb_type ob \<and> mb_request ob' = mb_request ob \<and>
        mb_is_request_handler ob' = mb_is_request_handler ob \<and>
        world_inv w' \<and> w_now w' = w_now w \<and> w_next_oid w' = w_next_oid w \<and>
        (\<forall>s \<in> set sigs. sig_ok (mb_oid ob) s) \<and>
        (mb_is_done ob' \<longrightarrow> mb_is_done ob \<or> SigNotify \<in> set sigs))"

lemma world_inv_update [simp, base_simps]:
  "world_inv (w\<lparr>w_counter := c\<rparr>) = world_inv w"
  "world_inv (w\<lparr>w_stabilize_flag := b\<rparr>) = world_inv w"
  "world_inv (w\<lparr>w_check_predecessor_flag := b\<rparr>) = world_inv w"
  "world_inv (w\<lparr>w_next_oid := i\<rparr>) = world_inv w"
  "world_inv (w\<lparr>w_now := n\<rparr>) = world_inv w"
  "world_inv (w\<lparr>w_table := rt\<rparr>) \<longleftrightarrow> rt_inv rt \<and> storage_inv (w_storage w)"
  "world_inv (w\<lparr>w_storage := st\<rparr>) \<longleftrightarrow> rt_inv (w_table w) \<and> storage_inv st"
  by (simp_all add: world_inv_def)

lemma world_invD [dest]: "world_inv w \<Longrightarrow> rt_inv (w_table w)" "world_inv w \<Longrightarrow> storage_inv (w_storage w)"
  by (simp_all add: world_inv_def)

lemma step_ok_Inl [simp]: "step_ok ob w (Inl e)"
  by (simp add: step_ok_def)

lemma step_ok_Inr:
  "step_ok ob w (Inr (ob', w', sigs)) \<longleftrightarrow>
     mb_oid ob' = mb_oid ob \<and> mb_type ob' = mb_type ob \<and> mb_request ob' = mb_request ob \<and>
     mb_is_request_handler ob' = mb_is_request_handler ob \<and>
     world_inv w' \<and> w_now w' = w_now w \<and> w_next_oid w' = w_next_oid w \<and>
     (\<forall>s \<in> set sigs. sig_ok (mb_oid ob) s) \<and>
     (mb_is_done ob' \<longrightarrow> mb_is_done ob \<or> SigNotify \<in> set sigs)"
  by (auto simp: step_ok_def)

lemma step_ok_bind:
  "(\<And>x. r = Inr x \<Longrightarrow> step_ok ob w (f x)) \<Longrightarrow> step_ok ob w (res_bind r f)"
  by (cases r) simp_all

lemma is_request_w_create [simp]:
  "is_request (fst (w_create_request env ty w))"
  "is_request (fst (w_create_request_peers env ty ps w))"
  "is_request (fst (w_generate_id env m w)) = is_request m"
  "\<not> is_request (generate_response m)"
  by (simp_all add: is_request_def)

lemma is_request_peers_update [simp]:
  "is_request (m\<lparr>msg_peers := ps\<rparr>) = is_request m" "is_request (m\<lparr>msg_files := fs\<rparr>) = is_request m"
  "is_request (m\<lparr>msg_file_chunk := c\<rparr>) = is_request m"
  "get_transaction_id (m\<lparr>msg_files := fs\<rparr>) = get_transaction_id m"
  by (simp_all add: is_request_def get_transaction_id_def)

lemma request_sound_simps [simp]:
  "request_sound (set_message m r) \<longleftrightarrow> ro_connection r \<noteq> ConnPeer None"
  "request_sound (set_connection_peer p r) \<longleftrightarrow> ro_message r \<noteq> None \<and> p \<noteq> None"
  "request_sound (set_on_write_handler h r) = request_sound r"
  "\<not> is_session (set_connection_peer p r)"
  "is_session (set_message m r) = is_session r"
  "ho_parent (HandlerObject_new cid f i b) = i"
  "ho_correlation_id (HandlerObject_new cid f i b) = cid"
  "ho_is_persistent (HandlerObject_new cid f i b) = b"
  "ho_handler (HandlerObject_new cid f i b) = f"
  by (simp_all add: request_sound_def is_session_def HandlerObject_new_def)

text \<open>The table of a running node answers \<open>try_get_self\<close> and \<open>try_get_successor\<close> without
  touching its flags.\<close>

lemma rt_inv_gets [simp]:
  assumes "rt_inv rt"
  shows "snd (try_get_self rt) = rt" "snd (try_get_successor rt) = rt"
  using assms
  by (auto simp: rt_inv_def try_get_self_def try_get_successor_def split: option.split list.split)

lemma world_inv_gets [simp]:
  assumes "world_inv w"
  shows "w\<lparr>w_table := snd (try_get_self (w_table w))\<rparr> = w"
    "w\<lparr>w_table := snd (try_get_successor (w_table w))\<rparr> = w"
  using assms by (simp_all add: world_inv_def)

lemmas step_simps = step_ok_Inr finish_defs Let_def split_def send_with_handler_eq

subsection \<open>A concrete node\<close>

text \<open>The shared state of a node \<open>me\<close> with the given successors, for the examples.\<close>

definition example_env :: Env where
  "example_env = \<lparr>en_sha = (\<lambda>s. s), en_digest = (\<lambda>_. []), en_remote_ip = (\<lambda>_. Some ''ip'')\<rparr>"

definition example_peer :: "string \<Rightarrow> Peer" where
  "example_peer i = Peer_new i (''ip'' @ i) ''1''"

definition example_world :: "string \<Rightarrow> string list \<Rightarrow> world" where
  "example_world me succs =
     \<lparr>w_table = (rt_new True False True)\<lparr>rt_self := Some (example_peer me),
        rt_successor_list := map example_peer succs\<rparr>,
      w_storage = example_fresh, w_stabilize_flag = False, w_check_predecessor_flag = False,
      w_counter = 0, w_now = 0, w_next_oid = 0\<rparr>"

definition example_request :: "string \<Rightarrow> Peer list \<Rightarrow> RequestObject" where
  "example_request ty ps =
     set_connection_session 0
       (set_message (Message_empty\<lparr>msg_header := Header_new True 0 0 ty ''t'' '''' '''', msg_peers := ps\<rparr>)
         (RequestObject_new UNKNOWN 0))"

lemma example_world_simps [simp]:
  "rt_self (w_table (example_world me succs)) = Some (example_peer me)"
  "rt_successor_list (w_table (example_world me succs)) = map example_peer succs"
  "rt_predecessor (w_table (example_world me succs)) = None"
  "w_now (example_world me succs) = 0"
  "w_storage (example_world me succs) = example_fresh"
  "peer_id (example_peer i) = i"
  by (simp_all add: example_world_def example_peer_def rt_new_def)

lemma example_world_inv: "succs \<noteq> [] \<Longrightarrow> length succs \<le> 10 \<Longrightarrow> world_inv (example_world me succs)"
proof -
  have "storage_reachable (\<lambda>_. []) example_fresh"
    unfolding example_fresh_def by (rule storage_reachable.opened) simp
  then have "storage_inv example_fresh" by (rule reachable_inv)
  moreover assume "succs \<noteq> []" "length succs \<le> 10"
  ultimately show ?thesis
    by (simp add: world_inv_def rt_inv_def rt_size_def succ_list_size_def)
qed

end
