(* ===== verification/Find_Successor.thy ===== *)
theory Find_Successor
  imports Messaging
begin

section \<open>FindSuccessor\<close>

text \<open>
  \<open>find_successor.cpp\<close>: one hop of a Chord lookup. A node that asks for the owner of an id and a
  node that answers such a request are the same class; a request that this node cannot answer
  from its table is forwarded to the closest preceding node it knows, and the answer that comes
  back is passed on.
\<close>

record FindSuccessor = MessagingBase +
  fs_id :: string
  fs_target :: "Peer option"
  fs_promise :: "Peer option Awaitable"

definition FindSuccessor_new :: "oid \<Rightarrow> string \<Rightarrow> nat \<Rightarrow> FindSuccessor" where
  "FindSuccessor_new i id' now =
     MessagingBase.extend (MessagingBase_new i FIND_SUCCESSOR now)
       (FindSuccessor.fields id' None Awaitable_new)"

definition FindSuccessor_new_target :: "oid \<Rightarrow> Peer \<Rightarrow> string \<Rightarrow> nat \<Rightarrow> FindSuccessor" where
  "FindSuccessor_new_target i target id' now =
     MessagingBase.extend (MessagingBase_new i FIND_SUCCESSOR now)
       (FindSuccessor.fields id' (Some target) Awaitable_new)"

definition FindSuccessor_new_request :: "oid \<Rightarrow> RequestObject \<Rightarrow> nat \<Rightarrow> FindSuccessor" where
  "FindSuccessor_new_request i r now =
     MessagingBase.extend (MessagingBase_new_request i FIND_SUCCESSOR r now)
       (FindSuccessor.fields '''' None Awaitable_new)"

lemmas FindSuccessor_new_defs =
  FindSuccessor_new_def FindSuccessor_new_target_def FindSuccessor_new_request_def
  MessagingBase_new_def MessagingBase_new_request_def MessagingBase.defs FindSuccessor.defs

subsection \<open>The lookup in the local table\<close>

text \<open>The loop of \<open>closest_preceding_node\<close> goes through the peers from the last to the first.\<close>

definition closest_preceding_node ::
  "string \<Rightarrow> RoutingTable \<Rightarrow> Peer option \<times> RoutingTable" where
  "closest_preceding_node i rt =
     (let (self, rt1) = try_get_self rt in
      case self of
        None \<Rightarrow> (None, rt1)
      | Some me \<Rightarrow>
          (case List.find (\<lambda>p. between (peer_id me) (peer_id p) i) (rev (rt_get_peers rt1)) of
             Some p \<Rightarrow> (Some p, rt1)
           | None \<Rightarrow> (Some me, rt1)))"

definition self_or_none :: "string \<Rightarrow> Peer \<Rightarrow> RoutingTable \<Rightarrow> (Peer option \<times> RoutingTable) res" where
  "self_or_none i self rt =
     (let (p, rt1) = closest_preceding_node i rt in
      res_bind (deref p)
        (\<lambda>predecessor.
           Inr (if peer_id predecessor = peer_id self then Some self else None, rt1)))"

definition find_successor :: "string \<Rightarrow> RoutingTable \<Rightarrow> (Peer option \<times> RoutingTable) res" where
  "find_successor i rt =
     (let (self, rt1) = try_get_self rt in
      case self of
        None \<Rightarrow> Inr (None, rt1)
      | Some me \<Rightarrow>
          if rt_size rt1 = 0 then self_or_none i me rt1
          else
            let (successor, rt2) = try_get_successor rt1 in
            case successor of
              None \<Rightarrow> Inr (None, rt2)
            | Some s \<Rightarrow>
                if between (peer_id me) i (peer_id s) \<or> i = peer_id s then Inr (Some s, rt2)
                else self_or_none i me rt2)"

subsection \<open>The operations\<close>

definition fs_create_request :: "Env \<Rightarrow> FindSuccessor \<Rightarrow> world \<Rightarrow> FindSuccessor step" where
  "fs_create_request env fs w =
     res_bind
       (if fs_target fs = None then find_successor (fs_id fs) (w_table w)
        else Inr (None, w_table w))
       (\<lambda>(successor_ptr, rt1).
          let w1 = w\<lparr>w_table := rt1\<rparr> in
          case successor_ptr of
            Some s \<Rightarrow>
              res_bind (set_promise (Some s) (fs_promise fs))
                (\<lambda>pr. finish_as DONE (fs\<lparr>fs_promise := pr\<rparr>) w1 [])
          | None \<Rightarrow>
              let (m0, w2) =
                    w_create_request_peers env ''find_successor'' [Peer_new (fs_id fs) '''' ''''] w1;
                  (m, w3) = w_generate_id env m0 w2;
                  r0 = set_message m (RequestObject_new (mb_type fs) (w_now w3));
                  (r, w4) =
                    (case fs_target fs of
                       Some t \<Rightarrow> (set_connection_peer (Some t) r0, w3)
                     | None \<Rightarrow>
                         let (p, rt4) = closest_preceding_node (fs_id fs) (w_table w3)
                         in (set_connection_peer p r0, w3\<lparr>w_table := rt4\<rparr>))
              in send_with_handler r (get_transaction_id m) HandleResponse False fs w4)"

definition fs_forward_request :: "Env \<Rightarrow> FindSuccessor \<Rightarrow> world \<Rightarrow> FindSuccessor step" where
  "fs_forward_request env fs w =
     (case mb_request fs of
        None \<Rightarrow> finish_as FAILED fs w []
      | Some req \<Rightarrow>
          res_bind (get_message req) (\<lambda>message.
          res_bind (front (msg_peers message)) (\<lambda>p.
            let (successor_predecessor, rt1) = closest_preceding_node (peer_id p) (w_table w);
                (m0, w2) = w_create_request_peers env ''find_successor'' [p] (w\<lparr>w_table := rt1\<rparr>);
                (m, w3) = w_generate_id env m0 w2;
                r = set_connection_peer successor_predecessor
                      (set_message m (RequestObject_new (mb_type fs) (w_now w3)))
            in send_with_handler r (get_transaction_id m) HandleForwardedResponse False fs w3)))"

definition fs_handle_request :: "Env \<Rightarrow> FindSuccessor \<Rightarrow> world \<Rightarrow> FindSuccessor step" where
  "fs_handle_request env fs w =
     (case mb_request fs of
        None \<Rightarrow> finish_as FAILED fs w []
      | Some req \<Rightarrow>
          res_bind (get_message req) (\<lambda>message.
          res_bind (front (msg_peers message)) (\<lambda>p.
          res_bind (find_successor (peer_id p) (w_table w)) (\<lambda>(successor, rt1).
            let w1 = w\<lparr>w_table := rt1\<rparr> in
            case successor of
              None \<Rightarrow> fs_forward_request env fs w1
            | Some s \<Rightarrow>
                let (response_message, w2) =
                      w_generate_id env ((generate_response message)\<lparr>msg_peers := [s]\<rparr>) w1
                in finish_as DONE fs w2 [Sig (set_message response_message req)]))))"

definition fs_handle_forwarded_response ::
  "Env \<Rightarrow> RequestObject \<Rightarrow> FindSuccessor \<Rightarrow> world \<Rightarrow> FindSuccessor step" where
  "fs_handle_forwarded_response env resp fs w =
     (case mb_request fs of
        None \<Rightarrow> finish_as FAILED fs w []
      | Some req \<Rightarrow>
          res_bind (get_message resp) (\<lambda>message.
          res_bind (front (msg_peers message)) (\<lambda>successor.
          res_bind (get_message req) (\<lambda>req_message.
            let (response_message, w1) =
                  w_generate_id env ((generate_response req_message)\<lparr>msg_peers := [successor]\<rparr>) w
            in finish_as DONE fs w1 [Sig (set_message response_message req)]))))"

text \<open>A response with the wrong number of peers is set to FAILED first, and goes on.\<close>

definition fs_handle_response ::
  "RequestObject \<Rightarrow> FindSuccessor \<Rightarrow> world \<Rightarrow> FindSuccessor step" where
  "fs_handle_response resp fs w =
     res_bind (get_message resp) (\<lambda>message.
       let fs1 = (if length (msg_peers message) \<noteq> 1 then fs\<lparr>mb_state := FAILED\<rparr> else fs);
           fs2 = fs1\<lparr>mb_state := DONE\<rparr>
       in res_bind (front (msg_peers message)) (\<lambda>p.
          res_bind (set_promise (Some p) (fs_promise fs2)) (\<lambda>pr.
            RequestDestruction (fs2\<lparr>fs_promise := pr\<rparr>) w [])))"

definition fs_handle_failed :: "FindSuccessor \<Rightarrow> world \<Rightarrow> (FindSuccessor \<times> world) res" where
  "fs_handle_failed fs w =
     res_bind (set_promise None (fs_promise fs)) (\<lambda>pr. Inr (fs\<lparr>fs_promise := pr\<rparr>, w))"

subsection \<open>Lemmas\<close>

lemma try_get_self_Some [simp]: "rt_self rt = Some me \<Longrightarrow> try_get_self rt = (Some me, rt)"
  by (simp add: try_get_self_def)

lemma try_get_successor_Cons [simp]:
  "rt_successor_list rt = s # ss \<Longrightarrow> try_get_successor rt = (Some s, rt)"
  by (simp add: try_get_successor_def)

text \<open>The peer the loop returns, on a table that knows itself.\<close>

definition closest :: "string \<Rightarrow> Peer \<Rightarrow> Peer list \<Rightarrow> Peer" where
  "closest i me ps =
     (case List.find (\<lambda>p. between (peer_id me) (peer_id p) i) (rev ps) of Some p \<Rightarrow> p | None \<Rightarrow> me)"

lemma closest_preceding_node_eq:
  "rt_self rt = Some me \<Longrightarrow>
     closest_preceding_node i rt = (Some (closest i me (rt_successor_list rt)), rt)"
  by (simp add: closest_preceding_node_def closest_def rt_get_peers_def split: option.split)

lemma closest_cases:
  obtains (self) "closest i me ps = me" "\<forall>p \<in> set ps. \<not> between (peer_id me) (peer_id p) i"
  | (peer) pre p post where "closest i me ps = p" "ps = pre @ p # post"
      "between (peer_id me) (peer_id p) i" "\<forall>q \<in> set post. \<not> between (peer_id me) (peer_id q) i"
proof (cases "List.find (\<lambda>p. between (peer_id me) (peer_id p) i) (rev ps)")
  case None
  then have "closest i me ps = me" by (simp add: closest_def)
  moreover have "\<forall>p \<in> set ps. \<not> between (peer_id me) (peer_id p) i"
    using None by (simp add: find_None_iff)
  ultimately show ?thesis by (rule self)
next
  case (Some p)
  then obtain n where n: "n < length ps" "p = rev ps ! n"
    "between (peer_id me) (peer_id p) i" "\<forall>j < n. \<not> between (peer_id me) (peer_id (rev ps ! j)) i"
    by (auto simp: find_Some_iff)
  have "rev ps = take n (rev ps) @ p # drop (Suc n) (rev ps)"
    using n by (simp add: id_take_nth_drop)
  then have "ps = rev (drop (Suc n) (rev ps)) @ p # rev (take n (rev ps))"
    by (metis append.assoc append_Cons append_Nil rev_append rev_rev_ident rev.simps(2))
  moreover have "\<forall>q \<in> set (rev (take n (rev ps))). \<not> between (peer_id me) (peer_id q) i"
    using n by (auto simp: in_set_conv_nth)
  moreover have "closest i me ps = p" using Some by (simp add: closest_def)
  ultimately show ?thesis using n(3) by (intro peer)
qed

lemma closest_id_neq: "between (peer_id me) (peer_id p) i \<Longrightarrow> peer_id p \<noteq> peer_id me"
  using ring.not_left by metis

text \<open>What \<open>find_successor\<close> returns on a table that satisfies the invariant; the table stays as
  it is.\<close>

definition local_successor :: "string \<Rightarrow> Peer \<Rightarrow> Peer list \<Rightarrow> Peer option" where
  "local_successor i me ps =
     (case ps of
        [] \<Rightarrow> Some me
      | s # _ \<Rightarrow>
          if between (peer_id me) i (peer_id s) \<or> i = peer_id s then Some s
          else if peer_id (closest i me ps) = peer_id me then Some me else None)"

lemma find_successor_eq:
  assumes "rt_self rt = Some me"
  shows "find_successor i rt = Inr (local_successor i me (rt_successor_list rt), rt)"
proof (cases "rt_successor_list rt")
  case Nil
  then show ?thesis using assms
    by (simp add: find_successor_def self_or_none_def closest_preceding_node_eq rt_size_def
        local_successor_def closest_def)
next
  case (Cons s ss)
  then show ?thesis using assms
    by (simp add: find_successor_def self_or_none_def closest_preceding_node_eq rt_size_def
        local_successor_def)
qed

lemma find_successor_ok: "\<exists>p rt'. find_successor i rt = Inr (p, rt') \<and>
    rt_self rt' = rt_self rt \<and> rt_successor_list rt' = rt_successor_list rt \<and>
    rt_predecessor rt' = rt_predecessor rt"
proof (cases "rt_self rt")
  case None
  then show ?thesis by (auto simp: find_successor_def try_get_self_def)
next
  case (Some me)
  then show ?thesis by (simp add: find_successor_eq)
qed

text \<open>The operations keep the invariants.\<close>

lemma closest_preceding_ok:
  assumes "rt_inv rt"
  shows "snd (closest_preceding_node i rt) = rt" "\<exists>p. fst (closest_preceding_node i rt) = Some p"
  using assms by (auto simp: rt_inv_def closest_preceding_node_eq)

lemma find_successor_inv: "rt_inv rt \<Longrightarrow> find_successor i rt = Inr (p, rt') \<Longrightarrow> rt' = rt"
  by (auto simp: rt_inv_def find_successor_eq)

lemma fs_forward_request_ok:
  "world_inv w \<Longrightarrow> step_ok fs w (fs_forward_request env fs w)"
  unfolding fs_forward_request_def
  by (auto simp: step_simps closest_preceding_ok world_inv_def split: option.split intro!: step_ok_bind)

lemma fs_ops_ok:
  assumes w: "world_inv w" and b: "base_inv fs"
  shows "step_ok fs w (fs_create_request env fs w)"
    and "step_ok fs w (fs_handle_request env fs w)"
    and "step_ok fs w (fs_handle_response resp fs w)"
    and "step_ok fs w (fs_handle_forwarded_response env resp fs w)"
proof -
  have rt: "rt_inv (w_table w)" and st: "storage_inv (w_storage w)"
    using w by (simp_all add: world_inv_def)
  have conn: "mb_request fs = Some req \<Longrightarrow> ro_connection req \<noteq> ConnPeer None" for req
    using b by (simp add: base_inv_def request_sound_def)
  show "step_ok fs w (fs_create_request env fs w)"
    unfolding fs_create_request_def using w rt st
    by (auto simp: step_simps closest_preceding_ok split: option.split if_splits intro!: step_ok_bind
        dest!: find_successor_inv [OF rt])
  show "step_ok fs w (fs_handle_response resp fs w)"
    unfolding fs_handle_response_def using w by (auto simp: step_simps Let_def intro!: step_ok_bind)
  show "step_ok fs w (fs_handle_forwarded_response env resp fs w)"
    unfolding fs_handle_forwarded_response_def using w conn
    by (auto simp: step_simps split: option.split intro!: step_ok_bind)
  show "step_ok fs w (fs_handle_request env fs w)"
    unfolding fs_handle_request_def using w rt st conn fs_forward_request_ok [OF w]
    by (auto simp: step_simps split: option.split intro!: step_ok_bind
        dest!: find_successor_inv [OF rt])
qed

subsection \<open>Answering a lookup\<close>

text \<open>C23. What a node that knows itself and a successor does with a \<open>find_successor\<close> request.
  Without a peer in the message, the access to the first one is undefined. Otherwise either it
  knows the owner, answers with exactly that peer under the asker's transaction id and on the
  asker's connection and is done; or it sends the request on, for the same peer, to the closest
  preceding node of its table, registers the answer's handler under the id of the forwarded
  message, and stays.\<close>

theorem lookup_request_outcome:
  assumes "rt_self (w_table w) = Some me" "rt_successor_list (w_table w) = s # ss"
    "mb_request fs = Some req" "get_message req = Inr m"
  shows "case msg_peers m of
      [] \<Rightarrow> fs_handle_request env fs w = Inl FrontOfEmpty
    | p # _ \<Rightarrow>
        (case local_successor (peer_id p) me (s # ss) of
           Some owner \<Rightarrow>
             (\<exists>rm w'. fs_handle_request env fs w =
                 Inr (fs\<lparr>mb_state := DONE, mb_is_done := True\<rparr>, w', [Sig (set_message rm req), SigNotify]) \<and>
               msg_peers rm = [owner] \<and> \<not> is_request rm \<and>
               get_correlational_id rm = get_transaction_id m)
         | None \<Rightarrow>
             (\<exists>h fm r w'. fs_handle_request env fs w =
                 Inr (fs\<lparr>mb_handler_object := Some h\<rparr>, w', [SigH r h]) \<and>
               ro_connection r = ConnPeer (Some (closest (peer_id p) me (s # ss))) \<and>
               ro_message r = Some fm \<and> is_request fm \<and>
               get_request_type fm = ''find_successor'' \<and> msg_peers fm = [p] \<and>
               ho_correlation_id h = get_transaction_id fm \<and> ho_parent h = mb_oid fs \<and>
               ho_handler h = HandleForwardedResponse))"
  using assms
  by (auto simp: fs_handle_request_def fs_forward_request_def find_successor_eq
      closest_preceding_node_eq step_simps get_correlational_id_def get_transaction_id_def
      get_request_type_def split: list.split option.split)

text \<open>C24. The answer to a forwarded lookup is relayed: whatever node answered, the asker receives
  the first peer of that answer, on its own connection and under its own transaction id, and
  the object that relayed it is done.\<close>

theorem forwarded_answer_relayed:
  assumes "mb_request fs = Some req" "get_message req = Inr asked"
    "get_message resp = Inr answer" "msg_peers answer = owner # rest"
  shows "\<exists>rm w'. fs_handle_forwarded_response env resp fs w =
      Inr (fs\<lparr>mb_state := DONE, mb_is_done := True\<rparr>, w', [Sig (set_message rm req), SigNotify]) \<and>
    msg_peers rm = [owner] \<and> get_correlational_id rm = get_transaction_id asked \<and>
    \<not> is_request rm \<and> w_table w' = w_table w"
  using assms
  by (auto simp: fs_handle_forwarded_response_def step_simps get_correlational_id_def
      get_transaction_id_def)

text \<open>C34. The check for the number of peers of an answer has no effect: an answer with two or more
  peers, which the code calls invalid, still ends in DONE with the first of them.\<close>

theorem invalid_answer_accepted:
  assumes "get_message resp = Inr m" "msg_peers m = p # q # rest"
    "aw_value (fs_promise fs) = None"
  shows "\<exists>fs'. fs_handle_response resp fs w = Inr (fs', w, [SigNotify]) \<and>
    mb_state fs' = DONE \<and> mb_is_done fs' \<and> aw_value (fs_promise fs') = Some (Some p)"
  using assms by (simp add: fs_handle_response_def step_simps set_promise_def)

text \<open>C33. The empty peers that \<open>resize\<close> puts at the end of a short successor list take part in the
  routing: on a list of fewer than ten peers, a lookup of any id that is not greater than the
  node's own is forwarded to the peer without an address.\<close>

theorem padded_list_misroutes:
  assumes "rt_self rt = Some me" "length ps < succ_list_size"
    "i \<noteq> ''''" "peer_id me \<noteq> ''''" "i \<le> peer_id me"
  shows "closest_preceding_node i (replace_successor_list ps rt) =
    (Some Peer_empty, replace_successor_list ps rt)"
proof -
  let ?ps = "resize succ_list_size Peer_empty ps"
  have "\<exists>k. succ_list_size - length ps = Suc k" using assms(2) by presburger
  then obtain k where "?ps = take succ_list_size ps @ replicate k Peer_empty @ [Peer_empty]"
    by (metis resize_def replicate_Suc replicate_append_same)
  then have "rev ?ps = Peer_empty # rev (take succ_list_size ps @ replicate k Peer_empty)"
    by simp
  moreover have "between (peer_id me) (peer_id Peer_empty) i"
    using assms(3-5) by (cases i) (auto simp: between_def)
  ultimately have "closest i me ?ps = Peer_empty" by (simp add: closest_def)
  then show ?thesis using assms(1) by (simp add: closest_preceding_node_eq)
qed

subsection \<open>Examples\<close>

definition example_lookup :: "string \<Rightarrow> FindSuccessor" where
  "example_lookup i =
     FindSuccessor_new_request 0 (example_request ''find_successor'' [example_peer i]) 0"

lemma example_lookup_simps:
  "mb_request (example_lookup i) = Some (example_request ''find_successor'' [example_peer i])"
  "get_message (example_request ty ps) =
     Inr (Message_empty\<lparr>msg_header := Header_new True 0 0 ty ''t'' '''' '''', msg_peers := ps\<rparr>)"
  by (simp_all add: example_lookup_def FindSuccessor_new_defs example_request_def get_message_def
      set_connection_session_def set_message_def)

text \<open>Node \<open>b\<close> with successor \<open>d\<close> owns nothing of \<open>c\<close>: the answer is \<open>d\<close>. It does not know about \<open>e\<close>
  and sends that request to \<open>d\<close>.\<close>

lemma lookup_request_outcome_witness:
  "(\<exists>rm w'. fs_handle_request example_env (example_lookup ''c'') (example_world ''b'' [''d'']) =
      Inr ((example_lookup ''c'')\<lparr>mb_state := DONE, mb_is_done := True\<rparr>, w',
        [Sig (set_message rm (example_request ''find_successor'' [example_peer ''c''])), SigNotify]) \<and>
      msg_peers rm = [example_peer ''d'']) \<and>
   (\<exists>h r fs' w'. fs_handle_request example_env (example_lookup ''e'') (example_world ''b'' [''d'']) =
      Inr (fs', w', [SigH r h]) \<and> ro_connection r = ConnPeer (Some (example_peer ''d'')))"
proof
  show "\<exists>rm w'. fs_handle_request example_env (example_lookup ''c'') (example_world ''b'' [''d'']) =
      Inr ((example_lookup ''c'')\<lparr>mb_state := DONE, mb_is_done := True\<rparr>, w',
        [Sig (set_message rm (example_request ''find_successor'' [example_peer ''c''])), SigNotify]) \<and>
      msg_peers rm = [example_peer ''d'']"
    using lookup_request_outcome [OF _ _ example_lookup_simps(1) [of "''c''"] example_lookup_simps(2),
        where w = "example_world ''b'' [''d'']" and env = example_env and
        me = "example_peer ''b''" and s = "example_peer ''d''" and ss = "[]"]
    by (auto simp: example_lookup_simps local_successor_def between_def)
  show "\<exists>h r fs' w'. fs_handle_request example_env (example_lookup ''e'') (example_world ''b'' [''d'']) =
      Inr (fs', w', [SigH r h]) \<and> ro_connection r = ConnPeer (Some (example_peer ''d''))"
    using lookup_request_outcome [OF _ _ example_lookup_simps(1) [of "''e''"] example_lookup_simps(2),
        where w = "example_world ''b'' [''d'']" and env = example_env and
        me = "example_peer ''b''" and s = "example_peer ''d''" and ss = "[]"]
    by (force simp: example_lookup_simps local_successor_def between_def closest_def)
qed

lemma forwarded_answer_relayed_witness:
  "\<exists>rm w' fs'. fs_handle_forwarded_response example_env
      (example_request ''find_successor'' [example_peer ''d'']) (example_lookup ''c'')
      (example_world ''b'' [''d'']) =
    Inr (fs', w', [Sig (set_message rm (example_request ''find_successor'' [example_peer ''c''])), SigNotify]) \<and>
    msg_peers rm = [example_peer ''d''] \<and> get_correlational_id rm = ''t''"
  using forwarded_answer_relayed [OF example_lookup_simps example_lookup_simps(2),
      where w = "example_world ''b'' [''d'']" and env = example_env]
  by (fastforce simp: get_transaction_id_def Header_new_def)

lemma invalid_answer_accepted_witness:
  "\<exists>fs'. fs_handle_response (example_request ''find_successor'' [example_peer ''d'', example_peer ''e''])
      (example_lookup ''c'') (example_world ''b'' [''d'']) =
      Inr (fs', example_world ''b'' [''d''], [SigNotify]) \<and> mb_state fs' = DONE"
proof -
  have "aw_value (fs_promise (example_lookup ''c'')) = None"
    by (simp add: example_lookup_def FindSuccessor_new_defs)
  from invalid_answer_accepted [OF example_lookup_simps(2) _ this] show ?thesis by fastforce
qed

lemma padded_list_misroutes_witness:
  "fst (closest_preceding_node ''b''
     (replace_successor_list [example_peer ''a''] (w_table (example_world ''c'' [''a''])))) =
   Some Peer_empty"
  using padded_list_misroutes [of "w_table (example_world ''c'' [''a''])" "example_peer ''c''"
      "[example_peer ''a'']" "''b''"]
  by (simp add: succ_list_size_def)

end
