(* ===== verification/Leaf_Messages.thy ===== *)
theory Leaf_Messages
  imports Find_Successor
begin

section \<open>The other single-request messages\<close>

text \<open>
  \<open>query.cpp\<close>, \<open>notify.cpp\<close>, \<open>check_predecessor.cpp\<close>, \<open>get_successor_list.cpp\<close>,
  \<open>get_self_and_succ_list.cpp\<close> and \<open>get_pred_and_succ_list.cpp\<close>. Each class asks one question
  and answers it; \<open>create_request\<close> runs on the node that asks, \<open>handle_request\<close> on the one that
  answers, \<open>handle_response\<close> when the answer has arrived, \<open>handle_failed\<close> at a time-out.
\<close>

subsection \<open>Query: who am I?\<close>

record Query = MessagingBase +
  qu_target :: Peer
  qu_promise :: "Peer option Awaitable"

definition Query_new :: "oid \<Rightarrow> string \<Rightarrow> string \<Rightarrow> nat \<Rightarrow> Query" where
  "Query_new i address port now =
     MessagingBase.extend (MessagingBase_new i QUERY now)
       (Query.fields (Peer_new '''' address port) Awaitable_new)"

definition Query_new_request :: "oid \<Rightarrow> RequestObject \<Rightarrow> nat \<Rightarrow> Query" where
  "Query_new_request i r now =
     MessagingBase.extend (MessagingBase_new_request i QUERY r now)
       (Query.fields Peer_empty Awaitable_new)"

text \<open>An unset self is only logged: the message then holds an empty peer.\<close>

definition qu_create_request :: "Env \<Rightarrow> Query \<Rightarrow> world \<Rightarrow> Query step" where
  "qu_create_request env q w =
     (let (s, w1) = w_get_self w;
          self = (case s of None \<Rightarrow> Peer_empty | Some p \<Rightarrow> p);
          (m, w2) = w_create_request_peers env ''query'' [self] w1;
          r = set_connection_peer (Some (qu_target q))
                (set_message m (RequestObject_new (mb_type q) (w_now w2)))
      in send_with_handler r (get_transaction_id m) HandleResponse False q w2)"

definition qu_handle_request :: "Env \<Rightarrow> Query \<Rightarrow> world \<Rightarrow> Query step" where
  "qu_handle_request env q w =
     (case mb_request q of
        None \<Rightarrow> Inl BadOptionalAccess
      | Some req \<Rightarrow>
          res_bind (get_message req) (\<lambda>message.
          res_bind (front (msg_peers message)) (\<lambda>peer.
          res_bind (get_client_ip (en_remote_ip env) req) (\<lambda>client_ip.
            let client_id = generate_sha256_addr (en_sha env) client_ip (peer_port peer);
                peer' = peer\<lparr>peer_ip := client_ip, peer_id := client_id\<rparr>;
                (response_message, w1) =
                  w_generate_id env (add_peer peer' (generate_response message)) w
            in finish_as DONE q w1 [Sig (set_message response_message req)]))))"

definition qu_handle_response :: "RequestObject \<Rightarrow> Query \<Rightarrow> world \<Rightarrow> Query step" where
  "qu_handle_response resp q w =
     res_bind (get_message resp) (\<lambda>message.
       if length (msg_peers message) = 1 then
         res_bind (front (msg_peers message)) (\<lambda>peer.
           let w1 = w\<lparr>w_table := set_self peer (w_table w)\<rparr>;
               q1 = q\<lparr>mb_state := DONE\<rparr>
           in res_bind (set_promise (Some peer) (qu_promise q1)) (\<lambda>pr.
                RequestDestruction (q1\<lparr>qu_promise := pr\<rparr>) w1 []))
       else
         let q1 = q\<lparr>mb_state := FAILED\<rparr> in
         res_bind (set_promise None (qu_promise q1)) (\<lambda>pr.
           RequestDestruction (q1\<lparr>qu_promise := pr\<rparr>) w []))"

definition qu_handle_failed :: "Query \<Rightarrow> world \<Rightarrow> (Query \<times> world) res" where
  "qu_handle_failed q w =
     res_bind (set_promise None (qu_promise q)) (\<lambda>pr. Inr (q\<lparr>qu_promise := pr\<rparr>, w))"

subsection \<open>Notification: I may be your predecessor\<close>

record Notification = MessagingBase +
  no_promise :: "MESSAGE_STATE Awaitable"

definition Notification_new :: "oid \<Rightarrow> nat \<Rightarrow> Notification" where
  "Notification_new i now =
     MessagingBase.extend (MessagingBase_new i NOTIFICATION now) (Notification.fields Awaitable_new)"

definition Notification_new_request :: "oid \<Rightarrow> RequestObject \<Rightarrow> nat \<Rightarrow> Notification" where
  "Notification_new_request i r now =
     MessagingBase.extend (MessagingBase_new_request i NOTIFICATION r now)
       (Notification.fields Awaitable_new)"

definition Notification_destroy :: "Notification \<Rightarrow> Notification res" where
  "Notification_destroy n =
     res_bind (set_promise (mb_state n) (no_promise n)) (\<lambda>pr. Inr (n\<lparr>no_promise := pr\<rparr>))"

definition no_create_request :: "Env \<Rightarrow> Notification \<Rightarrow> world \<Rightarrow> Notification step" where
  "no_create_request env n w =
     (let (s, w1) = w_get_self w in
      case s of
        None \<Rightarrow> Inr (n\<lparr>mb_state := FAILED\<rparr>, w1, [])
      | Some self \<Rightarrow>
          if peer_id self = '''' then Inr (n\<lparr>mb_state := FAILED\<rparr>, w1, [])
          else
            let (t, w2) = w_get_successor w1 in
            case t of
              None \<Rightarrow> Inr (n\<lparr>mb_state := FAILED\<rparr>, w2, [])
            | Some target \<Rightarrow>
                let (m, w3) = w_create_request_peers env ''notify'' [self] w2;
                    r = set_connection_peer (Some target)
                          (set_message m (RequestObject_new (mb_type n) (w_now w3)))
                in send_with_handler r (get_transaction_id m) HandleResponse False n w3)"

text \<open>Without a predecessor the notifying peer becomes it, the state is FAILED and the object
  neither answers nor asks for its destruction.\<close>

definition no_handle_request :: "Env \<Rightarrow> Notification \<Rightarrow> world \<Rightarrow> Notification step" where
  "no_handle_request env n w =
     (case mb_request n of
        None \<Rightarrow> Inr (n\<lparr>mb_state := FAILED\<rparr>, w, [])
      | Some req \<Rightarrow>
          res_bind (get_message req) (\<lambda>message.
            if length (msg_peers message) \<noteq> 1 then Inr (n\<lparr>mb_state := FAILED\<rparr>, w, [])
            else
              res_bind (front (msg_peers message)) (\<lambda>notify_peer.
                if \<not> has_predecessor (w_table w) then
                  Inr (n\<lparr>mb_state := FAILED\<rparr>,
                       w\<lparr>w_table := set_predecessor notify_peer (w_table w)\<rparr>, [])
                else
                  let (p, w1) = w_get_predecessor w;
                      (s, w2) = w_get_self w1;
                      predecessor = (case p of None \<Rightarrow> Peer_empty | Some x \<Rightarrow> x);
                      self = (case s of None \<Rightarrow> Peer_empty | Some x \<Rightarrow> x);
                      w3 = (if between (peer_id predecessor) (peer_id notify_peer) (peer_id self)
                            then w2\<lparr>w_table := set_predecessor notify_peer (w_table w2)\<rparr>
                            else w2);
                      (response, w4) = w_generate_id env (generate_response message) w3
                  in finish_as DONE n w4 [Sig (set_message response req)])))"

definition no_handle_response :: "RequestObject \<Rightarrow> Notification \<Rightarrow> world \<Rightarrow> Notification step" where
  "no_handle_response resp n w = finish_as DONE n w []"

definition no_handle_failed :: "Notification \<Rightarrow> world \<Rightarrow> (Notification \<times> world) res" where
  "no_handle_failed n w = Inr (n\<lparr>mb_state := FAILED\<rparr>, w)"

subsection \<open>CheckPredecessor: are you alive?\<close>

text \<open>\<open>cp_has_flag\<close> is whether \<open>check_predecessor_flag_\<close> points to the handler's flag; the
  constructor for a request sets it to null.\<close>

record CheckPredecessor = MessagingBase +
  cp_has_flag :: bool
  cp_promise :: "MESSAGE_STATE Awaitable"

definition CheckPredecessor_new :: "oid \<Rightarrow> nat \<Rightarrow> CheckPredecessor" where
  "CheckPredecessor_new i now =
     MessagingBase.extend (MessagingBase_new i CHECK_PREDECESSOR now)
       (CheckPredecessor.fields True Awaitable_new)"

definition CheckPredecessor_new_request :: "oid \<Rightarrow> RequestObject \<Rightarrow> nat \<Rightarrow> CheckPredecessor" where
  "CheckPredecessor_new_request i r now =
     MessagingBase.extend (MessagingBase_new_request i CHECK_PREDECESSOR r now)
       (CheckPredecessor.fields False Awaitable_new)"

definition CheckPredecessor_destroy :: "CheckPredecessor \<Rightarrow> CheckPredecessor res" where
  "CheckPredecessor_destroy c =
     res_bind (set_promise (mb_state c) (cp_promise c)) (\<lambda>pr. Inr (c\<lparr>cp_promise := pr\<rparr>))"

definition cp_set_flag :: "bool \<Rightarrow> CheckPredecessor \<Rightarrow> world \<Rightarrow> world res" where
  "cp_set_flag b c w =
     (if cp_has_flag c then Inr (w\<lparr>w_check_predecessor_flag := b\<rparr>) else Inl NullPointer)"

definition cp_create_request :: "Env \<Rightarrow> CheckPredecessor \<Rightarrow> world \<Rightarrow> CheckPredecessor step" where
  "cp_create_request env c w =
     (let (t, w1) = w_get_predecessor w in
      case t of
        None \<Rightarrow> finish_as FAILED c w1 []
      | Some target \<Rightarrow>
          let (m, w2) = w_create_request env ''check_predecessor'' w1;
              r = set_connection_peer (Some target)
                    (set_message m (RequestObject_new (mb_type c) (w_now w2)))
          in res_bind (send_with_handler r (get_transaction_id m) HandleResponse False c w2)
               (\<lambda>(c', w3, sigs). res_bind (cp_set_flag True c' w3) (\<lambda>w4. Inr (c', w4, sigs))))"

definition cp_handle_request :: "Env \<Rightarrow> CheckPredecessor \<Rightarrow> world \<Rightarrow> CheckPredecessor step" where
  "cp_handle_request env c w =
     (case mb_request c of
        None \<Rightarrow> finish_as FAILED c w []
      | Some req \<Rightarrow>
          res_bind (get_message req) (\<lambda>message.
            let (response, w1) = w_generate_id env (generate_response message) w
            in finish_as DONE c w1 [Sig (set_message response req)]))"

definition cp_handle_response ::
  "RequestObject \<Rightarrow> CheckPredecessor \<Rightarrow> world \<Rightarrow> CheckPredecessor step" where
  "cp_handle_response resp c w =
     res_bind (cp_set_flag False c w) (\<lambda>w1.
     res_bind (get_message resp) (\<lambda>message.
       if \<not> is_request message then finish_as DONE c w1 []
       else Inr (c\<lparr>mb_state := FAILED\<rparr>, w1\<lparr>w_table := reset_predecessor (w_table w1)\<rparr>, [])))"

definition cp_handle_failed :: "CheckPredecessor \<Rightarrow> world \<Rightarrow> (CheckPredecessor \<times> world) res" where
  "cp_handle_failed c w =
     res_bind (cp_set_flag False c (w\<lparr>w_table := reset_predecessor (w_table w)\<rparr>))
       (\<lambda>w1. Inr (c\<lparr>mb_state := FAILED\<rparr>, w1))"

subsection \<open>GetSuccessorList\<close>

text \<open>\<open>*_has_table\<close> is whether the object's pointer to the routing table is set.\<close>

record GetSuccessorList = MessagingBase +
  sl_connection :: "Peer option"
  sl_has_table :: bool
  sl_promise :: "Peer list option Awaitable"

definition GetSuccessorList_new :: "oid \<Rightarrow> Peer \<Rightarrow> nat \<Rightarrow> GetSuccessorList" where
  "GetSuccessorList_new i conn now =
     MessagingBase.extend (MessagingBase_new i GET_SUCCESSOR_LIST now)
       (GetSuccessorList.fields (Some conn) False Awaitable_new)"

definition GetSuccessorList_new_request :: "oid \<Rightarrow> RequestObject \<Rightarrow> nat \<Rightarrow> GetSuccessorList" where
  "GetSuccessorList_new_request i r now =
     MessagingBase.extend (MessagingBase_new_request i GET_SUCCESSOR_LIST r now)
       (GetSuccessorList.fields None True Awaitable_new)"

definition sl_fail :: "GetSuccessorList \<Rightarrow> world \<Rightarrow> GetSuccessorList step" where
  "sl_fail l w =
     res_bind (set_promise None (sl_promise l)) (\<lambda>pr. finish_as FAILED (l\<lparr>sl_promise := pr\<rparr>) w [])"

definition sl_create_request :: "Env \<Rightarrow> GetSuccessorList \<Rightarrow> world \<Rightarrow> GetSuccessorList step" where
  "sl_create_request env l w =
     (case sl_connection l of
        None \<Rightarrow> sl_fail l w
      | Some conn \<Rightarrow>
          let (m, w1) = w_create_request env ''get_successor_list'' w;
              r = set_connection_peer (Some conn)
                    (set_message m (RequestObject_new (mb_type l) (w_now w1)))
          in send_with_handler r (get_transaction_id m) HandleResponse False l w1)"

definition sl_handle_request :: "Env \<Rightarrow> GetSuccessorList \<Rightarrow> world \<Rightarrow> GetSuccessorList step" where
  "sl_handle_request env l w =
     (if \<not> sl_has_table l then sl_fail l w
      else case mb_request l of
        None \<Rightarrow> Inl BadOptionalAccess
      | Some req \<Rightarrow>
          res_bind (get_message req) (\<lambda>message.
            let (response_message, w1) =
                  w_generate_id env
                    ((generate_response message)\<lparr>msg_peers := rt_get_peers (w_table w)\<rparr>) w
            in finish_as DONE l w1 [Sig (set_message response_message req)]))"

definition sl_handle_response ::
  "RequestObject \<Rightarrow> GetSuccessorList \<Rightarrow> world \<Rightarrow> GetSuccessorList step" where
  "sl_handle_response resp l w =
     res_bind (get_message resp) (\<lambda>message.
     res_bind (set_promise (Some (msg_peers message)) (sl_promise l)) (\<lambda>pr.
       finish_as DONE (l\<lparr>sl_promise := pr\<rparr>) w []))"

definition sl_handle_failed :: "GetSuccessorList \<Rightarrow> world \<Rightarrow> (GetSuccessorList \<times> world) res" where
  "sl_handle_failed l w =
     res_bind (set_promise None (sl_promise l))
       (\<lambda>pr. Inr (l\<lparr>sl_promise := pr, mb_state := FAILED\<rparr>, w))"

subsection \<open>GetSelfAndSuccList\<close>

record GetSelfAndSuccList = MessagingBase +
  ss_target :: "Peer option"
  ss_has_table :: bool
  ss_promise :: "Peer list option Awaitable"

definition GetSelfAndSuccList_new :: "oid \<Rightarrow> Peer \<Rightarrow> nat \<Rightarrow> GetSelfAndSuccList" where
  "GetSelfAndSuccList_new i target now =
     MessagingBase.extend (MessagingBase_new i GET_SELF_AND_SUCC_LIST now)
       (GetSelfAndSuccList.fields (Some target) False Awaitable_new)"

definition GetSelfAndSuccList_new_request ::
  "oid \<Rightarrow> RequestObject \<Rightarrow> nat \<Rightarrow> GetSelfAndSuccList" where
  "GetSelfAndSuccList_new_request i r now =
     MessagingBase.extend (MessagingBase_new_request i GET_SELF_AND_SUCC_LIST r now)
       (GetSelfAndSuccList.fields None True Awaitable_new)"

definition ss_fail :: "GetSelfAndSuccList \<Rightarrow> world \<Rightarrow> GetSelfAndSuccList step" where
  "ss_fail l w =
     res_bind (set_promise None (ss_promise l)) (\<lambda>pr. finish_as FAILED (l\<lparr>ss_promise := pr\<rparr>) w [])"

definition ss_create_request ::
  "Env \<Rightarrow> GetSelfAndSuccList \<Rightarrow> world \<Rightarrow> GetSelfAndSuccList step" where
  "ss_create_request env l w =
     (case ss_target l of
        None \<Rightarrow> ss_fail l w
      | Some target \<Rightarrow>
          let (m, w1) = w_create_request env ''get_self_and_successor_list'' w;
              r = set_connection_peer (Some target)
                    (set_message m (RequestObject_new UNKNOWN (w_now w1)))
          in send_with_handler r (get_transaction_id m) HandleResponse False l w1)"

definition ss_handle_request ::
  "Env \<Rightarrow> GetSelfAndSuccList \<Rightarrow> world \<Rightarrow> GetSelfAndSuccList step" where
  "ss_handle_request env l w =
     (case mb_request l of
        None \<Rightarrow> ss_fail l w
      | Some req \<Rightarrow>
          res_bind (get_message req) (\<lambda>message.
            if \<not> ss_has_table l then Inl NullPointer
            else
              let succ_list = rt_get_peers (w_table w);
                  (s, w1) = w_get_self w;
                  self = (case s of None \<Rightarrow> Peer_empty | Some p \<Rightarrow> p);
                  (response_message, w2) =
                    w_generate_id env
                      ((generate_response message)\<lparr>msg_peers := self # succ_list\<rparr>) w1
              in res_bind (set_promise None (ss_promise l)) (\<lambda>pr.
                   finish_as DONE (l\<lparr>ss_promise := pr\<rparr>) w2
                     [Sig (set_message response_message req)])))"

definition ss_handle_response ::
  "RequestObject \<Rightarrow> GetSelfAndSuccList \<Rightarrow> world \<Rightarrow> GetSelfAndSuccList step" where
  "ss_handle_response resp l w =
     res_bind (get_message resp) (\<lambda>message.
       if is_request message then ss_fail l w
       else
         res_bind (set_promise (Some (msg_peers message)) (ss_promise l)) (\<lambda>pr.
           finish_as DONE (l\<lparr>ss_promise := pr\<rparr>) w []))"

definition ss_handle_failed ::
  "GetSelfAndSuccList \<Rightarrow> world \<Rightarrow> (GetSelfAndSuccList \<times> world) res" where
  "ss_handle_failed l w =
     res_bind (set_promise None (ss_promise l))
       (\<lambda>pr. Inr (l\<lparr>mb_state := FAILED, ss_promise := pr\<rparr>, w))"

subsection \<open>GetPredAndSuccList\<close>

record GetPredAndSuccList = MessagingBase +
  ps_target :: "Peer option"
  ps_has_table :: bool
  ps_promise :: "Peer list option Awaitable"

definition GetPredAndSuccList_new :: "oid \<Rightarrow> Peer \<Rightarrow> nat \<Rightarrow> GetPredAndSuccList" where
  "GetPredAndSuccList_new i target now =
     MessagingBase.extend (MessagingBase_new i GET_PRED_AND_SUCC_LIST now)
       (GetPredAndSuccList.fields (Some target) False Awaitable_new)"

definition GetPredAndSuccList_new_request ::
  "oid \<Rightarrow> RequestObject \<Rightarrow> nat \<Rightarrow> GetPredAndSuccList" where
  "GetPredAndSuccList_new_request i r now =
     MessagingBase.extend (MessagingBase_new_request i GET_PRED_AND_SUCC_LIST r now)
       (GetPredAndSuccList.fields None True Awaitable_new)"

definition ps_fail :: "GetPredAndSuccList \<Rightarrow> world \<Rightarrow> GetPredAndSuccList step" where
  "ps_fail l w =
     res_bind (set_promise None (ps_promise l)) (\<lambda>pr. finish_as FAILED (l\<lparr>ps_promise := pr\<rparr>) w [])"

definition ps_create_request ::
  "Env \<Rightarrow> GetPredAndSuccList \<Rightarrow> world \<Rightarrow> GetPredAndSuccList step" where
  "ps_create_request env l w =
     (case ps_target l of
        None \<Rightarrow> ps_fail l w
      | Some target \<Rightarrow>
          let (m, w1) = w_create_request env ''get_predecessor_and_succ_list'' w;
              r = set_connection_peer (Some target)
                    (set_message m (RequestObject_new UNKNOWN (w_now w1)))
          in send_with_handler r (get_transaction_id m) HandleResponse False l w1)"

text \<open>Without a predecessor the response has no peers at all.\<close>

definition ps_handle_request ::
  "Env \<Rightarrow> GetPredAndSuccList \<Rightarrow> world \<Rightarrow> GetPredAndSuccList step" where
  "ps_handle_request env l w =
     (case mb_request l of
        None \<Rightarrow> ps_fail l w
      | Some req \<Rightarrow>
          res_bind (get_message req) (\<lambda>message.
            if \<not> ps_has_table l then Inl NullPointer
            else
              let (p, w1) = w_get_predecessor w;
                  response =
                    (case p of
                       None \<Rightarrow> generate_response message
                     | Some predecessor \<Rightarrow>
                         (generate_response message)
                           \<lparr>msg_peers := predecessor # rt_get_peers (w_table w1)\<rparr>);
                  (response', w2) = w_generate_id env response w1
              in res_bind (set_promise None (ps_promise l)) (\<lambda>pr.
                   finish_as DONE (l\<lparr>ps_promise := pr\<rparr>) w2 [Sig (set_message response' req)])))"

definition ps_handle_response ::
  "RequestObject \<Rightarrow> GetPredAndSuccList \<Rightarrow> world \<Rightarrow> GetPredAndSuccList step" where
  "ps_handle_response resp l w =
     res_bind (get_message resp) (\<lambda>message.
       if is_request message then ps_fail l w
       else
         res_bind (set_promise (Some (msg_peers message)) (ps_promise l)) (\<lambda>pr.
           finish_as DONE (l\<lparr>ps_promise := pr\<rparr>) w []))"

definition ps_handle_failed ::
  "GetPredAndSuccList \<Rightarrow> world \<Rightarrow> (GetPredAndSuccList \<times> world) res" where
  "ps_handle_failed l w = Inr (l\<lparr>mb_state := FAILED\<rparr>, w)"

subsection \<open>The operations keep the invariants\<close>

lemmas qu_defs = qu_create_request_def qu_handle_request_def qu_handle_response_def
lemmas no_defs = no_create_request_def no_handle_request_def no_handle_response_def
lemmas cp_defs = cp_create_request_def cp_handle_request_def cp_handle_response_def cp_set_flag_def
lemmas sl_defs = sl_create_request_def sl_handle_request_def sl_handle_response_def sl_fail_def
lemmas ss_defs = ss_create_request_def ss_handle_request_def ss_handle_response_def ss_fail_def
lemmas ps_defs = ps_create_request_def ps_handle_request_def ps_handle_response_def ps_fail_def

text \<open>The connection of a request the object answers is not null.\<close>

lemma base_inv_connection: "base_inv ob \<Longrightarrow> mb_request ob = Some req \<Longrightarrow> ro_connection req \<noteq> ConnPeer None"
  by (simp add: base_inv_def request_sound_def)

lemma rt_inv_self_ex: "rt_inv rt \<Longrightarrow> \<exists>me. rt_self rt = Some me"
  by (simp add: rt_inv_def)

lemma qu_ops_ok:
  assumes w: "world_inv w" and b: "base_inv q"
  shows "step_ok q w (qu_create_request env q w)" "step_ok q w (qu_handle_request env q w)"
    "step_ok q w (qu_handle_response resp q w)"
  using w base_inv_connection [OF b] world_invD [OF w]
  by (auto simp: qu_defs step_simps split: option.split if_splits intro!: step_ok_bind)

lemma no_ops_ok:
  assumes w: "world_inv w" and b: "base_inv n"
  shows "step_ok n w (no_create_request env n w)" "step_ok n w (no_handle_request env n w)"
    "step_ok n w (no_handle_response resp n w)"
  using w base_inv_connection [OF b] world_invD [OF w]
  by (auto simp: no_defs step_simps split: option.split list.split if_splits intro!: step_ok_bind)

lemma cp_ops_ok:
  assumes w: "world_inv w" and b: "base_inv c"
  shows "step_ok c w (cp_create_request env c w)" "step_ok c w (cp_handle_request env c w)"
    "step_ok c w (cp_handle_response resp c w)"
  using w base_inv_connection [OF b] world_invD [OF w]
  by (auto simp: cp_defs step_simps split: option.split if_splits intro!: step_ok_bind)

lemma sl_ops_ok:
  assumes w: "world_inv w" and b: "base_inv l"
  shows "step_ok l w (sl_create_request env l w)" "step_ok l w (sl_handle_request env l w)"
    "step_ok l w (sl_handle_response resp l w)"
  using w base_inv_connection [OF b] world_invD [OF w]
  by (auto simp: sl_defs step_simps split: option.split if_splits intro!: step_ok_bind)

lemma ss_ops_ok:
  assumes w: "world_inv w" and b: "base_inv l"
  shows "step_ok l w (ss_create_request env l w)" "step_ok l w (ss_handle_request env l w)"
    "step_ok l w (ss_handle_response resp l w)"
  using w base_inv_connection [OF b] world_invD [OF w]
  by (auto simp: ss_defs step_simps split: option.split if_splits intro!: step_ok_bind)

lemma ps_ops_ok:
  assumes w: "world_inv w" and b: "base_inv l"
  shows "step_ok l w (ps_create_request env l w)" "step_ok l w (ps_handle_request env l w)"
    "step_ok l w (ps_handle_response resp l w)"
  using w base_inv_connection [OF b] world_invD [OF w]
  by (auto simp: ps_defs step_simps split: option.split if_splits intro!: step_ok_bind)

end
