(* ===== verification/Get_File.thy ===== *)
theory Get_File
  imports Messaging
begin

section \<open>GetFile: the file transfer\<close>

text \<open>
  \<open>get_file.cpp\<close>: the two ends of a transfer. The receiver opens the file, asks the owner for it
  from the offset it already has, and writes every chunk that arrives until the position in the
  file reaches the announced size. The sender reads its file in chunks of \<open>DEFAULT_BUF_SIZE\<close>
  bytes; a chunk is read when the previous one has been written to the connection, by the
  callback \<open>write_file\<close>.

  \<open>ifstream\<close> is the standard library's input stream on a file's content: an operation on a stream
  that is not good sets the fail bit, and a read that reaches the end sets both bits. The
  content is the file's content when it was opened.
\<close>

subsection \<open>Input streams\<close>

record ifstream =
  is_open :: bool
  is_content :: "byte list"
  is_pos :: nat
  is_eof :: bool
  is_fail :: bool
  is_gcount :: nat

definition ifstream_empty :: ifstream where
  "ifstream_empty =
     \<lparr>is_open = False, is_content = [], is_pos = 0, is_eof = False, is_fail = False, is_gcount = 0\<rparr>"

text \<open>Opened with \<open>ate\<close>: the position is the end.\<close>

definition ifstream_opened :: "byte list \<Rightarrow> ifstream" where
  "ifstream_opened c =
     \<lparr>is_open = True, is_content = c, is_pos = length c, is_eof = False, is_fail = False,
      is_gcount = 0\<rparr>"

text \<open>\<open>seekg(off, beg)\<close> clears the end-of-file bit; a negative offset fails.\<close>

definition seekg_beg :: "u64 \<Rightarrow> ifstream \<Rightarrow> ifstream" where
  "seekg_beg off s =
     (let s1 = s\<lparr>is_eof := False\<rparr> in
      if is_fail s1 then s1
      else if is_open s1 \<and> 0 \<le> sint off then s1\<lparr>is_pos := unat off\<rparr>
      else s1\<lparr>is_fail := True\<rparr>)"

definition seekg_end :: "ifstream \<Rightarrow> ifstream" where
  "seekg_end s =
     (let s1 = s\<lparr>is_eof := False\<rparr> in
      if is_fail s1 then s1
      else if is_open s1 then s1\<lparr>is_pos := length (is_content s1)\<rparr>
      else s1\<lparr>is_fail := True\<rparr>)"

definition tellg :: "ifstream \<Rightarrow> int \<times> ifstream" where
  "tellg s =
     (let s1 = (if is_eof s \<or> is_fail s then s\<lparr>is_fail := True\<rparr> else s) in
      (if is_fail s1 \<or> \<not> is_open s1 then - 1 else int (is_pos s1), s1))"

definition is_read :: "nat \<Rightarrow> ifstream \<Rightarrow> byte list \<times> ifstream" where
  "is_read n s =
     (if is_eof s \<or> is_fail s then ([], s\<lparr>is_fail := True, is_gcount := 0\<rparr>)
      else
        let d = (if is_open s then take n (drop (is_pos s) (is_content s)) else []);
            s1 = s\<lparr>is_pos := is_pos s + length d, is_gcount := length d\<rparr>
        in (d, if length d \<noteq> n then s1\<lparr>is_eof := True, is_fail := True\<rparr> else s1))"

subsection \<open>The class\<close>

record GetFile = MessagingBase +
  gf_target :: "Peer option"
  gf_file_info :: "FileInfo option"
  gf_source :: ifstream
  gf_output :: "OfstreamWrapper option"
  gf_file_size :: u64

definition GetFile_new :: "oid \<Rightarrow> Peer \<Rightarrow> FileInfo \<Rightarrow> nat \<Rightarrow> GetFile" where
  "GetFile_new i target fi now =
     MessagingBase.extend (MessagingBase_new i GET_FILE now)
       (GetFile.fields (Some target) (Some fi) ifstream_empty None 0)"

definition GetFile_new_request :: "oid \<Rightarrow> RequestObject \<Rightarrow> nat \<Rightarrow> GetFile" where
  "GetFile_new_request i r now =
     MessagingBase.extend (MessagingBase_new_request i GET_FILE r now)
       (GetFile.fields None None ifstream_empty None 0)"

lemmas GetFile_new_defs =
  GetFile_new_def GetFile_new_request_def MessagingBase_new_def MessagingBase_new_request_def
  MessagingBase.defs GetFile.defs

text \<open>The destructor destroys the output stream.\<close>

definition GetFile_destroy :: "GetFile \<Rightarrow> world \<Rightarrow> world" where
  "GetFile_destroy g w =
     (case gf_output g of
        None \<Rightarrow> w
      | Some ow \<Rightarrow> w\<lparr>w_storage := ow_destroy ow (w_storage w)\<rparr>)"

subsection \<open>The receiver\<close>

definition gf_create_request :: "Env \<Rightarrow> GetFile \<Rightarrow> world \<Rightarrow> GetFile step" where
  "gf_create_request env g w =
     (case (gf_target g, gf_file_info g) of
        (Some target, Some fi) \<Rightarrow>
          let (m0, w1) =
                w_generate_id env
                  (Message_empty\<lparr>msg_header := Header_new True 0 0 ''get_file'' '''' '''' ''''\<rparr>) w;
              ((output, fi'), st) = create_file fi (w_storage w1);
              w2 = w1\<lparr>w_storage := st\<rparr>;
              m = add_file fi' m0;
              g1 = g\<lparr>gf_file_info := Some fi', gf_file_size := file_size fi'\<rparr>
          in (case output of
                None \<Rightarrow> finish_as FAILED g1 w2 []
              | Some ow \<Rightarrow>
                  let g2 = g1\<lparr>gf_output := Some ow\<rparr>;
                      r = set_connection_peer (Some target)
                            (set_message m (RequestObject_new UNKNOWN (w_now w2)))
                  in send_with_handler r (get_transaction_id m0) HandleResponse True g2 w2)
      | _ \<Rightarrow> finish_as FAILED g w [])"

text \<open>A chunk that arrives. \<open>Notify()\<close> in the middle tells the observer that the transfer is alive.
  The size is compared as a signed number.\<close>

definition gf_handle_response ::
  "Env \<Rightarrow> RequestObject \<Rightarrow> GetFile \<Rightarrow> world \<Rightarrow> GetFile step" where
  "gf_handle_response env resp g w =
     res_bind (get_message resp) (\<lambda>message.
       case (is_request message, gf_output g) of
         (False, Some ow) \<Rightarrow>
           if \<not> ow_good ow then finish_as FAILED g w []
           else
             (case msg_file_chunk message of
                None \<Rightarrow> Inl BadOptionalAccess
              | Some chunk \<Rightarrow>
                  res_bind (ow_write chunk ow (w_storage w)) (\<lambda>(ow', st).
                    let g1 = g\<lparr>gf_output := Some ow'\<rparr>; w1 = w\<lparr>w_storage := st\<rparr> in
                    if tellp ow' < sint (gf_file_size g1) then
                      let g2 = g1\<lparr>mb_time_point := w_now w1 + DURATION\<rparr> in
                      res_bind (get_session resp)
                        (\<lambda>s. Inr (g2, w1, [SigNotify, SigRead s]))
                    else
                      (case gf_file_info g1 of
                         None \<Rightarrow> Inl BadOptionalAccess
                       | Some fi \<Rightarrow>
                           let (ok, st') = finalize_file (en_digest env) fi (w_storage w1) in
                           finish_as (if ok then DONE else FAILED) g1 (w1\<lparr>w_storage := st'\<rparr>) [])))
       | _ \<Rightarrow> finish_as FAILED g w [])"

definition gf_handle_failed :: "GetFile \<Rightarrow> world \<Rightarrow> (GetFile \<times> world) res" where
  "gf_handle_failed g w = Inr (g\<lparr>mb_state := FAILED\<rparr>, w)"

subsection \<open>The sender\<close>

text \<open>\<open>write_buffer\<close> sends what the last read put into the buffer; the weak pointer that the write
  callback holds is the object's number.\<close>

definition gf_write_buffer ::
  "Env \<Rightarrow> byte list \<Rightarrow> u64 \<Rightarrow> GetFile \<Rightarrow> world \<Rightarrow> GetFile step" where
  "gf_write_buffer env buf off g w =
     (let g1 = g\<lparr>mb_time_point := w_now w + DURATION\<rparr> in
      case mb_request g1 of
        None \<Rightarrow> Inl BadOptionalAccess
      | Some req \<Rightarrow>
          res_bind (get_message req) (\<lambda>message.
            let (response, w1) =
                  w_generate_id env
                    ((generate_response message)
                      \<lparr>msg_file_chunk := Some (FileChunk_new buf (is_gcount (gf_source g1)) off)\<rparr>) w;
                r = set_on_write_handler (mb_oid g1) (set_message response req)
            in Inr (g1, w1, [Sig r])))"

text \<open>After a failed write the object is finished, but the function goes on to read and send.\<close>

definition gf_write_file :: "Env \<Rightarrow> bool \<Rightarrow> GetFile \<Rightarrow> world \<Rightarrow> GetFile step" where
  "gf_write_file env failed g w =
     (let (g1, sigs) =
            (if failed then (g\<lparr>mb_state := FAILED, mb_is_done := True\<rparr>, [SigNotify]) else (g, []))
      in if \<not> is_fail (gf_source g1) then
           let (off, s1) = tellg (gf_source g1);
               (buf, s2) = is_read DEFAULT_BUF_SIZE s1;
               g2 = g1\<lparr>gf_source := s2\<rparr>
           in if is_fail s2 \<and> \<not> is_eof s2 then finish_as FAILED g2 w sigs
              else
                res_bind (gf_write_buffer env buf (word_of_int off) g2 w)
                  (\<lambda>(g3, w1, sigs'). Inr (g3, w1, sigs @ sigs'))
         else Inr (g1, w, sigs))"

definition gf_handle_request :: "Env \<Rightarrow> GetFile \<Rightarrow> world \<Rightarrow> GetFile step" where
  "gf_handle_request env g w =
     (case mb_request g of
        None \<Rightarrow> finish_as FAILED g w []
      | Some req \<Rightarrow>
          res_bind (get_message req) (\<lambda>message.
          res_bind (front (msg_files message)) (\<lambda>fi.
            if \<not> file_info_exists fi (w_storage w) then finish_as FAILED g w []
            else
              (case read_file fi (w_storage w) of
                 None \<Rightarrow> finish_as FAILED g w []
               | Some c \<Rightarrow>
                   let s1 = seekg_end (ifstream_opened c);
                       (size', s2) = tellg s1;
                       s3 = seekg_beg (file_offset fi) s2
                   in gf_write_file env False (g\<lparr>gf_source := s3\<rparr>) w))))"

subsection \<open>The operations keep the invariants\<close>

lemma gf_write_buffer_ok:
  "world_inv w \<Longrightarrow> base_inv g \<Longrightarrow> step_ok g w (gf_write_buffer env buf off g w)"
  by (auto simp: gf_write_buffer_def step_simps base_inv_def request_sound_def
      split: option.split intro!: step_ok_bind)

lemma gf_write_file_ok:
  assumes w: "world_inv w" and b: "base_inv g"
  shows "step_ok g w (gf_write_file env failed g w)"
  using assms
  by (auto simp: gf_write_file_def gf_write_buffer_def step_simps base_inv_def request_sound_def
      split: option.split intro!: step_ok_bind elim!: res_bind_InrE)

lemma step_ok_source: "step_ok (g\<lparr>gf_source := s\<rparr>) w r = step_ok g w r"
  unfolding step_ok_def by simp

lemma base_inv_source: "base_inv (g\<lparr>gf_source := s\<rparr>) = base_inv g"
  unfolding base_inv_def by simp

lemma gf_write_file_source_ok:
  "world_inv w \<Longrightarrow> base_inv g \<Longrightarrow>
     step_ok g w (gf_write_file env failed (g\<lparr>gf_source := s\<rparr>) w)"
  using gf_write_file_ok [of w "g\<lparr>gf_source := s\<rparr>" env failed]
  unfolding step_ok_source base_inv_source .

lemma create_file_storage_inv:
  "storage_inv st \<Longrightarrow> storage_inv (snd (create_file fi st))"
  by (cases "create_file fi st") (auto intro: storage_inv_create)

lemma gf_ops_ok:
  assumes w: "world_inv w" and b: "base_inv g"
  shows "step_ok g w (gf_create_request env g w)"
    and "step_ok g w (gf_handle_response env resp g w)"
    and "step_ok g w (gf_handle_request env g w)"
proof -
  have rt: "rt_inv (w_table w)" and st: "storage_inv (w_storage w)"
    using w by (simp_all add: world_inv_def)
  show "step_ok g w (gf_create_request env g w)"
    unfolding gf_create_request_def using rt st create_file_storage_inv [OF st]
    by (auto simp: step_simps world_inv_def add_file_def is_request_def Header_new_def
        split: option.split)
  show "step_ok g w (gf_handle_response env resp g w)"
    unfolding gf_handle_response_def using w rt
      ow_write_inv [OF _ st] storage_inv_finalize
    by (auto simp: step_simps split: option.split bool.split intro!: step_ok_bind)
  show "step_ok g w (gf_handle_request env g w)"
    unfolding gf_handle_request_def using w b gf_write_file_source_ok [OF w b]
    by (auto simp: step_simps split: option.split intro!: step_ok_bind)
qed

end
