(* ===== verification/Composite_Messages.thy ===== *)
theory Composite_Messages
  imports Leaf_Messages Get_File
begin

section \<open>Messages made of messages\<close>

text \<open>
  \<open>join.cpp\<close>, \<open>stabilize.cpp\<close> and \<open>broadcast_file_list.cpp\<close>: the classes that drive other
  messages, their \<open>dependencies_\<close>. A composite is the observer of its dependencies: what they
  notify is passed on, and \<open>Notify()\<close>, by which a dependency says that it has finished, makes the
  composite take its next step.

  The sum \<open>leaf\<close> is the single messages behind their common base class, with the virtual
  functions as case distinctions. \<open>absorb\<close> is the delivery of a dependency's notifications to its
  composite, one after the other.
\<close>

subsection \<open>Single messages behind the base class\<close>

datatype leaf =
    LQuery Query
  | LFindSuccessor FindSuccessor
  | LNotification Notification
  | LCheckPredecessor CheckPredecessor
  | LGetSuccessorList GetSuccessorList
  | LGetSelfAndSuccList GetSelfAndSuccList
  | LGetPredAndSuccList GetPredAndSuccList
  | LGetFile GetFile

fun leaf_base :: "leaf \<Rightarrow> MessagingBase" where
  "leaf_base (LQuery m) = MessagingBase.truncate m"
| "leaf_base (LFindSuccessor m) = MessagingBase.truncate m"
| "leaf_base (LNotification m) = MessagingBase.truncate m"
| "leaf_base (LCheckPredecessor m) = MessagingBase.truncate m"
| "leaf_base (LGetSuccessorList m) = MessagingBase.truncate m"
| "leaf_base (LGetSelfAndSuccList m) = MessagingBase.truncate m"
| "leaf_base (LGetPredAndSuccList m) = MessagingBase.truncate m"
| "leaf_base (LGetFile m) = MessagingBase.truncate m"

definition leaf_oid :: "leaf \<Rightarrow> oid" where "leaf_oid l = mb_oid (leaf_base l)"

definition leaf_is_done :: "leaf \<Rightarrow> bool" where "leaf_is_done l = mb_is_done (leaf_base l)"

definition leaf_state :: "leaf \<Rightarrow> MESSAGE_STATE" where "leaf_state l = mb_state (leaf_base l)"

definition lift_step :: "('a \<Rightarrow> 'b) \<Rightarrow> 'a step \<Rightarrow> 'b step" where
  "lift_step c r = res_bind r (\<lambda>(ob, w, sigs). Inr (c ob, w, sigs))"

definition lift_state ::
  "('a \<Rightarrow> 'b) \<Rightarrow> (MESSAGE_STATE \<times> 'a \<times> world) res \<Rightarrow> (MESSAGE_STATE \<times> 'b \<times> world) res" where
  "lift_state c r = res_bind r (\<lambda>(st, ob, w). Inr (st, c ob, w))"

text \<open>\<open>operator()\<close>, a response through one of the object's handlers, the write callback.\<close>

fun leaf_run :: "Env \<Rightarrow> leaf \<Rightarrow> world \<Rightarrow> leaf step" where
  "leaf_run env (LQuery m) w =
     lift_step LQuery (run_message (qu_handle_request env) (qu_create_request env) m w)"
| "leaf_run env (LFindSuccessor m) w =
     lift_step LFindSuccessor (run_message (fs_handle_request env) (fs_create_request env) m w)"
| "leaf_run env (LNotification m) w =
     lift_step LNotification (run_message (no_handle_request env) (no_create_request env) m w)"
| "leaf_run env (LCheckPredecessor m) w =
     lift_step LCheckPredecessor (run_message (cp_handle_request env) (cp_create_request env) m w)"
| "leaf_run env (LGetSuccessorList m) w =
     lift_step LGetSuccessorList (run_message (sl_handle_request env) (sl_create_request env) m w)"
| "leaf_run env (LGetSelfAndSuccList m) w =
     lift_step LGetSelfAndSuccList (run_message (ss_handle_request env) (ss_create_request env) m w)"
| "leaf_run env (LGetPredAndSuccList m) w =
     lift_step LGetPredAndSuccList (run_message (ps_handle_request env) (ps_create_request env) m w)"
| "leaf_run env (LGetFile m) w =
     lift_step LGetFile (run_message (gf_handle_request env) (gf_create_request env) m w)"

fun leaf_handle :: "Env \<Rightarrow> handler_fn \<Rightarrow> RequestObject \<Rightarrow> leaf \<Rightarrow> world \<Rightarrow> leaf step" where
  "leaf_handle env f resp (LQuery m) w = lift_step LQuery (qu_handle_response resp m w)"
| "leaf_handle env f resp (LFindSuccessor m) w =
     lift_step LFindSuccessor
       (case f of
          HandleResponse \<Rightarrow> fs_handle_response resp m w
        | HandleForwardedResponse \<Rightarrow> fs_handle_forwarded_response env resp m w)"
| "leaf_handle env f resp (LNotification m) w = lift_step LNotification (no_handle_response resp m w)"
| "leaf_handle env f resp (LCheckPredecessor m) w =
     lift_step LCheckPredecessor (cp_handle_response resp m w)"
| "leaf_handle env f resp (LGetSuccessorList m) w =
     lift_step LGetSuccessorList (sl_handle_response resp m w)"
| "leaf_handle env f resp (LGetSelfAndSuccList m) w =
     lift_step LGetSelfAndSuccList (ss_handle_response resp m w)"
| "leaf_handle env f resp (LGetPredAndSuccList m) w =
     lift_step LGetPredAndSuccList (ps_handle_response resp m w)"
| "leaf_handle env f resp (LGetFile m) w = lift_step LGetFile (gf_handle_response env resp m w)"

text \<open>Only a \<open>GetFile\<close> registers a write callback; for another class the cast gives null.\<close>

fun leaf_on_write :: "Env \<Rightarrow> bool \<Rightarrow> leaf \<Rightarrow> world \<Rightarrow> leaf step" where
  "leaf_on_write env failed (LGetFile m) w = lift_step LGetFile (gf_write_file env failed m w)"
| "leaf_on_write env failed l w = Inr (l, w, [])"

fun leaf_check_state :: "leaf \<Rightarrow> world \<Rightarrow> (MESSAGE_STATE \<times> leaf \<times> world) res" where
  "leaf_check_state (LQuery m) w =
     lift_state LQuery (check_state qu_handle_failed no_dependencies m w)"
| "leaf_check_state (LFindSuccessor m) w =
     lift_state LFindSuccessor (check_state fs_handle_failed no_dependencies m w)"
| "leaf_check_state (LNotification m) w =
     lift_state LNotification (check_state no_handle_failed no_dependencies m w)"
| "leaf_check_state (LCheckPredecessor m) w =
     lift_state LCheckPredecessor (check_state cp_handle_failed no_dependencies m w)"
| "leaf_check_state (LGetSuccessorList m) w =
     lift_state LGetSuccessorList (check_state sl_handle_failed no_dependencies m w)"
| "leaf_check_state (LGetSelfAndSuccList m) w =
     lift_state LGetSelfAndSuccList (check_state ss_handle_failed no_dependencies m w)"
| "leaf_check_state (LGetPredAndSuccList m) w =
     lift_state LGetPredAndSuccList (check_state ps_handle_failed no_dependencies m w)"
| "leaf_check_state (LGetFile m) w =
     lift_state LGetFile (check_state gf_handle_failed no_dependencies m w)"

fun leaf_destroy :: "leaf \<Rightarrow> world \<Rightarrow> world" where
  "leaf_destroy (LGetFile m) w = GetFile_destroy m w"
| "leaf_destroy l w = w"

subsection \<open>Dependencies\<close>

type_synonym dependencies = "(leaf \<times> bool) list"

text \<open>The \<open>any_of\<close> of \<open>check_state\<close>: it stops at the first essential dependency that has failed.\<close>

fun any_expired :: "dependencies \<Rightarrow> world \<Rightarrow> (bool \<times> dependencies \<times> world) res" where
  "any_expired [] w = Inr (False, [], w)"
| "any_expired ((l, essential) # ds) w =
     res_bind (leaf_check_state l w) (\<lambda>(st, l', w').
       if (st = FAILED \<or> st = TIMEDOUT) \<and> essential then Inr (True, (l', essential) # ds, w')
       else
         res_bind (any_expired ds w')
           (\<lambda>(b, ds', w''). Inr (b, (l', essential) # ds', w'')))"

fun absorb :: "(signal \<Rightarrow> 'o \<Rightarrow> world \<Rightarrow> 'o step) \<Rightarrow> signal list \<Rightarrow> 'o \<Rightarrow> world \<Rightarrow> 'o step" where
  "absorb on_signal [] ob w = Inr (ob, w, [])"
| "absorb on_signal (s # ss) ob w =
     res_bind (on_signal s ob w) (\<lambda>(ob1, w1, out1).
     res_bind (absorb on_signal ss ob1 w1) (\<lambda>(ob2, w2, out2). Inr (ob2, w2, out1 @ out2)))"

definition new_oid :: "world \<Rightarrow> oid \<times> world" where
  "new_oid w = (w_next_oid w, w\<lparr>w_next_oid := Suc (w_next_oid w)\<rparr>)"

text \<open>A dependency runs inside a function of its composite. A \<open>Notify()\<close> of the dependency at
  that moment ends in \<open>clash\<close>: for \<open>Join\<close> the same thread locks the composite's mutex again.\<close>

definition run_child :: "crash \<Rightarrow> Env \<Rightarrow> leaf \<Rightarrow> world \<Rightarrow> leaf step" where
  "run_child clash env l w =
     res_bind (leaf_run env l w) (\<lambda>(l', w', sigs).
       if List.member sigs SigNotify then Inl clash else Inr (l', w', sigs))"

definition set_child :: "leaf \<Rightarrow> dependencies \<Rightarrow> dependencies" where
  "set_child l ds = map (\<lambda>(d, e). if leaf_oid d = leaf_oid l then (l, e) else (d, e)) ds"

subsection \<open>Join\<close>

record Join = MessagingBase +
  jo_target :: Peer
  jo_deps :: dependencies
  jo_promise :: "MESSAGE_STATE Awaitable"

definition Join_new :: "oid \<Rightarrow> string \<Rightarrow> string \<Rightarrow> world \<Rightarrow> Join \<times> world" where
  "Join_new i address port w =
     (let (c, w1) = new_oid w in
      (MessagingBase.extend (MessagingBase_new i JOIN (w_now w))
         (Join.fields (Peer_new '''' address port)
            [(LQuery (Query_new c address port (w_now w)), True)] Awaitable_new), w1))"

definition join_start_child :: "Env \<Rightarrow> leaf \<Rightarrow> Join \<Rightarrow> world \<Rightarrow> Join step" where
  "join_start_child env l j w =
     res_bind (run_child SelfDeadlock env l w)
       (\<lambda>(l', w', sigs).
          Inr (j\<lparr>jo_deps := [(l', True)], mb_time_point := w_now w + DURATION\<rparr>, w', sigs))"

definition handle_query_notify :: "Env \<Rightarrow> Query \<Rightarrow> Join \<Rightarrow> world \<Rightarrow> Join step" where
  "handle_query_notify env q j w =
     res_bind (future_get (qu_promise q)) (\<lambda>self.
       let (i, w1) = new_oid w in
       join_start_child env
         (LFindSuccessor (FindSuccessor_new_target i (jo_target j) (peer_id self) (w_now w))) j w1)"

definition handle_find_successor_notify :: "Env \<Rightarrow> FindSuccessor \<Rightarrow> Join \<Rightarrow> world \<Rightarrow> Join step" where
  "handle_find_successor_notify env fs j w =
     res_bind (future_get (fs_promise fs)) (\<lambda>successor.
       let w1 = w\<lparr>w_table := set_successor successor (w_table w)\<rparr>; (i, w2) = new_oid w1 in
       join_start_child env
         (LGetSuccessorList (GetSuccessorList_new i successor (w_now w))) j w2)"

definition handle_get_successor_list_notify ::
  "Env \<Rightarrow> GetSuccessorList \<Rightarrow> Join \<Rightarrow> world \<Rightarrow> Join step" where
  "handle_get_successor_list_notify env l j w =
     res_bind (future_get (sl_promise l)) (\<lambda>successor_list.
     res_bind (replace_after_successor successor_list (w_table w)) (\<lambda>rt.
       finish_as DONE j (w\<lparr>w_table := rt\<rparr>) []))"

definition join_notify :: "Env \<Rightarrow> Join \<Rightarrow> world \<Rightarrow> Join step" where
  "join_notify env j w =
     res_bind (front (jo_deps j)) (\<lambda>(l, e).
       if \<not> leaf_is_done l \<or> leaf_state l \<noteq> DONE then finish_as FAILED j w []
       else
         (case l of
            LQuery q \<Rightarrow> handle_query_notify env q j w
          | LFindSuccessor fs \<Rightarrow> handle_find_successor_notify env fs j w
          | LGetSuccessorList l \<Rightarrow> handle_get_successor_list_notify env l j w
          | _ \<Rightarrow> Inr (j, w, [])))"

definition join_on_signal :: "Env \<Rightarrow> signal \<Rightarrow> Join \<Rightarrow> world \<Rightarrow> Join step" where
  "join_on_signal env s j w = (if s = SigNotify then join_notify env j w else Inr (j, w, [s]))"

text \<open>\<open>create_request\<close> starts the first dependency, the query.\<close>

definition join_create_request :: "Env \<Rightarrow> Join \<Rightarrow> world \<Rightarrow> Join step" where
  "join_create_request env j w =
     res_bind (front (jo_deps j)) (\<lambda>(l, e).
     res_bind (run_child SelfDeadlock env l w) (\<lambda>(l', w', sigs).
       Inr (j\<lparr>jo_deps := (l', e) # tl (jo_deps j)\<rparr>, w', sigs)))"

definition join_handle_failed :: "Join \<Rightarrow> world \<Rightarrow> (Join \<times> world) res" where
  "join_handle_failed j w = Inr (j\<lparr>mb_state := FAILED\<rparr>, w)"

definition join_any_expired :: "Join \<Rightarrow> world \<Rightarrow> (bool \<times> Join \<times> world) res" where
  "join_any_expired j w =
     res_bind (any_expired (jo_deps j) w) (\<lambda>(b, ds, w'). Inr (b, j\<lparr>jo_deps := ds\<rparr>, w'))"

definition join_child :: "Env \<Rightarrow> leaf step \<Rightarrow> Join \<Rightarrow> Join step" where
  "join_child env r j =
     res_bind r (\<lambda>(l, w, sigs).
       absorb (join_on_signal env) sigs (j\<lparr>jo_deps := set_child l (jo_deps j)\<rparr>) w)"

definition Join_destroy :: "Join \<Rightarrow> Join res" where
  "Join_destroy j =
     res_bind (set_promise (mb_state j) (jo_promise j)) (\<lambda>pr. Inr (j\<lparr>jo_promise := pr\<rparr>))"

subsection \<open>Stabilize\<close>

text \<open>\<open>sb_has_flag\<close> is whether \<open>stabilize_flag_\<close> points to the handler's flag.\<close>

record Stabilize = MessagingBase +
  sb_has_flag :: bool
  sb_deps :: dependencies
  sb_promise :: "MESSAGE_STATE Awaitable"

definition Stabilize_new :: "oid \<Rightarrow> nat \<Rightarrow> Stabilize" where
  "Stabilize_new i now =
     MessagingBase.extend (MessagingBase_new i STABILIZE now)
       (Stabilize.fields True [] Awaitable_new)"

definition sb_clear_flag :: "Stabilize \<Rightarrow> world \<Rightarrow> world res" where
  "sb_clear_flag s w =
     (if sb_has_flag s then Inr (w\<lparr>w_stabilize_flag := False\<rparr>) else Inl NullPointer)"

definition sb_failed :: "Stabilize \<Rightarrow> world \<Rightarrow> Stabilize step" where
  "sb_failed s w = res_bind (sb_clear_flag s w) (\<lambda>w'. finish_as FAILED s w' [])"

text \<open>A new dependency is put in front and started.\<close>

definition sb_start_child :: "Env \<Rightarrow> leaf \<Rightarrow> Stabilize \<Rightarrow> world \<Rightarrow> Stabilize step" where
  "sb_start_child env l s w =
     res_bind (run_child Reentrant env l w)
       (\<lambda>(l', w', sigs). Inr (s\<lparr>sb_deps := (l', True) # sb_deps s\<rparr>, w', sigs))"

definition create_notification :: "Env \<Rightarrow> Stabilize \<Rightarrow> world \<Rightarrow> Stabilize step" where
  "create_notification env s w =
     (let (i, w1) = new_oid w in
      sb_start_child env (LNotification (Notification_new i (w_now w))) s w1)"

definition handle_get_pred_and_succ_list_notify ::
  "Env \<Rightarrow> GetPredAndSuccList \<Rightarrow> Stabilize \<Rightarrow> world \<Rightarrow> Stabilize step" where
  "handle_get_pred_and_succ_list_notify env l s w =
     res_bind (future_get (ps_promise l)) (\<lambda>PredAndSuccList.
       let s1 = s\<lparr>mb_time_point := w_now w + DURATION\<rparr> in
       case PredAndSuccList of
         [] \<Rightarrow>
           let w1 = w\<lparr>w_table := snd (rt_pop_front (w_table w))\<rparr> in
           res_bind (sb_clear_flag s1 w1) (\<lambda>w2. create_notification env s1 w2)
       | successors_predecessor # rest \<Rightarrow>
           let (me, w1) = w_get_self w in
           (case me of
              None \<Rightarrow> sb_failed s1 w1
            | Some self \<Rightarrow>
                let list = (if rest \<noteq> [] then rest else [successors_predecessor]);
                    (sc, w2) = w_get_successor w1
                in (case sc of
                      None \<Rightarrow> sb_failed s1 w2
                    | Some successor \<Rightarrow>
                        let w3 = w2\<lparr>w_table := replace_successor_list (successor # list) (w_table w2)\<rparr>
                        in if between (peer_id self) (peer_id successors_predecessor) (peer_id successor)
                           then
                             let (i, w4) = new_oid w3 in
                             sb_start_child env
                               (LGetSelfAndSuccList
                                 (GetSelfAndSuccList_new i successors_predecessor (w_now w4))) s1 w4
                           else
                             res_bind (create_notification env s1 w3) (\<lambda>(s2, w4, sigs).
                             res_bind (sb_clear_flag s2 w4) (\<lambda>w5. Inr (s2, w5, sigs))))))"

definition handle_get_self_and_succ_list_notify ::
  "Env \<Rightarrow> GetSelfAndSuccList \<Rightarrow> Stabilize \<Rightarrow> world \<Rightarrow> Stabilize step" where
  "handle_get_self_and_succ_list_notify env l s w =
     res_bind (future_get (ss_promise l)) (\<lambda>SelfAndSuccList.
       let s1 = s\<lparr>mb_time_point := w_now w + DURATION\<rparr>;
           w1 = w\<lparr>w_table := replace_successor_list SelfAndSuccList (w_table w)\<rparr>
       in res_bind (sb_clear_flag s1 w1) (\<lambda>w2. create_notification env s1 w2))"

definition handle_notification_notify :: "Stabilize \<Rightarrow> world \<Rightarrow> Stabilize step" where
  "handle_notification_notify s w = finish_as DONE s w []"

definition mark_retrieved :: "leaf \<Rightarrow> leaf" where
  "mark_retrieved l =
     (case l of
        LGetPredAndSuccList m \<Rightarrow>
          LGetPredAndSuccList (m\<lparr>ps_promise := (ps_promise m)\<lparr>aw_retrieved := True\<rparr>\<rparr>)
      | LGetSelfAndSuccList m \<Rightarrow>
          LGetSelfAndSuccList (m\<lparr>ss_promise := (ss_promise m)\<lparr>aw_retrieved := True\<rparr>\<rparr>)
      | _ \<Rightarrow> l)"

text \<open>The function looks at the first dependency, whichever one has notified. Getting the future
  of a dependency that stays in the list leaves its promise without a future to give.\<close>

definition sb_notify :: "Env \<Rightarrow> Stabilize \<Rightarrow> world \<Rightarrow> Stabilize step" where
  "sb_notify env s w =
     res_bind (front (sb_deps s)) (\<lambda>(l, e).
       if \<not> leaf_is_done l \<or> leaf_state l \<noteq> DONE then sb_failed s w
       else
         let s1 = s\<lparr>sb_deps := (mark_retrieved l, e) # tl (sb_deps s)\<rparr> in
         (case l of
            LGetPredAndSuccList m \<Rightarrow> handle_get_pred_and_succ_list_notify env m s1 w
          | LGetSelfAndSuccList m \<Rightarrow> handle_get_self_and_succ_list_notify env m s1 w
          | LNotification m \<Rightarrow> handle_notification_notify s1 w
          | _ \<Rightarrow> Inr (s1, w, [])))"

definition sb_on_signal :: "Env \<Rightarrow> signal \<Rightarrow> Stabilize \<Rightarrow> world \<Rightarrow> Stabilize step" where
  "sb_on_signal env sg s w = (if sg = SigNotify then sb_notify env s w else Inr (s, w, [sg]))"

definition sb_create_request :: "Env \<Rightarrow> Stabilize \<Rightarrow> world \<Rightarrow> Stabilize step" where
  "sb_create_request env s w =
     (let (t, w1) = w_get_successor w in
      case t of
        None \<Rightarrow> sb_failed s w1
      | Some target \<Rightarrow>
          let (i, w2) = new_oid w1 in
          sb_start_child env (LGetPredAndSuccList (GetPredAndSuccList_new i target (w_now w2))) s w2)"

definition sb_handle_failed :: "Stabilize \<Rightarrow> world \<Rightarrow> (Stabilize \<times> world) res" where
  "sb_handle_failed s w =
     (let w1 = (if length (sb_deps s) = 1 then w\<lparr>w_table := snd (rt_pop_front (w_table w))\<rparr> else w) in
      res_bind (sb_clear_flag s w1) (\<lambda>w2. Inr (s\<lparr>mb_state := FAILED\<rparr>, w2)))"

definition sb_any_expired :: "Stabilize \<Rightarrow> world \<Rightarrow> (bool \<times> Stabilize \<times> world) res" where
  "sb_any_expired s w =
     res_bind (any_expired (sb_deps s) w) (\<lambda>(b, ds, w'). Inr (b, s\<lparr>sb_deps := ds\<rparr>, w'))"

definition sb_child :: "Env \<Rightarrow> leaf step \<Rightarrow> Stabilize \<Rightarrow> Stabilize step" where
  "sb_child env r s =
     res_bind r (\<lambda>(l, w, sigs).
       absorb (sb_on_signal env) sigs (s\<lparr>sb_deps := set_child l (sb_deps s)\<rparr>) w)"

definition Stabilize_destroy :: "Stabilize \<Rightarrow> Stabilize res" where
  "Stabilize_destroy s =
     res_bind (set_promise (mb_state s) (sb_promise s)) (\<lambda>pr. Inr (s\<lparr>sb_promise := pr\<rparr>))"

subsection \<open>BroadcastFilelist\<close>

record BroadcastFilelist = MessagingBase +
  bf_deps :: dependencies
  bf_flag :: bool

definition BroadcastFilelist_new :: "oid \<Rightarrow> nat \<Rightarrow> BroadcastFilelist" where
  "BroadcastFilelist_new i now =
     MessagingBase.extend (MessagingBase_new i BROADCAST_FILELIST now)
       (BroadcastFilelist.fields [] True)"

definition BroadcastFilelist_new_request :: "oid \<Rightarrow> RequestObject \<Rightarrow> nat \<Rightarrow> BroadcastFilelist" where
  "BroadcastFilelist_new_request i r now =
     MessagingBase.extend (MessagingBase_new_request i BROADCAST_FILELIST r now)
       (BroadcastFilelist.fields [] True)"

definition bf_notify :: "BroadcastFilelist \<Rightarrow> world \<Rightarrow> BroadcastFilelist step" where
  "bf_notify b w =
     (let b1 = b\<lparr>mb_time_point := w_now w + DURATION\<rparr> in
      if bf_flag b1 \<and> list_all (\<lambda>(l, e). leaf_is_done l) (bf_deps b1)
      then finish_as DONE b1 w [] else Inr (b1, w, []))"

text \<open>A request without a handler is not passed on.\<close>

definition bf_on_signal :: "signal \<Rightarrow> BroadcastFilelist \<Rightarrow> world \<Rightarrow> BroadcastFilelist step" where
  "bf_on_signal s b w =
     (case s of
        SigNotify \<Rightarrow> bf_notify b w
      | SigH r h \<Rightarrow> Inr (b\<lparr>mb_time_point := w_now w + DURATION\<rparr>, w, [SigH r h])
      | Sig r \<Rightarrow> Inr (b, w, [])
      | SigRead i \<Rightarrow> Inr (b, w, [SigRead i]))"

definition bf_send :: "Env \<Rightarrow> Peer list \<Rightarrow> FileInfo list \<Rightarrow> Peer \<Rightarrow> BroadcastFilelist \<Rightarrow> world \<Rightarrow>
  RequestObject \<times> world" where
  "bf_send env peers files target b w =
     (let (m, w1) = w_create_request_peers env ''broadcast_filelist'' peers w
      in (set_connection_peer (Some target)
            (set_message (m\<lparr>msg_files := files\<rparr>) (RequestObject_new (mb_type b) (w_now w1))), w1))"

definition bf_create_request :: "Env \<Rightarrow> BroadcastFilelist \<Rightarrow> world \<Rightarrow> BroadcastFilelist step" where
  "bf_create_request env b w =
     (let (s, w1) = w_get_self w in
      case s of
        None \<Rightarrow> finish_as FAILED b w1 []
      | Some self \<Rightarrow>
          let (t, w2) = w_get_successor w1 in
          (case t of
             None \<Rightarrow> finish_as FAILED b w2 []
           | Some target \<Rightarrow>
               let (r, w3) = bf_send env [self] (get_files (w_storage w2)) target b w2
               in finish_as DONE b w3 [Sig r]))"

text \<open>The loop over the announced files: a missing one is fetched from the first peer.\<close>

fun bf_fetch :: "Env \<Rightarrow> Peer \<Rightarrow> FileInfo list \<Rightarrow> BroadcastFilelist \<Rightarrow> world \<Rightarrow> BroadcastFilelist step" where
  "bf_fetch env owner [] b w = Inr (b, w, [])"
| "bf_fetch env owner (f # files) b w =
     (if file_exists (file_name f) (w_storage w) then bf_fetch env owner files b w
      else
        let (i, w1) = new_oid w in
        res_bind (leaf_run env (LGetFile (GetFile_new i owner f (w_now w1))) w1) (\<lambda>(l, w2, sigs).
        res_bind (absorb bf_on_signal sigs (b\<lparr>bf_deps := bf_deps b @ [(l, False)]\<rparr>) w2)
          (\<lambda>(b3, w3, out3).
        res_bind (bf_fetch env owner files b3 w3) (\<lambda>(b4, w4, out4). Inr (b4, w4, out3 @ out4)))))"

definition bf_handle_request :: "Env \<Rightarrow> BroadcastFilelist \<Rightarrow> world \<Rightarrow> BroadcastFilelist step" where
  "bf_handle_request env b w =
     (case mb_request b of
        None \<Rightarrow> Inr (b\<lparr>mb_state := FAILED\<rparr>, w, [])
      | Some req \<Rightarrow>
          res_bind (get_message req) (\<lambda>message.
            let (s, w1) = w_get_self w in
            case s of
              None \<Rightarrow> finish_as FAILED b w1 []
            | Some self \<Rightarrow>
                if list_ex (\<lambda>p. peer_ip p = peer_ip self \<and> peer_port p = peer_port self)
                     (msg_peers message)
                then finish_as DONE b w1 []
                else
                  let peers = msg_peers message @ [self] in
                  res_bind (front peers) (\<lambda>owner.
                  res_bind (bf_fetch env owner (msg_files message) (b\<lparr>bf_flag := False\<rparr>) w1)
                    (\<lambda>(b2, w2, sigs).
                       let b3 = b2\<lparr>bf_flag := True\<rparr>; (t, w3) = w_get_successor w2 in
                       case t of
                         None \<Rightarrow>
                           if bf_deps b3 = [] then finish_as FAILED b3 w3 sigs
                           else Inr (b3\<lparr>mb_state := FAILED\<rparr>, w3, sigs)
                       | Some target \<Rightarrow>
                           let (r, w4) = bf_send env peers (msg_files message) target b3 w3;
                               sigs' = sigs @ [Sig r]
                           in if bf_deps b3 = [] then finish_as DONE b3 w4 sigs'
                              else Inr (b3\<lparr>mb_state := DONE\<rparr>, w4, sigs')))))"

definition bf_handle_failed :: "BroadcastFilelist \<Rightarrow> world \<Rightarrow> (BroadcastFilelist \<times> world) res" where
  "bf_handle_failed b w = Inr (b\<lparr>mb_state := FAILED\<rparr>, w)"

definition bf_any_expired :: "BroadcastFilelist \<Rightarrow> world \<Rightarrow> (bool \<times> BroadcastFilelist \<times> world) res" where
  "bf_any_expired b w =
     res_bind (any_expired (bf_deps b) w) (\<lambda>(x, ds, w'). Inr (x, b\<lparr>bf_deps := ds\<rparr>, w'))"

definition bf_child :: "leaf step \<Rightarrow> BroadcastFilelist \<Rightarrow> BroadcastFilelist step" where
  "bf_child r b =
     res_bind r (\<lambda>(l, w, sigs).
       absorb bf_on_signal sigs (b\<lparr>bf_deps := set_child l (bf_deps b)\<rparr>) w)"

subsection \<open>All message objects\<close>

datatype message_obj =
    MLeaf leaf
  | MJoin Join
  | MStabilize Stabilize
  | MBroadcast BroadcastFilelist

fun obj_base :: "message_obj \<Rightarrow> MessagingBase" where
  "obj_base (MLeaf l) = leaf_base l"
| "obj_base (MJoin m) = MessagingBase.truncate m"
| "obj_base (MStabilize m) = MessagingBase.truncate m"
| "obj_base (MBroadcast m) = MessagingBase.truncate m"

definition obj_is_done :: "message_obj \<Rightarrow> bool" where "obj_is_done ob = mb_is_done (obj_base ob)"

fun obj_deps :: "message_obj \<Rightarrow> dependencies" where
  "obj_deps (MLeaf l) = []"
| "obj_deps (MJoin m) = jo_deps m"
| "obj_deps (MStabilize m) = sb_deps m"
| "obj_deps (MBroadcast m) = bf_deps m"

text \<open>The objects that are alive as long as the object is: itself and its dependencies.\<close>

definition obj_oids :: "message_obj \<Rightarrow> oid list" where
  "obj_oids ob = mb_oid (obj_base ob) # map (\<lambda>(l, e). leaf_oid l) (obj_deps ob)"

text \<open>\<open>handle_request\<close> of \<open>Join\<close> and of \<open>Stabilize\<close> is empty.\<close>

fun obj_run :: "Env \<Rightarrow> message_obj \<Rightarrow> world \<Rightarrow> message_obj step" where
  "obj_run env (MLeaf l) w = lift_step MLeaf (leaf_run env l w)"
| "obj_run env (MJoin m) w =
     lift_step MJoin (run_message (\<lambda>m w. Inr (m, w, [])) (join_create_request env) m w)"
| "obj_run env (MStabilize m) w =
     lift_step MStabilize (run_message (\<lambda>m w. Inr (m, w, [])) (sb_create_request env) m w)"
| "obj_run env (MBroadcast m) w =
     lift_step MBroadcast (run_message (bf_handle_request env) (bf_create_request env) m w)"

text \<open>A step of the single message \<open>i\<close>, which is the object itself or one of its dependencies.\<close>

definition find_child :: "oid \<Rightarrow> dependencies \<Rightarrow> leaf option" where
  "find_child i ds = List.find (\<lambda>l. leaf_oid l = i) (map fst ds)"

fun obj_deliver :: "Env \<Rightarrow> oid \<Rightarrow> (leaf \<Rightarrow> world \<Rightarrow> leaf step) \<Rightarrow> message_obj \<Rightarrow> world \<Rightarrow>
    message_obj step" where
  "obj_deliver env i f (MLeaf l) w = lift_step MLeaf (f l w)"
| "obj_deliver env i f (MJoin m) w =
     (case find_child i (jo_deps m) of
        None \<Rightarrow> Inr (MJoin m, w, [])
      | Some l \<Rightarrow> lift_step MJoin (join_child env (f l w) m))"
| "obj_deliver env i f (MStabilize m) w =
     (case find_child i (sb_deps m) of
        None \<Rightarrow> Inr (MStabilize m, w, [])
      | Some l \<Rightarrow> lift_step MStabilize (sb_child env (f l w) m))"
| "obj_deliver env i f (MBroadcast m) w =
     (case find_child i (bf_deps m) of
        None \<Rightarrow> Inr (MBroadcast m, w, [])
      | Some l \<Rightarrow> lift_step MBroadcast (bf_child (f l w) m))"

fun obj_check_state :: "message_obj \<Rightarrow> world \<Rightarrow> (MESSAGE_STATE \<times> message_obj \<times> world) res" where
  "obj_check_state (MLeaf l) w = lift_state MLeaf (leaf_check_state l w)"
| "obj_check_state (MJoin m) w =
     lift_state MJoin (check_state join_handle_failed join_any_expired m w)"
| "obj_check_state (MStabilize m) w =
     lift_state MStabilize (check_state sb_handle_failed sb_any_expired m w)"
| "obj_check_state (MBroadcast m) w =
     lift_state MBroadcast (check_state bf_handle_failed bf_any_expired m w)"

definition obj_destroy :: "message_obj \<Rightarrow> world \<Rightarrow> world" where
  "obj_destroy ob w =
     (case ob of
        MLeaf l \<Rightarrow> leaf_destroy l w
      | _ \<Rightarrow> fold (\<lambda>(l, e). leaf_destroy l) (obj_deps ob) w)"

end
