(* ===== verification/Message_Handler.thy ===== *)
theory Message_Handler
  imports Composite_Messages Containers Converter Framing
begin

section \<open>The message handler and the dispatcher\<close>

text \<open>
  \<open>message_factory.cpp\<close>, \<open>message_handler.hpp\<close> and the loops of \<open>consumer.hpp\<close>: a whole node. Its
  state is the record \<open>node\<close>: the shared \<open>world\<close>, the message objects that are alive
  (\<open>active_messages_\<close>), the handlers that wait for a response (\<open>active_handlers_\<close>, ordered by
  correlation id), the queue of requests to send and the sessions on which a read was started.

  A handler knows its object by number; the \<open>weak_ptr\<close> to it can be locked as long as an object
  of \<open>active_messages_\<close>, or the one that is running, is it or has it as a dependency.
\<close>

subsection \<open>MessageFactory\<close>

definition create_from_request :: "RequestObject \<Rightarrow> world \<Rightarrow> (message_obj option \<times> world) res" where
  "create_from_request request w =
     res_bind (ro_is_request request) (\<lambda>is_req.
       if \<not> is_req then Inr (None, w)
       else
         res_bind (ro_get_request_type request) (\<lambda>ty.
           let (i, w1) = new_oid w; now = w_now w in
           Inr (if ty = ''notify'' then
                  (Some (MLeaf (LNotification (Notification_new_request i request now))), w1)
                else if ty = ''check_predecessor'' then
                  (Some (MLeaf (LCheckPredecessor (CheckPredecessor_new_request i request now))), w1)
                else if ty = ''query'' then
                  (Some (MLeaf (LQuery (Query_new_request i request now))), w1)
                else if ty = ''find_successor'' then
                  (Some (MLeaf (LFindSuccessor (FindSuccessor_new_request i request now))), w1)
                else if ty = ''get_successor_list'' then
                  (Some (MLeaf (LGetSuccessorList (GetSuccessorList_new_request i request now))), w1)
                else if ty = ''get_predecessor_and_succ_list'' then
                  (Some (MLeaf (LGetPredAndSuccList (GetPredAndSuccList_new_request i request now))), w1)
                else if ty = ''get_self_and_successor_list'' then
                  (Some (MLeaf (LGetSelfAndSuccList (GetSelfAndSuccList_new_request i request now))), w1)
                else if ty = ''broadcast_filelist'' then
                  (Some (MBroadcast (BroadcastFilelist_new_request i request now)), w1)
                else if ty = ''get_file'' then
                  (Some (MLeaf (LGetFile (GetFile_new_request i request now))), w1)
                else (None, w))))"

subsection \<open>The node\<close>

record node =
  nd_world :: world
  nd_active :: "message_obj list"
  nd_handlers :: "HandlerObject list"
  nd_send_queue :: "RequestObject queue"
  nd_reads :: "session_id list"

definition to_string_int :: "int \<Rightarrow> string" where
  "to_string_int z = (if z < 0 then ''-'' @ to_string (nat (- z)) else to_string (nat z))"

text \<open>The constructor takes the port as a \<open>short\<close>. \<open>rt\<close> is the table as the memory held it,
  \<open>db\<close>, \<open>fs\<close>, \<open>can\<close> and \<open>entries\<close> are the storage directory.\<close>

definition MessageHandler_new ::
  "Env \<Rightarrow> string \<Rightarrow> 16 word \<Rightarrow> RoutingTable \<Rightarrow> (string \<Rightarrow> file_row option) \<Rightarrow>
   (string \<Rightarrow> byte list option) \<Rightarrow> (string \<Rightarrow> bool) \<Rightarrow> string list \<Rightarrow> nat \<Rightarrow> node" where
  "MessageHandler_new env ip port rt db fs can entries now =
     (let self_port = to_string_int (sint port);
          self_id = generate_sha256_addr (en_sha env) ip self_port
      in \<lparr>nd_world =
            \<lparr>w_table = set_self (Peer_new self_id ip self_port) rt,
             w_storage = StaticStorage_new (en_digest env) self_id db fs can entries,
             w_stabilize_flag = False, w_check_predecessor_flag = False, w_counter = 0,
             w_now = now, w_next_oid = 0\<rparr>,
          nd_active = [], nd_handlers = [], nd_send_queue = queue_new, nd_reads = []\<rparr>)"

definition handler_init :: "node \<Rightarrow> node" where
  "handler_init nd =
     (let (s, w1) = w_get_self (nd_world nd) in
      case s of
        Some self \<Rightarrow> nd\<lparr>nd_world := w1\<lparr>w_table := set_successor self (w_table w1)\<rparr>\<rparr>
      | None \<Rightarrow> nd\<lparr>nd_world := w1\<rparr>)"

definition alive_oids :: "message_obj list \<Rightarrow> oid list" where
  "alive_oids obs = concat (map obj_oids obs)"

text \<open>The three overloads of \<open>HandleNotification\<close>, and the read of a session.\<close>

fun handler_observe :: "oid list \<Rightarrow> signal \<Rightarrow> node \<Rightarrow> node" where
  "handler_observe alive (Sig r) nd = nd\<lparr>nd_send_queue := queue_push r (nd_send_queue nd)\<rparr>"
| "handler_observe alive (SigH r h) nd =
     nd\<lparr>nd_handlers := set_insert ho_correlation_id h (nd_handlers nd),
        nd_send_queue := queue_push r (nd_send_queue nd)\<rparr>"
| "handler_observe alive SigNotify nd =
     nd\<lparr>nd_handlers := set_erase_if (\<lambda>h. \<not> handler_is_valid alive h) (nd_handlers nd)\<rparr>"
| "handler_observe alive (SigRead s) nd = nd\<lparr>nd_reads := nd_reads nd @ [s]\<rparr>"

text \<open>Attach the handler, run the object, keep it.\<close>

definition run_object :: "Env \<Rightarrow> message_obj \<Rightarrow> node \<Rightarrow> node res" where
  "run_object env ob nd =
     res_bind (obj_run env ob (nd_world nd)) (\<lambda>(ob', w', sigs).
       let alive = alive_oids (nd_active nd) @ obj_oids ob';
           nd1 = fold (handler_observe alive) sigs (nd\<lparr>nd_world := w'\<rparr>)
       in Inr (nd1\<lparr>nd_active := deque_push_back ob' (nd_active nd1)\<rparr>))"

definition with_new_oid :: "(oid \<Rightarrow> world \<Rightarrow> message_obj \<times> world) \<Rightarrow> Env \<Rightarrow> node \<Rightarrow> node res" where
  "with_new_oid build env nd =
     (let (i, w1) = new_oid (nd_world nd); (ob, w2) = build i w1
      in run_object env ob (nd\<lparr>nd_world := w2\<rparr>))"

definition handler_join :: "Env \<Rightarrow> string \<Rightarrow> string \<Rightarrow> node \<Rightarrow> node res" where
  "handler_join env address port nd =
     with_new_oid (\<lambda>i w. let (j, w') = Join_new i address port w in (MJoin j, w')) env nd"

definition handler_check_predecessor :: "Env \<Rightarrow> node \<Rightarrow> node res" where
  "handler_check_predecessor env nd =
     with_new_oid (\<lambda>i w. (MLeaf (LCheckPredecessor (CheckPredecessor_new i (w_now w))), w)) env nd"

definition handler_notify :: "Env \<Rightarrow> node \<Rightarrow> node res" where
  "handler_notify env nd =
     with_new_oid (\<lambda>i w. (MLeaf (LNotification (Notification_new i (w_now w))), w)) env nd"

definition handler_stabilize :: "Env \<Rightarrow> node \<Rightarrow> node res" where
  "handler_stabilize env nd =
     with_new_oid (\<lambda>i w. (MStabilize (Stabilize_new i (w_now w)), w)) env
       (nd\<lparr>nd_world := (nd_world nd)\<lparr>w_stabilize_flag := True\<rparr>\<rparr>)"

definition handler_broadcast :: "Env \<Rightarrow> node \<Rightarrow> node res" where
  "handler_broadcast env nd =
     with_new_oid (\<lambda>i w. (MBroadcast (BroadcastFilelist_new i (w_now w)), w)) env nd"

definition handle_request :: "Env \<Rightarrow> RequestObject \<Rightarrow> node \<Rightarrow> node res" where
  "handle_request env transport_object nd =
     res_bind (create_from_request transport_object (nd_world nd)) (\<lambda>(message_object, w1).
       let nd1 = nd\<lparr>nd_world := w1\<rparr> in
       case message_object of
         None \<Rightarrow> Inr nd1
       | Some ob \<Rightarrow> run_object env ob nd1)"

text \<open>A step of the object that is, or that has as a dependency, the single message \<open>i\<close>.\<close>

fun deliver :: "Env \<Rightarrow> oid \<Rightarrow> (leaf \<Rightarrow> world \<Rightarrow> leaf step) \<Rightarrow> message_obj list \<Rightarrow> world \<Rightarrow>
    (message_obj list \<times> world \<times> signal list) res" where
  "deliver env i f [] w = Inr ([], w, [])"
| "deliver env i f (ob # obs) w =
     (if List.member (obj_oids ob) i then
        res_bind (obj_deliver env i f ob w) (\<lambda>(ob', w', sigs). Inr (ob' # obs, w', sigs))
      else
        res_bind (deliver env i f obs w) (\<lambda>(obs', w', sigs). Inr (ob # obs', w', sigs)))"

definition node_deliver :: "Env \<Rightarrow> oid \<Rightarrow> (leaf \<Rightarrow> world \<Rightarrow> leaf step) \<Rightarrow> node \<Rightarrow> node res" where
  "node_deliver env i f nd =
     res_bind (deliver env i f (nd_active nd) (nd_world nd)) (\<lambda>(obs, w, sigs).
       Inr (fold (handler_observe (alive_oids obs)) sigs (nd\<lparr>nd_world := w, nd_active := obs\<rparr>)))"

definition handle_response :: "Env \<Rightarrow> RequestObject \<Rightarrow> node \<Rightarrow> node res" where
  "handle_response env transport_object nd =
     res_bind (ro_get_correlational_id transport_object) (\<lambda>correlational_id.
       let (handler_object, hs) =
             get_and_erase_if ho_correlation_id (\<lambda>h. \<not> ho_is_persistent h) correlational_id
               (nd_handlers nd);
           nd1 = nd\<lparr>nd_handlers := hs\<rparr>
       in case handler_object of
            None \<Rightarrow> Inr nd1
          | Some h \<Rightarrow>
              if handler_is_valid (alive_oids (nd_active nd1)) h
              then node_deliver env (ho_parent h) (leaf_handle env (ho_handler h) transport_object) nd1
              else Inr nd1)"

text \<open>The write callback locks its weak pointer.\<close>

definition on_write :: "Env \<Rightarrow> oid \<Rightarrow> bool \<Rightarrow> node \<Rightarrow> node res" where
  "on_write env i failed nd =
     (if List.member (alive_oids (nd_active nd)) i
      then node_deliver env i (leaf_on_write env failed) nd
      else Inr nd)"

text \<open>\<open>active_messages_.clean()\<close>; the crash of a \<open>check_state\<close> is carried along.\<close>

definition check_object ::
  "world \<times> crash option \<Rightarrow> message_obj \<Rightarrow> message_obj \<times> world \<times> crash option" where
  "check_object s ob =
     (case snd s of
        Some e \<Rightarrow> (ob, s)
      | None \<Rightarrow>
          (case obj_check_state ob (fst s) of
             Inl e \<Rightarrow> (ob, fst s, Some e)
           | Inr (st, ob', w') \<Rightarrow> (ob', w', None)))"

definition destroy_object :: "message_obj \<Rightarrow> world \<times> crash option \<Rightarrow> world \<times> crash option" where
  "destroy_object ob s = (obj_destroy ob (fst s), snd s)"

definition node_clean :: "node \<Rightarrow> node res" where
  "node_clean nd =
     (let (obs, w, c) =
            deque_clean check_object obj_is_done destroy_object (nd_active nd) (nd_world nd, None)
      in case c of
           Some e \<Rightarrow> Inl e
         | None \<Rightarrow> Inr (nd\<lparr>nd_active := obs, nd_world := w\<rparr>))"

text \<open>One round of \<open>run_chord_internal\<close> and of \<open>run_paste_internal\<close>.\<close>

definition run_chord_round :: "Env \<Rightarrow> node \<Rightarrow> node res" where
  "run_chord_round env nd =
     res_bind (if \<not> w_stabilize_flag (nd_world nd) then handler_stabilize env nd else Inr nd) (\<lambda>nd1.
     res_bind (if \<not> w_check_predecessor_flag (nd_world nd1) then handler_check_predecessor env nd1
               else Inr nd1) node_clean)"

definition run_paste_round :: "Env \<Rightarrow> node \<Rightarrow> node res" where
  "run_paste_round env nd = handler_broadcast env nd"

definition get_routing_information :: "node \<Rightarrow> (Peer \<times> Peer \<times> Peer) \<times> node" where
  "get_routing_information nd =
     (let (p, w1) = w_get_predecessor (nd_world nd); (s, w2) = w_get_self w1;
          (t, w3) = w_get_successor w2;
          value = (\<lambda>x. case x of None \<Rightarrow> Peer_empty | Some q \<Rightarrow> q)
      in ((value p, value s, value t), nd\<lparr>nd_world := w3\<rparr>))"

subsection \<open>The dispatcher\<close>

definition dispatch :: "Env \<Rightarrow> RequestObject \<Rightarrow> node \<Rightarrow> node res" where
  "dispatch env data_object nd =
     res_bind (ro_is_request data_object) (\<lambda>is_request.
       if is_request then handle_request env data_object nd
       else handle_response env data_object nd)"

text \<open>One turn of \<open>run_internal\<close>, with the buffer and session that were popped.\<close>

definition receive :: "Env \<Rightarrow> (byte list \<Rightarrow> pb_Request) \<Rightarrow> byte list \<Rightarrow> session_id \<Rightarrow> node \<Rightarrow> node res" where
  "receive env pb_parse buf s nd =
     res_bind (MessageFromSerialized pb_parse buf) (\<lambda>converted_message.
       dispatch env
         (set_connection_session s
           (set_message converted_message (RequestObject_new UNKNOWN (w_now (nd_world nd))))) nd)"

text \<open>What \<open>run_send_internal\<close> asks of the sessions. \<open>ConnectAndWrite\<close> is \<open>write_to\<close> on a new
  session, the \<open>read\<close> that may follow is \<open>ReadNew\<close>.\<close>

datatype send_cmd =
    WriteDirect session_id "byte list" oid
  | WriteSession session_id "byte list"
  | ReadSession session_id
  | ConnectAndWrite "byte list" string string
  | ReadNew

text \<open>\<open>resolves\<close> is whether the resolver finds the address; it throws otherwise.\<close>

definition send_object ::
  "(pb_Request \<Rightarrow> byte list) \<Rightarrow> (string \<Rightarrow> string \<Rightarrow> bool) \<Rightarrow> RequestObject \<Rightarrow> send_cmd list res" where
  "send_object pb_ser resolves r =
     res_bind (get_message r) (\<lambda>message.
     res_bind (SerializedFromMessage pb_ser message) (\<lambda>message_buf.
     res_bind (frame_message message_buf) (\<lambda>encoded_buf.
       if is_session r then
         res_bind (get_session r) (\<lambda>s.
           case ro_on_write_handler r of
             Some h \<Rightarrow> Inr [WriteDirect s encoded_buf h]
           | None \<Rightarrow>
               Inr (WriteSession s encoded_buf # (if is_request message then [ReadSession s] else [])))
       else
         res_bind (get_peer r) (\<lambda>p. res_bind (deref p) (\<lambda>peer.
           if \<not> resolves (peer_ip peer) (peer_port peer) then Inl SystemError
           else
             Inr (ConnectAndWrite encoded_buf (peer_ip peer) (peer_port peer) #
                  (if is_request message then [ReadNew] else [])))))))"

definition run_send ::
  "(pb_Request \<Rightarrow> byte list) \<Rightarrow> (string \<Rightarrow> string \<Rightarrow> bool) \<Rightarrow> node \<Rightarrow> (send_cmd list \<times> node) res" where
  "run_send pb_ser resolves nd =
     (let (r, q) = wait_for_and_pop (nd_send_queue nd); nd1 = nd\<lparr>nd_send_queue := q\<rparr> in
      case r of
        None \<Rightarrow> Inr ([], nd1)
      | Some send_object' \<Rightarrow>
          res_bind (send_object pb_ser resolves send_object') (\<lambda>cmds. Inr (cmds, nd1)))"

end
