(* ===== verification/Object_Safety.thy ===== *)
theory Object_Safety
  imports Message_Handler
begin

section \<open>Single messages: invariants and crashes\<close>

text \<open>
  What every operation of a single message keeps, and the ways in which it can crash. \<open>soft\<close> are
  the crashes a message from the network can cause; the proofs of this theory and the next
  exclude all others: a promise set twice, a future taken twice or waited for in vain, a
  deadlock of a composite with itself, a null pointer.
\<close>

definition soft :: "crash \<Rightarrow> bool" where
  "soft e \<longleftrightarrow>
     e \<in> {FrontOfEmpty, BadOptionalAccess, BadVariantAccess, ReadPastEnd, SystemError}"

lemma soft_simps [simp]:
  "soft FrontOfEmpty" "soft BadOptionalAccess" "soft BadVariantAccess" "soft ReadPastEnd"
  "soft SystemError" "\<not> soft NullPointer" "\<not> soft PromiseSatisfied" "\<not> soft SelfDeadlock"
  "\<not> soft Reentrant" "\<not> soft FutureBlocks" "\<not> soft FutureRetrieved" "\<not> soft InsertPastEnd"
  by (simp_all add: soft_def)

definition pending :: "'a Awaitable \<Rightarrow> bool" where
  "pending a \<longleftrightarrow> aw_value a = None \<and> \<not> aw_retrieved a"

definition gettable :: "'a option Awaitable \<Rightarrow> bool" where
  "gettable a \<longleftrightarrow> \<not> aw_retrieved a \<and> (\<exists>v. aw_value a = Some (Some v))"

lemma pending_new [simp]: "pending Awaitable_new"
  by (simp add: pending_def)

lemma pending_set: "pending a \<Longrightarrow> set_promise v a = Inr (a\<lparr>aw_value := Some v\<rparr>)"
  by (simp add: pending_def set_promise_def)

lemma gettable_set: "pending a \<Longrightarrow> gettable (a\<lparr>aw_value := Some (Some v)\<rparr>)"
  by (simp add: pending_def gettable_def)

lemma gettable_get: "gettable a \<Longrightarrow> \<exists>v. aw_value a = Some (Some v) \<and> future_get a = Inr v"
  by (auto simp: gettable_def future_get_def)

fun leaf_kind :: "leaf \<Rightarrow> MessageType" where
  "leaf_kind (LQuery m) = QUERY"
| "leaf_kind (LFindSuccessor m) = FIND_SUCCESSOR"
| "leaf_kind (LNotification m) = NOTIFICATION"
| "leaf_kind (LCheckPredecessor m) = CHECK_PREDECESSOR"
| "leaf_kind (LGetSuccessorList m) = GET_SUCCESSOR_LIST"
| "leaf_kind (LGetSelfAndSuccList m) = GET_SELF_AND_SUCC_LIST"
| "leaf_kind (LGetPredAndSuccList m) = GET_PRED_AND_SUCC_LIST"
| "leaf_kind (LGetFile m) = GET_FILE"

fun leaf_pending :: "leaf \<Rightarrow> bool" where
  "leaf_pending (LQuery m) = pending (qu_promise m)"
| "leaf_pending (LFindSuccessor m) = pending (fs_promise m)"
| "leaf_pending (LGetSuccessorList m) = pending (sl_promise m)"
| "leaf_pending (LGetSelfAndSuccList m) = pending (ss_promise m)"
| "leaf_pending (LGetPredAndSuccList m) = pending (ps_promise m)"
| "leaf_pending l = True"

fun leaf_gettable :: "leaf \<Rightarrow> bool" where
  "leaf_gettable (LQuery m) = gettable (qu_promise m)"
| "leaf_gettable (LFindSuccessor m) = gettable (fs_promise m)"
| "leaf_gettable (LGetSuccessorList m) = gettable (sl_promise m)"
| "leaf_gettable (LGetSelfAndSuccList m) = gettable (ss_promise m)"
| "leaf_gettable (LGetPredAndSuccList m) = gettable (ps_promise m)"
| "leaf_gettable l = True"

text \<open>The pointers an object needs are set.\<close>

fun leaf_shape :: "leaf \<Rightarrow> bool" where
  "leaf_shape (LCheckPredecessor m) \<longleftrightarrow> (mb_is_request_handler m \<or> cp_has_flag m)"
| "leaf_shape (LGetSuccessorList m) \<longleftrightarrow> (mb_is_request_handler m \<longrightarrow> sl_has_table m)"
| "leaf_shape (LGetSelfAndSuccList m) \<longleftrightarrow> (mb_is_request_handler m \<longrightarrow> ss_has_table m)"
| "leaf_shape (LGetPredAndSuccList m) \<longleftrightarrow> (mb_is_request_handler m \<longrightarrow> ps_has_table m)"
| "leaf_shape (LGetFile m) \<longleftrightarrow> (gf_output m \<noteq> None \<longrightarrow> gf_file_info m \<noteq> None)"
| "leaf_shape l \<longleftrightarrow> True"

definition leaf_is_handler :: "leaf \<Rightarrow> bool" where
  "leaf_is_handler l = mb_is_request_handler (leaf_base l)"

text \<open>A check-predecessor message for the request of another node has no flag to clear, which a
  time-out would do; it answers at once and is done.\<close>

fun leaf_rest :: "leaf \<Rightarrow> bool" where
  "leaf_rest (LCheckPredecessor m) \<longleftrightarrow> (mb_is_done m \<or> cp_has_flag m)"
| "leaf_rest l \<longleftrightarrow> True"

text \<open>An object before it runs, and from then on.\<close>

definition leaf_fresh :: "leaf \<Rightarrow> bool" where
  "leaf_fresh l \<longleftrightarrow>
     base_inv (leaf_base l) \<and> leaf_shape l \<and> leaf_pending l \<and> \<not> leaf_is_done l"

definition leaf_inv :: "leaf \<Rightarrow> bool" where
  "leaf_inv l \<longleftrightarrow>
     base_inv (leaf_base l) \<and> leaf_shape l \<and> leaf_rest l \<and> (\<not> leaf_is_done l \<longrightarrow> leaf_pending l)"

text \<open>An object whose handler may be called: it has not finished, or it is a file transfer, whose
  handler stays.\<close>

definition leaf_ready :: "leaf \<Rightarrow> bool" where
  "leaf_ready l \<longleftrightarrow>
     leaf_kind l = GET_FILE \<or>
     (\<not> leaf_is_done l \<and> (leaf_kind l = CHECK_PREDECESSOR \<longrightarrow> \<not> leaf_is_handler l))"

fun sig_handlers :: "signal list \<Rightarrow> HandlerObject list" where
  "sig_handlers [] = []"
| "sig_handlers (SigH r h # ss) = h # sig_handlers ss"
| "sig_handlers (_ # ss) = sig_handlers ss"

lemma sig_handlers_append [simp]: "sig_handlers (xs @ ys) = sig_handlers xs @ sig_handlers ys"
  by (induction xs rule: sig_handlers.induct) simp_all

subsection \<open>From a class to the sum\<close>

lemma truncate_simps [simp]:
  "mb_oid (MessagingBase.truncate m) = mb_oid m"
  "mb_type (MessagingBase.truncate m) = mb_type m"
  "mb_request (MessagingBase.truncate m) = mb_request m"
  "mb_is_done (MessagingBase.truncate m) = mb_is_done m"
  "mb_state (MessagingBase.truncate m) = mb_state m"
  "mb_time_point (MessagingBase.truncate m) = mb_time_point m"
  "mb_is_request_handler (MessagingBase.truncate m) = mb_is_request_handler m"
  by (simp_all add: MessagingBase.truncate_def)

lemma base_inv_truncate [simp]: "base_inv (MessagingBase.truncate m) = base_inv m"
  by (simp add: base_inv_def)

lemma lift_step_Inr:
  "lift_step c r = Inr (ob', w', sigs) \<longleftrightarrow> (\<exists>ob. r = Inr (ob, w', sigs) \<and> ob' = c ob)"
  by (cases r) (auto simp: lift_step_def)

lemma lift_step_Inl: "lift_step c r = Inl e \<longleftrightarrow> r = Inl e"
  by (cases r) (auto simp: lift_step_def)

lemma lift_step_comp: "lift_step c (lift_step d r) = lift_step (\<lambda>x. c (d x)) r"
  by (cases r) (auto simp: lift_step_def)

definition leaf_step_ok :: "leaf \<Rightarrow> world \<Rightarrow> leaf step \<Rightarrow> bool" where
  "leaf_step_ok l w r = step_ok (leaf_base l) w (lift_step leaf_base r)"

lemma step_ok_truncate:
  "step_ok m w r \<Longrightarrow> step_ok (MessagingBase.truncate m) w (lift_step MessagingBase.truncate r)"
  by (cases r) (auto simp: lift_step_def step_ok_Inr)

lemma run_message_ok:
  "step_ok m w (hr m w) \<Longrightarrow> step_ok m w (cr m w) \<Longrightarrow> step_ok m w (run_message hr cr m w)"
  by (simp add: run_message_def)

lemma leaf_run_ok:
  assumes "world_inv w" "base_inv (leaf_base l)"
  shows "leaf_step_ok l w (leaf_run env l w)"
  using assms
  by (cases l) (simp_all add: leaf_step_ok_def lift_step_comp qu_ops_ok fs_ops_ok no_ops_ok
      cp_ops_ok sl_ops_ok ss_ops_ok ps_ops_ok gf_ops_ok run_message_ok step_ok_truncate)

lemma leaf_handle_ok:
  assumes "world_inv w" "base_inv (leaf_base l)"
  shows "leaf_step_ok l w (leaf_handle env f resp l w)"
  using assms
  by (cases l; cases f) (simp_all add: leaf_step_ok_def lift_step_comp qu_ops_ok fs_ops_ok no_ops_ok
      cp_ops_ok sl_ops_ok ss_ops_ok ps_ops_ok gf_ops_ok step_ok_truncate)

lemma leaf_on_write_ok:
  assumes "world_inv w" "base_inv (leaf_base l)"
  shows "leaf_step_ok l w (leaf_on_write env failed l w)"
  using assms
  by (cases l) (simp_all add: leaf_step_ok_def lift_step_comp gf_write_file_ok step_ok_truncate,
      simp_all add: lift_step_def step_ok_Inr)

subsection \<open>Outcomes of the operations\<close>

text \<open>The part of an outcome the base class does not see.\<close>

definition leaf_result :: "leaf \<Rightarrow> leaf step \<Rightarrow> bool" where
  "leaf_result l r \<longleftrightarrow>
     (\<forall>e. r = Inl e \<longrightarrow> soft e) \<and>
     (\<forall>l' w' sigs. r = Inr (l', w', sigs) \<longrightarrow>
        leaf_kind l' = leaf_kind l \<and> leaf_shape l' \<and> leaf_rest l' \<and>
        (\<not> leaf_is_done l' \<longrightarrow> leaf_pending l') \<and>
        (\<forall>h \<in> set (sig_handlers sigs). leaf_ready l' \<and>
           (ho_is_persistent h \<longrightarrow> leaf_kind l = GET_FILE)) \<and>
        length (sig_handlers sigs) \<le> 1)"

lemma leaf_result_Inl [simp]: "leaf_result l (Inl e) = soft e"
  by (simp add: leaf_result_def)

lemma leaf_result_Inr:
  "leaf_result l (Inr (l', w', sigs)) \<longleftrightarrow>
     leaf_kind l' = leaf_kind l \<and> leaf_shape l' \<and> leaf_rest l' \<and>
     (\<not> leaf_is_done l' \<longrightarrow> leaf_pending l') \<and>
     (\<forall>h \<in> set (sig_handlers sigs). leaf_ready l' \<and>
        (ho_is_persistent h \<longrightarrow> leaf_kind l = GET_FILE)) \<and>
     length (sig_handlers sigs) \<le> 1"
  by (auto simp: leaf_result_def)

lemma leaf_result_bind:
  assumes "\<And>e. r = Inl e \<Longrightarrow> soft e" "\<And>x. r = Inr x \<Longrightarrow> leaf_result l (f x)"
  shows "leaf_result l (res_bind r f)"
  using assms by (cases r) auto

text \<open>A sound request has a message; the other partial accesses are soft.\<close>

lemma get_message_sound: "request_sound r \<Longrightarrow> get_message r = Inr (the (ro_message r))"
  by (auto simp: request_sound_def get_message_def)

lemma front_soft: "front xs = Inl e \<Longrightarrow> soft e"
  by (cases xs) auto

lemma client_ip_soft: "request_sound r \<Longrightarrow> get_client_ip ip r = Inl e \<Longrightarrow> soft e"
  by (auto simp: get_client_ip_def get_session_def get_peer_def is_session_def request_sound_def
      split: connection.splits option.splits if_splits)

lemmas leaf_simps =
  lift_step_def leaf_result_Inr finish_defs Let_def split_def send_with_handler_eq
  leaf_is_done_def leaf_is_handler_def leaf_ready_def res_bind_assoc get_message_sound

lemma qu_result:
  assumes "base_inv q" "\<not> mb_is_done q" "pending (qu_promise q)" "request_sound resp"
  shows "leaf_result (LQuery q) (lift_step LQuery (qu_create_request env q w))"
    "mb_is_request_handler q \<Longrightarrow> leaf_result (LQuery q) (lift_step LQuery (qu_handle_request env q w))"
    "leaf_result (LQuery q) (lift_step LQuery (qu_handle_response resp q w))"
  using assms
  by (auto simp: qu_defs leaf_simps base_inv_def pending_set
      dest: front_soft client_ip_soft split: option.split intro!: leaf_result_bind)

lemma fs_result:
  assumes "base_inv m" "\<not> mb_is_done m" "pending (fs_promise m)" "request_sound resp"
  shows "leaf_result (LFindSuccessor m) (lift_step LFindSuccessor (fs_create_request env m w))"
    "mb_is_request_handler m \<Longrightarrow>
       leaf_result (LFindSuccessor m) (lift_step LFindSuccessor (fs_handle_request env m w))"
    "leaf_result (LFindSuccessor m) (lift_step LFindSuccessor (fs_handle_response resp m w))"
    "leaf_result (LFindSuccessor m)
       (lift_step LFindSuccessor (fs_handle_forwarded_response env resp m w))"
proof -
  have ok: "find_successor i rt \<noteq> Inl e" for i rt e
    using find_successor_ok [of i rt] by auto
  show "leaf_result (LFindSuccessor m) (lift_step LFindSuccessor (fs_create_request env m w))"
    using assms ok
    by (auto simp: fs_create_request_def leaf_simps base_inv_def pending_set
        split: option.splits if_splits intro!: leaf_result_bind)
  show "leaf_result (LFindSuccessor m) (lift_step LFindSuccessor (fs_handle_request env m w))"
    if "mb_is_request_handler m"
    using assms ok that
    by (auto simp: fs_handle_request_def fs_forward_request_def leaf_simps base_inv_def
        dest: front_soft split: option.splits intro!: leaf_result_bind)
  show "leaf_result (LFindSuccessor m) (lift_step LFindSuccessor (fs_handle_response resp m w))"
    using assms
    by (auto simp: fs_handle_response_def leaf_simps pending_set dest: front_soft
        intro!: leaf_result_bind)
  show "leaf_result (LFindSuccessor m)
      (lift_step LFindSuccessor (fs_handle_forwarded_response env resp m w))"
    using assms
    by (auto simp: fs_handle_forwarded_response_def leaf_simps base_inv_def dest: front_soft
        split: option.split intro!: leaf_result_bind)
qed

lemma no_result:
  assumes "base_inv m" "\<not> mb_is_done m" "request_sound resp"
  shows "leaf_result (LNotification m) (lift_step LNotification (no_create_request env m w))"
    "leaf_result (LNotification m) (lift_step LNotification (no_handle_request env m w))"
    "leaf_result (LNotification m) (lift_step LNotification (no_handle_response resp m w))"
  using assms
  by (auto simp: no_defs leaf_simps base_inv_def dest: front_soft
      split: option.splits if_splits intro!: leaf_result_bind)

lemma cp_result:
  assumes "base_inv m" "\<not> mb_is_done m" "request_sound resp"
  shows "cp_has_flag m \<Longrightarrow> \<not> mb_is_request_handler m \<Longrightarrow>
      leaf_result (LCheckPredecessor m) (lift_step LCheckPredecessor (cp_create_request env m w))"
    "mb_is_request_handler m \<Longrightarrow>
      leaf_result (LCheckPredecessor m) (lift_step LCheckPredecessor (cp_handle_request env m w))"
    "cp_has_flag m \<Longrightarrow>
      leaf_result (LCheckPredecessor m) (lift_step LCheckPredecessor (cp_handle_response resp m w))"
  using assms
  by (auto simp: cp_defs leaf_simps base_inv_def split: option.split intro!: leaf_result_bind)

lemma sl_result:
  assumes "base_inv m" "\<not> mb_is_done m" "pending (sl_promise m)" "request_sound resp"
    "mb_is_request_handler m \<longrightarrow> sl_has_table m"
  shows "leaf_result (LGetSuccessorList m) (lift_step LGetSuccessorList (sl_create_request env m w))"
    "mb_is_request_handler m \<Longrightarrow>
      leaf_result (LGetSuccessorList m) (lift_step LGetSuccessorList (sl_handle_request env m w))"
    "leaf_result (LGetSuccessorList m) (lift_step LGetSuccessorList (sl_handle_response resp m w))"
  using assms
  by (auto simp: sl_defs leaf_simps base_inv_def pending_set split: option.split
      intro!: leaf_result_bind)

lemma ss_result:
  assumes "base_inv m" "\<not> mb_is_done m" "pending (ss_promise m)" "request_sound resp"
    "mb_is_request_handler m \<longrightarrow> ss_has_table m"
  shows "leaf_result (LGetSelfAndSuccList m)
      (lift_step LGetSelfAndSuccList (ss_create_request env m w))"
    "mb_is_request_handler m \<Longrightarrow> leaf_result (LGetSelfAndSuccList m)
      (lift_step LGetSelfAndSuccList (ss_handle_request env m w))"
    "leaf_result (LGetSelfAndSuccList m)
      (lift_step LGetSelfAndSuccList (ss_handle_response resp m w))"
  using assms
  by (auto simp: ss_defs leaf_simps base_inv_def pending_set split: option.split
      intro!: leaf_result_bind)

lemma ps_result:
  assumes "base_inv m" "\<not> mb_is_done m" "pending (ps_promise m)" "request_sound resp"
    "mb_is_request_handler m \<longrightarrow> ps_has_table m"
  shows "leaf_result (LGetPredAndSuccList m)
      (lift_step LGetPredAndSuccList (ps_create_request env m w))"
    "mb_is_request_handler m \<Longrightarrow> leaf_result (LGetPredAndSuccList m)
      (lift_step LGetPredAndSuccList (ps_handle_request env m w))"
    "leaf_result (LGetPredAndSuccList m)
      (lift_step LGetPredAndSuccList (ps_handle_response resp m w))"
  using assms
  by (auto simp: ps_defs leaf_simps base_inv_def pending_set split: option.split
      intro!: leaf_result_bind)

lemma get_session_soft: "get_session r = Inl e \<Longrightarrow> soft e"
  by (auto simp: get_session_def split: connection.splits)

lemma ow_write_soft: "ow_write c ow st = Inl e \<Longrightarrow> soft e"
  by (auto simp: ow_write_def split: if_splits)

lemma gf_result:
  assumes b: "base_inv m" and r: "request_sound resp"
    and f: "gf_output m \<noteq> None \<longrightarrow> gf_file_info m \<noteq> None"
  shows "leaf_result (LGetFile m) (lift_step LGetFile (gf_create_request env m w))"
    and "leaf_result (LGetFile m) (lift_step LGetFile (gf_handle_response env resp m w))"
    and "leaf_result (LGetFile m) (lift_step LGetFile (gf_write_file env failed m w))"
    and "leaf_result (LGetFile m) (lift_step LGetFile (gf_handle_request env m w))"
proof -
  have sends: "leaf_result (LGetFile m) (lift_step LGetFile (gf_write_file env failed m' w))"
    if "mb_request m' = mb_request m" "gf_output m' = gf_output m" "gf_file_info m' = gf_file_info m"
    for failed m'
    using b f that
    by (auto simp: gf_write_file_def gf_write_buffer_def leaf_simps base_inv_def
        split: option.splits if_splits intro!: leaf_result_bind)
  then show "leaf_result (LGetFile m) (lift_step LGetFile (gf_write_file env failed m w))" by simp
  show "leaf_result (LGetFile m) (lift_step LGetFile (gf_create_request env m w))"
    using f by (auto simp: gf_create_request_def leaf_simps split: option.splits)
  show "leaf_result (LGetFile m) (lift_step LGetFile (gf_handle_response env resp m w))"
    using r f
    by (cases "get_session resp")
      (auto simp: gf_handle_response_def leaf_simps dest: get_session_soft ow_write_soft
        split: option.splits if_splits bool.splits intro!: leaf_result_bind)
  show "leaf_result (LGetFile m) (lift_step LGetFile (gf_handle_request env m w))"
  proof (cases "mb_request m")
    case None
    then show ?thesis using f by (simp add: gf_handle_request_def leaf_simps)
  next
    case (Some req)
    then have "request_sound req" using b by (simp add: base_inv_def)
    with Some f show ?thesis
      unfolding gf_handle_request_def
      by (cases "msg_files (the (ro_message req))")
        (simp_all add: get_message_sound lift_step_def finish_defs leaf_result_Inr Let_def split_def
          sends [unfolded lift_step_def split_def, simplified] split: option.split)
  qed
qed

subsection \<open>Outcomes of the sum\<close>

lemma leaf_run_result:
  assumes "leaf_fresh l"
  shows "leaf_result l (leaf_run env l w)"
proof -
  have r: "request_sound (set_message Message_empty (RequestObject_new UNKNOWN 0)\<lparr>ro_connection := ConnSession 0\<rparr>)"
    by (simp add: request_sound_def set_message_def)
  from assms show ?thesis
    by (cases l) (auto simp: leaf_fresh_def leaf_is_done_def run_message_def qu_result [OF _ _ _ r]
        fs_result [OF _ _ _ r] no_result [OF _ _ r] cp_result [OF _ _ r] sl_result [OF _ _ _ r]
        ss_result [OF _ _ _ r] ps_result [OF _ _ _ r] gf_result [OF _ r])
qed

lemma leaf_handle_result:
  assumes "leaf_inv l" "leaf_ready l" "request_sound resp"
  shows "leaf_result l (leaf_handle env f resp l w)"
  using assms
  by (cases l; cases f) (auto simp: leaf_inv_def leaf_ready_def leaf_is_done_def leaf_is_handler_def
      qu_result fs_result no_result cp_result sl_result ss_result ps_result gf_result)

lemma leaf_on_write_result:
  assumes "leaf_inv l"
  shows "leaf_result l (leaf_on_write env failed l w)"
proof -
  have r: "request_sound (set_message Message_empty (RequestObject_new UNKNOWN 0)\<lparr>ro_connection := ConnSession 0\<rparr>)"
    by (simp add: request_sound_def set_message_def)
  from assms show ?thesis
    by (cases l) (auto simp: leaf_inv_def leaf_result_Inr gf_result(3) [OF _ r])
qed

text \<open>A response registers nothing; an object that it finishes in DONE has a value to give.\<close>

lemma leaf_handle_effect:
  assumes "leaf_handle env f resp l w = Inr (l', w', sigs)" "leaf_inv l" "leaf_ready l"
  shows "sig_handlers sigs = []"
    and "leaf_kind l \<noteq> GET_FILE \<Longrightarrow> \<not> leaf_is_handler l \<Longrightarrow> leaf_kind l = FIND_SUCCESSOR \<longrightarrow> f = HandleResponse \<Longrightarrow>
      leaf_is_done l' \<Longrightarrow> leaf_state l' = DONE \<Longrightarrow> leaf_gettable l'"
  using assms
  by (cases l; cases f;
      auto simp: lift_step_Inr qu_handle_response_def fs_handle_response_def
        fs_handle_forwarded_response_def no_handle_response_def cp_handle_response_def
        sl_handle_response_def ss_handle_response_def ss_fail_def ps_handle_response_def ps_fail_def
        gf_handle_response_def finish_defs Let_def split_def leaf_inv_def leaf_ready_def
        leaf_is_done_def leaf_is_handler_def leaf_state_def pending_set gettable_set
        elim!: res_bind_InrE split: if_splits option.splits bool.splits)+

subsection \<open>Time-outs\<close>

text \<open>Checking a single message never crashes; it leaves the message alone or finishes it as
  failed.\<close>

definition checked :: "leaf \<Rightarrow> world \<Rightarrow> (MESSAGE_STATE \<times> leaf \<times> world) res \<Rightarrow> bool" where
  "checked l w r \<longleftrightarrow>
     (\<exists>st l' w'. r = Inr (st, l', w') \<and> leaf_inv l' \<and> leaf_oid l' = leaf_oid l \<and>
        leaf_kind l' = leaf_kind l \<and> leaf_is_handler l' = leaf_is_handler l \<and> world_inv w' \<and>
        w_now w' = w_now w \<and> w_next_oid w' = w_next_oid w \<and>
        (l' = l \<or> leaf_is_done l' \<and> (st = FAILED \<or> st = TIMEDOUT)))"

lemma leaf_check_ok:
  assumes "leaf_inv l" "world_inv w"
  shows "checked l w (leaf_check_state l w)"
  using assms
  by (cases l) (auto simp: checked_def check_state_def no_dependencies_def lift_state_def leaf_inv_def
      leaf_is_done_def leaf_oid_def leaf_is_handler_def qu_handle_failed_def fs_handle_failed_def
      no_handle_failed_def cp_handle_failed_def sl_handle_failed_def ss_handle_failed_def
      ps_handle_failed_def gf_handle_failed_def cp_set_flag_def pending_set base_inv_def
      dest: world_invD)

text \<open>The dependencies: either an essential one has expired, or none that is essential changed.\<close>

definition deps_inv :: "dependencies \<Rightarrow> bool" where
  "deps_inv ds \<longleftrightarrow> (\<forall>(l, e) \<in> set ds. leaf_inv l)"

lemma any_expired_ok:
  assumes "deps_inv ds" "world_inv w"
  shows "\<exists>b ds' w'. any_expired ds w = Inr (b, ds', w') \<and> deps_inv ds' \<and> world_inv w' \<and>
    w_now w' = w_now w \<and> w_next_oid w' = w_next_oid w \<and>
    map (\<lambda>(l, e). (leaf_oid l, leaf_kind l, leaf_is_handler l, e)) ds' =
      map (\<lambda>(l, e). (leaf_oid l, leaf_kind l, leaf_is_handler l, e)) ds \<and>
    (\<not> b \<longrightarrow> (\<forall>(l, e) \<in> set ds. e) \<longrightarrow> ds' = ds)"
  using assms
proof (induction ds arbitrary: w)
  case Nil
  then show ?case by (intro exI [of _ False]) simp
next
  case (Cons d ds)
  obtain l e where d: "d = (l, e)" by (cases d)
  from Cons.prems have l: "leaf_inv l" and ds: "deps_inv ds" by (auto simp: deps_inv_def d)
  from leaf_check_ok [OF l Cons.prems(2)] obtain st l' w' where
    c: "leaf_check_state l w = Inr (st, l', w')" "leaf_inv l'" "leaf_oid l' = leaf_oid l"
      "leaf_kind l' = leaf_kind l" "leaf_is_handler l' = leaf_is_handler l" "world_inv w'"
      "w_now w' = w_now w" "w_next_oid w' = w_next_oid w"
      "l' = l \<or> leaf_is_done l' \<and> (st = FAILED \<or> st = TIMEDOUT)"
    by (auto simp: checked_def)
  show ?case
  proof (cases "(st = FAILED \<or> st = TIMEDOUT) \<and> e")
    case True
    then have "any_expired (d # ds) w = Inr (True, (l', e) # ds, w')" using c d by simp
    with c ds show ?thesis by (auto simp: d deps_inv_def)
  next
    case False
    from Cons.IH [OF ds c(6)] obtain b ds' w'' where
      i: "any_expired ds w' = Inr (b, ds', w'')" "deps_inv ds'" "world_inv w''"
        "w_now w'' = w_now w'" "w_next_oid w'' = w_next_oid w'"
        "map (\<lambda>(l, e). (leaf_oid l, leaf_kind l, leaf_is_handler l, e)) ds' =
         map (\<lambda>(l, e). (leaf_oid l, leaf_kind l, leaf_is_handler l, e)) ds"
        "\<not> b \<longrightarrow> (\<forall>(l, e) \<in> set ds. e) \<longrightarrow> ds' = ds"
      by blast
    have "any_expired (d # ds) w = Inr (b, (l', e) # ds', w'')" using c i False d by auto
    with c i False show ?thesis by (auto simp: d deps_inv_def)
  qed
qed

subsection \<open>Starting a dependency\<close>

text \<open>The messages a composite starts have all they need to send their request at once.\<close>

fun startable :: "leaf \<Rightarrow> bool" where
  "startable (LQuery m) \<longleftrightarrow> True"
| "startable (LFindSuccessor m) \<longleftrightarrow> fs_target m \<noteq> None"
| "startable (LNotification m) \<longleftrightarrow> True"
| "startable (LGetSuccessorList m) \<longleftrightarrow> sl_connection m \<noteq> None"
| "startable (LGetSelfAndSuccList m) \<longleftrightarrow> ss_target m \<noteq> None"
| "startable (LGetPredAndSuccList m) \<longleftrightarrow> ps_target m \<noteq> None"
| "startable l \<longleftrightarrow> False"

definition child_started :: "leaf \<Rightarrow> world \<Rightarrow> leaf step \<Rightarrow> bool" where
  "child_started l w r \<longleftrightarrow>
     (\<exists>l' w' sigs. r = Inr (l', w', sigs) \<and> leaf_inv l' \<and> leaf_oid l' = leaf_oid l \<and>
        leaf_kind l' = leaf_kind l \<and> \<not> leaf_is_handler l' \<and> \<not> leaf_is_done l' \<and> world_inv w' \<and>
        w_now w' = w_now w \<and> w_next_oid w' = w_next_oid w \<and>
        (sigs = [] \<or> (\<exists>q h. sigs = [SigH q h] \<and> request_sound q \<and> ho_parent h = leaf_oid l \<and>
           ho_handler h = HandleResponse \<and> \<not> ho_is_persistent h)))"

lemma start_shape:
  assumes "leaf_fresh l" "startable l" "\<not> leaf_is_handler l"
  shows "\<exists>l' w' sigs. leaf_run env l w = Inr (l', w', sigs) \<and> \<not> leaf_is_done l' \<and>
    (sigs = [] \<or> (\<exists>q h. sigs = [SigH q h] \<and> ho_handler h = HandleResponse \<and> \<not> ho_is_persistent h))"
  using assms
  by (cases l) (auto simp: leaf_fresh_def leaf_is_done_def leaf_is_handler_def run_message_def
      lift_step_def qu_create_request_def fs_create_request_def no_create_request_def
      sl_create_request_def ss_create_request_def ps_create_request_def send_with_handler_eq
      split_def Let_def split: option.split)

lemma leaf_run_inv:
  assumes "leaf_fresh l" "world_inv w" "leaf_run env l w = Inr (l', w', sigs)"
  shows "leaf_inv l'" "leaf_oid l' = leaf_oid l" "leaf_kind l' = leaf_kind l"
    "leaf_is_handler l' = leaf_is_handler l" "world_inv w'" "w_now w' = w_now w"
    "w_next_oid w' = w_next_oid w" "\<forall>s \<in> set sigs. sig_ok (leaf_oid l) s"
proof -
  have b: "base_inv (leaf_base l)" using assms(1) by (simp add: leaf_fresh_def)
  from leaf_run_ok [OF assms(2) b, of env] assms(3)
  have s: "step_ok (leaf_base l) w (Inr (leaf_base l', w', sigs))"
    by (simp add: leaf_step_ok_def lift_step_def)
  from leaf_run_result [OF assms(1), of env w] assms(3)
  have r: "leaf_result l (Inr (l', w', sigs))" by simp
  show "leaf_inv l'" "leaf_oid l' = leaf_oid l" "leaf_kind l' = leaf_kind l"
    "leaf_is_handler l' = leaf_is_handler l" "world_inv w'" "w_now w' = w_now w"
    "w_next_oid w' = w_next_oid w" "\<forall>s \<in> set sigs. sig_ok (leaf_oid l) s"
    using s r b
    by (auto simp: step_ok_Inr leaf_result_Inr leaf_inv_def leaf_oid_def leaf_is_handler_def
        base_inv_def)
qed

lemma run_child_started:
  assumes "leaf_fresh l" "startable l" "\<not> leaf_is_handler l" "world_inv w"
  shows "child_started l w (run_child c env l w)"
proof -
  from start_shape [OF assms(1-3)] obtain l' w' sigs where
    r: "leaf_run env l w = Inr (l', w', sigs)" "\<not> leaf_is_done l'"
    and s: "sigs = [] \<or> (\<exists>q h. sigs = [SigH q h] \<and> ho_handler h = HandleResponse \<and> \<not> ho_is_persistent h)"
    by blast
  from s have "\<not> List.member sigs SigNotify" by auto
  with r leaf_run_inv [OF assms(1,4) r(1)] assms(3) s show ?thesis
    by (auto simp: child_started_def run_child_def)
qed

text \<open>The new messages of the composites.\<close>

lemma new_leaf_fresh [simp]:
  "leaf_fresh (LQuery (Query_new i a p now))"
  "leaf_fresh (LFindSuccessor (FindSuccessor_new_target i t x now))"
  "leaf_fresh (LGetSuccessorList (GetSuccessorList_new i c now))"
  "leaf_fresh (LGetSelfAndSuccList (GetSelfAndSuccList_new i c now))"
  "leaf_fresh (LGetPredAndSuccList (GetPredAndSuccList_new i c now))"
  "leaf_fresh (LNotification (Notification_new i now))"
  "leaf_fresh (LCheckPredecessor (CheckPredecessor_new i now))"
  "leaf_fresh (LGetFile (GetFile_new i c f now))"
  by (simp_all add: leaf_fresh_def base_inv_def leaf_is_done_def Query_new_def Query.defs
      FindSuccessor_new_target_def FindSuccessor.defs GetSuccessorList_new_def GetSuccessorList.defs
      GetSelfAndSuccList_new_def GetSelfAndSuccList.defs GetPredAndSuccList_new_def
      GetPredAndSuccList.defs Notification_new_def Notification.defs CheckPredecessor_new_def
      CheckPredecessor.defs GetFile_new_def GetFile.defs MessagingBase.defs MessagingBase_new_def)

lemmas leaf_new_defs =
  Query_new_def Query.defs FindSuccessor_new_target_def FindSuccessor.defs
  GetSuccessorList_new_def GetSuccessorList.defs GetSelfAndSuccList_new_def GetSelfAndSuccList.defs
  GetPredAndSuccList_new_def GetPredAndSuccList.defs Notification_new_def Notification.defs
  CheckPredecessor_new_def CheckPredecessor.defs GetFile_new_def GetFile.defs MessagingBase.defs
  MessagingBase_new_def

lemma new_leaf_simps [simp]:
  "fs_target (FindSuccessor_new_target i t x now) = Some t"
  "sl_connection (GetSuccessorList_new i c now) = Some c"
  "ss_target (GetSelfAndSuccList_new i c now) = Some c"
  "ps_target (GetPredAndSuccList_new i c now) = Some c"
  "startable (LQuery (Query_new i a p now))"
  "startable (LFindSuccessor (FindSuccessor_new_target i t x now))"
  "startable (LGetSuccessorList (GetSuccessorList_new i c now))"
  "startable (LGetSelfAndSuccList (GetSelfAndSuccList_new i c now))"
  "startable (LGetPredAndSuccList (GetPredAndSuccList_new i c now))"
  "startable (LNotification (Notification_new i now))"
  "\<not> leaf_is_handler (LQuery (Query_new i a p now))"
  "\<not> leaf_is_handler (LFindSuccessor (FindSuccessor_new_target i t x now))"
  "\<not> leaf_is_handler (LGetSuccessorList (GetSuccessorList_new i c now))"
  "\<not> leaf_is_handler (LGetSelfAndSuccList (GetSelfAndSuccList_new i c now))"
  "\<not> leaf_is_handler (LGetPredAndSuccList (GetPredAndSuccList_new i c now))"
  "\<not> leaf_is_handler (LNotification (Notification_new i now))"
  "leaf_oid (LQuery (Query_new i a p now)) = i"
  "leaf_oid (LFindSuccessor (FindSuccessor_new_target i t x now)) = i"
  "leaf_oid (LGetSuccessorList (GetSuccessorList_new i c now)) = i"
  "leaf_oid (LGetSelfAndSuccList (GetSelfAndSuccList_new i c now)) = i"
  "leaf_oid (LGetPredAndSuccList (GetPredAndSuccList_new i c now)) = i"
  "leaf_oid (LNotification (Notification_new i now)) = i"
  "leaf_oid (LGetFile (GetFile_new i c f now)) = i"
  by (simp_all add: leaf_is_handler_def leaf_oid_def leaf_new_defs)

text \<open>A response to such a message finishes it and tells the composite.\<close>

lemma child_response:
  assumes "leaf_handle env HandleResponse resp l w = Inr (l', w', sigs)"
    "leaf_kind l \<notin> {GET_FILE, CHECK_PREDECESSOR}" "\<not> leaf_is_handler l" "leaf_inv l" "\<not> leaf_is_done l"
  shows "sigs = [SigNotify]" "leaf_is_done l'"
  using assms
  by (cases l; auto simp: lift_step_Inr qu_handle_response_def fs_handle_response_def
        no_handle_response_def sl_handle_response_def ss_handle_response_def ss_fail_def
        ps_handle_response_def ps_fail_def finish_defs Let_def split_def leaf_inv_def
        leaf_is_done_def elim!: res_bind_InrE split: if_splits)+

lemma leaf_handle_inv:
  assumes "leaf_inv l" "leaf_ready l" "request_sound resp" "world_inv w"
    "leaf_handle env f resp l w = Inr (l', w', sigs)"
  shows "leaf_inv l'" "leaf_oid l' = leaf_oid l" "leaf_kind l' = leaf_kind l"
    "leaf_is_handler l' = leaf_is_handler l" "world_inv w'" "w_now w' = w_now w"
    "w_next_oid w' = w_next_oid w" "\<forall>s \<in> set sigs. sig_ok (leaf_oid l) s"
proof -
  have b: "base_inv (leaf_base l)" using assms(1) by (simp add: leaf_inv_def)
  from leaf_handle_ok [OF assms(4) b, of env f resp] assms(5)
  have s: "step_ok (leaf_base l) w (Inr (leaf_base l', w', sigs))"
    by (simp add: leaf_step_ok_def lift_step_def)
  from leaf_handle_result [OF assms(1-3), of env f w] assms(5)
  have r: "leaf_result l (Inr (l', w', sigs))" by simp
  show "leaf_inv l'" "leaf_oid l' = leaf_oid l" "leaf_kind l' = leaf_kind l"
    "leaf_is_handler l' = leaf_is_handler l" "world_inv w'" "w_now w' = w_now w"
    "w_next_oid w' = w_next_oid w" "\<forall>s \<in> set sigs. sig_ok (leaf_oid l) s"
    using s r b
    by (auto simp: step_ok_Inr leaf_result_Inr leaf_inv_def leaf_oid_def leaf_is_handler_def
        base_inv_def)
qed

lemma leaf_on_write_inv:
  assumes "leaf_inv l" "world_inv w" "leaf_on_write env failed l w = Inr (l', w', sigs)"
  shows "leaf_inv l'" "leaf_oid l' = leaf_oid l" "leaf_kind l' = leaf_kind l"
    "leaf_is_handler l' = leaf_is_handler l" "world_inv w'" "w_now w' = w_now w"
    "w_next_oid w' = w_next_oid w" "\<forall>s \<in> set sigs. sig_ok (leaf_oid l) s" "sig_handlers sigs = []"
    "leaf_kind l \<noteq> GET_FILE \<Longrightarrow> l' = l \<and> sigs = []"
proof -
  have b: "base_inv (leaf_base l)" using assms(1) by (simp add: leaf_inv_def)
  from leaf_on_write_ok [OF assms(2) b, of env failed] assms(3)
  have s: "step_ok (leaf_base l) w (Inr (leaf_base l', w', sigs))"
    by (simp add: leaf_step_ok_def lift_step_def)
  from leaf_on_write_result [OF assms(1), of env failed w] assms(3)
  have r: "leaf_result l (Inr (l', w', sigs))" by simp
  show "leaf_inv l'" "leaf_oid l' = leaf_oid l" "leaf_kind l' = leaf_kind l"
    "leaf_is_handler l' = leaf_is_handler l" "world_inv w'" "w_now w' = w_now w"
    "w_next_oid w' = w_next_oid w" "\<forall>s \<in> set sigs. sig_ok (leaf_oid l) s"
    using s r b
    by (auto simp: step_ok_Inr leaf_result_Inr leaf_inv_def leaf_oid_def leaf_is_handler_def
        base_inv_def)
  show "leaf_kind l \<noteq> GET_FILE \<Longrightarrow> l' = l \<and> sigs = []"
    using assms(3) by (cases l) auto
  show "sig_handlers sigs = []"
    using assms(3)
    by (cases l) (auto simp: lift_step_Inr gf_write_file_def gf_write_buffer_def finish_defs Let_def
        split_def elim!: res_bind_InrE split: if_splits option.splits)
qed

end
