(* ===== verification/Node_Safety.thy ===== *)
theory Node_Safety
  imports Object_Safety
begin

section \<open>The node: invariants and crashes\<close>

text \<open>
  The invariant of a running node, kept by every step of its threads: local requests, messages
  and write completions from the network, the clean-up of finished objects. It says that the
  table and the storage are well formed, that every queued request can be sent, and that a
  registered handler belongs to an object that still waits for its answer. From it follows which
  crashes a node can have.
\<close>

subsection \<open>Invariants of the objects\<close>

definition child_kinds :: "MessageType set \<Rightarrow> dependencies \<Rightarrow> bool" where
  "child_kinds ks ds \<longleftrightarrow> (\<forall>(l, e) \<in> set ds. leaf_kind l \<in> ks \<and> \<not> leaf_is_handler l)"

fun obj_inv :: "message_obj \<Rightarrow> bool" where
  "obj_inv (MLeaf l) \<longleftrightarrow> leaf_inv l"
| "obj_inv (MJoin j) \<longleftrightarrow>
     base_inv j \<and> \<not> mb_is_request_handler j \<and> deps_inv (jo_deps j) \<and>
     child_kinds {QUERY, FIND_SUCCESSOR, GET_SUCCESSOR_LIST} (jo_deps j) \<and>
     (\<exists>l. jo_deps j = [(l, True)])"
| "obj_inv (MStabilize s) \<longleftrightarrow>
     base_inv s \<and> \<not> mb_is_request_handler s \<and> sb_has_flag s \<and> deps_inv (sb_deps s) \<and>
     child_kinds {GET_PRED_AND_SUCC_LIST, GET_SELF_AND_SUCC_LIST, NOTIFICATION} (sb_deps s) \<and>
     (\<forall>(l, e) \<in> set (sb_deps s). e)"
| "obj_inv (MBroadcast b) \<longleftrightarrow>
     base_inv b \<and> deps_inv (bf_deps b) \<and> child_kinds {GET_FILE} (bf_deps b)"

text \<open>The handlers that belong to the object or to one of its dependencies.\<close>

fun obj_handlers_ok :: "HandlerObject set \<Rightarrow> message_obj \<Rightarrow> bool" where
  "obj_handlers_ok hs (MLeaf l) \<longleftrightarrow>
     (\<forall>h \<in> hs. ho_parent h = leaf_oid l \<longrightarrow>
        leaf_ready l \<and> (ho_is_persistent h \<longrightarrow> leaf_kind l = GET_FILE))"
| "obj_handlers_ok hs (MBroadcast b) \<longleftrightarrow> True"
| "obj_handlers_ok hs ob \<longleftrightarrow>
     (\<forall>h \<in> hs. ho_parent h \<in> set (map (leaf_oid \<circ> fst) (obj_deps ob)) \<longrightarrow>
        \<not> obj_is_done ob \<and> ho_parent h = leaf_oid (fst (hd (obj_deps ob))) \<and>
        \<not> leaf_is_done (fst (hd (obj_deps ob))) \<and> ho_handler h = HandleResponse \<and>
        \<not> ho_is_persistent h)"

fun signal_sound :: "signal \<Rightarrow> bool" where
  "signal_sound (Sig r) = request_sound r"
| "signal_sound (SigH r h) = request_sound r"
| "signal_sound s = True"

lemma sig_ok_sound: "sig_ok i s \<Longrightarrow> signal_sound s"
  by (cases s) simp_all

lemma sig_ok_parent: "\<forall>s \<in> set sigs. sig_ok i s \<Longrightarrow> h \<in> set (sig_handlers sigs) \<Longrightarrow> ho_parent h = i"
  by (induction sigs rule: sig_handlers.induct) auto

text \<open>The number of an object and those of its dependencies.\<close>

definition own_oid :: "message_obj \<Rightarrow> oid" where
  "own_oid ob = mb_oid (obj_base ob)"

definition dep_oids :: "message_obj \<Rightarrow> oid list" where
  "dep_oids ob = map (leaf_oid \<circ> fst) (obj_deps ob)"

text \<open>The outcome of a step of the object \<open>ob\<close>. New handlers belong to objects numbered \<open>N\<close> or
  higher.\<close>

definition obj_step_ok :: "oid \<Rightarrow> message_obj \<Rightarrow> world \<Rightarrow> message_obj step \<Rightarrow> bool" where
  "obj_step_ok N ob w r \<longleftrightarrow>
     (\<forall>e. r = Inl e \<longrightarrow> soft e) \<and>
     (\<forall>ob' w' sigs. r = Inr (ob', w', sigs) \<longrightarrow>
        obj_inv ob' \<and> world_inv w' \<and> w_now w' = w_now w \<and> w_next_oid w \<le> w_next_oid w' \<and>
        own_oid ob' = own_oid ob \<and>
        (\<forall>i \<in> set (dep_oids ob'). i \<in> set (dep_oids ob) \<or> (w_next_oid w \<le> i \<and> i < w_next_oid w')) \<and>
        (\<forall>s \<in> set sigs. signal_sound s) \<and>
        (\<forall>h \<in> set (sig_handlers sigs). N \<le> ho_parent h \<and> ho_parent h < w_next_oid w') \<and>
        inj_on ho_parent (set (sig_handlers sigs)) \<and>
        obj_handlers_ok (set (sig_handlers sigs)) ob')"

lemma obj_step_ok_Inl [simp]: "obj_step_ok N ob w (Inl e) = soft e"
  by (simp add: obj_step_ok_def)

lemma obj_step_ok_Inr:
  "obj_step_ok N ob w (Inr (ob', w', sigs)) \<longleftrightarrow>
     obj_inv ob' \<and> world_inv w' \<and> w_now w' = w_now w \<and> w_next_oid w \<le> w_next_oid w' \<and>
     own_oid ob' = own_oid ob \<and>
     (\<forall>i \<in> set (dep_oids ob'). i \<in> set (dep_oids ob) \<or> (w_next_oid w \<le> i \<and> i < w_next_oid w')) \<and>
     (\<forall>s \<in> set sigs. signal_sound s) \<and>
     (\<forall>h \<in> set (sig_handlers sigs). N \<le> ho_parent h \<and> ho_parent h < w_next_oid w') \<and>
     inj_on ho_parent (set (sig_handlers sigs)) \<and>
     obj_handlers_ok (set (sig_handlers sigs)) ob'"
  by (auto simp: obj_step_ok_def)

lemma new_oid_simps [simp]:
  "fst (new_oid w) = w_next_oid w" "snd (new_oid w) = w\<lparr>w_next_oid := Suc (w_next_oid w)\<rparr>"
  by (simp_all add: new_oid_def)

lemma own_dep_oids [simp]:
  "own_oid (MLeaf l) = leaf_oid l" "own_oid (MJoin j) = mb_oid j" "own_oid (MStabilize s) = mb_oid s"
  "own_oid (MBroadcast b) = mb_oid b"
  "dep_oids (MLeaf l) = []" "dep_oids (MJoin j) = map (leaf_oid \<circ> fst) (jo_deps j)"
  "dep_oids (MStabilize s) = map (leaf_oid \<circ> fst) (sb_deps s)"
  "dep_oids (MBroadcast b) = map (leaf_oid \<circ> fst) (bf_deps b)"
  by (simp_all add: own_oid_def dep_oids_def leaf_oid_def)

lemma obj_oids_eq: "obj_oids ob = own_oid ob # dep_oids ob"
  by (simp add: obj_oids_def own_oid_def dep_oids_def comp_def split_def)

lemma obj_is_done_simps [simp]:
  "obj_is_done (MLeaf l) = leaf_is_done l" "obj_is_done (MJoin j) = mb_is_done j"
  "obj_is_done (MStabilize s) = mb_is_done s" "obj_is_done (MBroadcast b) = mb_is_done b"
  by (simp_all add: obj_is_done_def leaf_is_done_def)

subsection \<open>Join\<close>

lemma child_startedE:
  assumes "child_started l w r"
  obtains l' w' sigs where "r = Inr (l', w', sigs)" "leaf_inv l'" "leaf_oid l' = leaf_oid l"
    "leaf_kind l' = leaf_kind l" "\<not> leaf_is_handler l'" "\<not> leaf_is_done l'" "world_inv w'"
    "w_now w' = w_now w" "w_next_oid w' = w_next_oid w" "\<forall>s \<in> set sigs. signal_sound s"
    "\<forall>h \<in> set (sig_handlers sigs). ho_parent h = leaf_oid l \<and> ho_handler h = HandleResponse \<and>
       \<not> ho_is_persistent h"
    "inj_on ho_parent (set (sig_handlers sigs))"
  using assms by (auto simp: child_started_def)

lemma base_inv_join_update [simp]:
  "base_inv (j\<lparr>jo_deps := ds\<rparr>) = base_inv j" "base_inv (j\<lparr>mb_time_point := t\<rparr>) = base_inv j"
  "base_inv (j\<lparr>mb_state := st\<rparr>) = base_inv j" "base_inv (j\<lparr>mb_is_done := b\<rparr>) = base_inv j"
  by (simp_all add: base_inv_def)

text \<open>A new dependency of a join whose number is the next free one.\<close>

lemma join_start_child_ok:
  assumes "base_inv j" "\<not> mb_is_request_handler j" "\<not> mb_is_done j" "world_inv w"
    and l: "leaf_fresh l" "startable l" "\<not> leaf_is_handler l"
      "leaf_kind l \<in> {QUERY, FIND_SUCCESSOR, GET_SUCCESSOR_LIST}"
    and i: "leaf_oid l = i" "w_next_oid w = Suc i" "w_next_oid w0 = i" "w_now w0 = w_now w"
    and d: "mb_oid j = mb_oid j0"
  shows "obj_step_ok i (MJoin j0) w0 (lift_step MJoin (join_start_child env l j w))"
proof -
  from run_child_started [OF l(1-3) assms(4), of SelfDeadlock env] show ?thesis
    by (rule child_startedE)
      (use assms in \<open>auto simp: join_start_child_def lift_step_def obj_step_ok_Inr deps_inv_def
          child_kinds_def\<close>)
qed

lemma join_finish_ok:
  assumes "obj_inv (MJoin j)" "world_inv w'" "w_now w' = w_now w" "w_next_oid w' = w_next_oid w"
    "mb_oid j = own_oid ob" "set (dep_oids (MJoin j)) \<subseteq> set (dep_oids ob)"
  shows "obj_step_ok N ob w (lift_step MJoin (finish_as st j w' []))"
  using assms by (auto simp: finish_defs lift_step_def obj_step_ok_Inr)

text \<open>The next step of a join whose dependency has finished.\<close>

lemma join_notify_ok:
  assumes inv: "obj_inv (MJoin j)" and w: "world_inv w" and nd: "\<not> mb_is_done j"
    and l: "jo_deps j = [(l, True)]" "leaf_is_done l"
    and g: "leaf_state l = DONE \<Longrightarrow> leaf_gettable l"
  shows "obj_step_ok (w_next_oid w) (MJoin j) w (lift_step MJoin (join_notify env j w))"
proof (cases "leaf_state l = DONE")
  case False
  then show ?thesis using inv w l by (simp add: join_notify_def join_finish_ok)
next
  case True
  with g have g: "leaf_gettable l" by blast
  from inv l have "leaf_kind l \<in> {QUERY, FIND_SUCCESSOR, GET_SUCCESSOR_LIST}"
    by (simp add: child_kinds_def)
  then consider (q) q where "l = LQuery q" | (f) f where "l = LFindSuccessor f"
    | (s) s where "l = LGetSuccessorList s"
    by (cases l) auto
  then show ?thesis
  proof cases
    case q
    with g obtain v where v: "future_get (qu_promise q) = Inr v" by (auto dest: gettable_get)
    show ?thesis
      unfolding join_notify_def handle_query_notify_def
      using True q l v inv w nd
      by (simp add: Let_def split_def) (rule join_start_child_ok; simp)
  next
    case f
    with g obtain v where v: "future_get (fs_promise f) = Inr v" by (auto dest: gettable_get)
    have "world_inv (w\<lparr>w_table := set_successor v (w_table w)\<rparr>)"
      using w by (simp add: world_inv_def)
    then show ?thesis
      unfolding join_notify_def handle_find_successor_notify_def
      using True f l v inv nd
      by (simp add: Let_def split_def) (rule join_start_child_ok; simp)
  next
    case s
    with g obtain v where v: "future_get (sl_promise s) = Inr v" by (auto dest: gettable_get)
    obtain rt where rt: "replace_after_successor v (w_table w) = Inr rt" "rt_inv rt"
      using rt_inv_replace_after w by (metis world_invD(1))
    then have "world_inv (w\<lparr>w_table := rt\<rparr>)" using w by (simp add: world_inv_def)
    then show ?thesis
      unfolding join_notify_def handle_get_successor_list_notify_def
      using True s l v rt inv by (simp add: join_finish_ok)
  qed
qed

lemma set_child_single: "leaf_oid l = leaf_oid d \<Longrightarrow> set_child l [(d, e)] = [(l, e)]"
  by (simp add: set_child_def)

text \<open>A response for the dependency of a join.\<close>

lemma join_response_ok:
  assumes inv: "obj_inv (MJoin j)" and w: "world_inv w" and nd: "\<not> mb_is_done j"
    and d: "jo_deps j = [(d, True)]" "\<not> leaf_is_done d" and r: "request_sound resp"
  shows "obj_step_ok (w_next_oid w) (MJoin j) w
    (lift_step MJoin (join_child env (leaf_handle env HandleResponse resp d w) j))"
proof -
  have kind: "leaf_kind d \<in> {QUERY, FIND_SUCCESSOR, GET_SUCCESSOR_LIST}"
    and h: "\<not> leaf_is_handler d" and di: "leaf_inv d"
    using inv d by (auto simp: child_kinds_def deps_inv_def)
  then have ready: "leaf_ready d" using d(2) by (auto simp: leaf_ready_def)
  show ?thesis
  proof (cases "leaf_handle env HandleResponse resp d w")
    case (Inl e)
    then show ?thesis
      using leaf_handle_result [OF di ready r, of env HandleResponse w]
      by (simp add: join_child_def lift_step_def)
  next
    case (Inr x)
    obtain d' w' sigs where x: "x = (d', w', sigs)" by (cases x)
    note eq = Inr [unfolded x]
    note di' = leaf_handle_inv [OF di ready r w eq]
    have s: "sigs = [SigNotify]" "leaf_is_done d'"
      using child_response [OF eq] kind h di d(2) by auto
    have g: "leaf_state d' = DONE \<Longrightarrow> leaf_gettable d'"
      using leaf_handle_effect(2) [OF eq di ready] kind h s(2) by auto
    let ?j = "j\<lparr>jo_deps := [(d', True)]\<rparr>"
    have inv': "obj_inv (MJoin ?j)"
      using inv d di' kind h by (auto simp: deps_inv_def child_kinds_def)
    have step: "join_child env (leaf_handle env HandleResponse resp d w) j = join_notify env ?j w'"
      using eq s(1) d di'(2)
      by (simp add: join_child_def set_child_single join_on_signal_def split_def)
        (cases "join_notify env ?j w'"; simp)
    have "obj_step_ok (w_next_oid w') (MJoin ?j) w' (lift_step MJoin (join_notify env ?j w'))"
      by (rule join_notify_ok [OF inv' di'(5)]) (use nd s g in simp_all)
    then show ?thesis
      unfolding step using di'(2,6,7) d by (auto simp: obj_step_ok_def)
  qed
qed

text \<open>Starting a join; its own number and its dependency's are new.\<close>

lemma join_run_ok:
  assumes "Join_new i a p w0 = (j, w)" "world_inv w0" "i < w_next_oid w0"
  shows "obj_step_ok i (MJoin j) w (obj_run env (MJoin j) w)"
    and "\<not> mb_is_done j" and "own_oid (MJoin j) = i" and "dep_oids (MJoin j) = [w_next_oid w0]" and "world_inv w"
    and "w_now w = w_now w0" and "w_next_oid w = Suc (w_next_oid w0)"
proof -
  let ?q = "LQuery (Query_new (w_next_oid w0) a p (w_now w0))"
  have j: "j = MessagingBase.extend (MessagingBase_new i JOIN (w_now w0))
      (Join.fields (Peer_new '''' a p) [(?q, True)] Awaitable_new)"
    and w: "w = w0\<lparr>w_next_oid := Suc (w_next_oid w0)\<rparr>"
    using assms(1) by (simp_all add: Join_new_def new_oid_def)
  then show "world_inv w" "w_now w = w_now w0" "w_next_oid w = Suc (w_next_oid w0)"
    using assms(2) by simp_all
  show "\<not> mb_is_done j" "own_oid (MJoin j) = i" "dep_oids (MJoin j) = [w_next_oid w0]"
    by (simp_all add: j MessagingBase.defs MessagingBase_new_def Join.defs)
  have "child_started ?q w (run_child SelfDeadlock env ?q w)"
    using assms(2) by (intro run_child_started) (simp_all add: w)
  then show "obj_step_ok i (MJoin j) w (obj_run env (MJoin j) w)"
    by (rule child_startedE)
      (use assms(3) in \<open>auto simp: j w run_message_def join_create_request_def lift_step_def
          obj_step_ok_Inr deps_inv_def child_kinds_def base_inv_def MessagingBase.defs
          MessagingBase_new_def Join.defs\<close>)
qed

subsection \<open>Stabilize\<close>

lemma sb_frames [simp]:
  "base_inv (s\<lparr>sb_deps := ds\<rparr>) = base_inv s" "base_inv (s\<lparr>mb_time_point := t\<rparr>) = base_inv s"
  "base_inv (s\<lparr>mb_state := st\<rparr>) = base_inv s" "base_inv (s\<lparr>mb_is_done := b\<rparr>) = base_inv s"
  for s :: Stabilize
  by (simp_all add: base_inv_def)

lemma mark_retrieved_simps [simp]:
  "leaf_oid (mark_retrieved l) = leaf_oid l" "leaf_kind (mark_retrieved l) = leaf_kind l"
  "leaf_is_handler (mark_retrieved l) = leaf_is_handler l"
  "leaf_is_done (mark_retrieved l) = leaf_is_done l"
  by (auto simp: mark_retrieved_def leaf_oid_def leaf_is_handler_def leaf_is_done_def
      split: leaf.split)

lemma mark_retrieved_inv: "leaf_inv l \<Longrightarrow> leaf_is_done l \<Longrightarrow> leaf_inv (mark_retrieved l)"
  by (cases l) (auto simp: leaf_inv_def mark_retrieved_def leaf_is_done_def base_inv_def)

text \<open>What a step of a stabilization leaves: its dependencies are the old ones, possibly with a
  new one in front that waits for its answer.\<close>

lemma sb_start_child_ok:
  assumes "obj_inv (MStabilize s)" "\<not> mb_is_done s" "world_inv w"
    and l: "leaf_fresh l" "startable l" "\<not> leaf_is_handler l"
      "leaf_kind l \<in> {GET_PRED_AND_SUCC_LIST, GET_SELF_AND_SUCC_LIST, NOTIFICATION}"
    and i: "leaf_oid l = i" "w_next_oid w = Suc i" "w_next_oid w0 = i" "w_now w0 = w_now w"
    and d: "mb_oid s = mb_oid s0" "set (map (leaf_oid \<circ> fst) (sb_deps s)) \<subseteq> set (dep_oids (MStabilize s0))"
  shows "obj_step_ok i (MStabilize s0) w0 (lift_step MStabilize (sb_start_child env l s w))"
proof -
  from run_child_started [OF l(1-3) assms(3), of Reentrant env] show ?thesis
    by (rule child_startedE)
      (use assms in \<open>auto simp: sb_start_child_def lift_step_def obj_step_ok_Inr deps_inv_def
          child_kinds_def\<close>)
qed

text \<open>Clearing the stabilize flag before, after or instead.\<close>

lemma obj_step_ok_flag:
  assumes "obj_step_ok N ob w (lift_step MStabilize r)" "\<And>s' w' sigs. r = Inr (s', w', sigs) \<Longrightarrow> sb_has_flag s'"
  shows "obj_step_ok N ob w (lift_step MStabilize
    (res_bind r (\<lambda>(s', w', sigs). res_bind (sb_clear_flag s' w') (\<lambda>w''. Inr (s', w'', sigs)))))"
  using assms by (cases r) (auto simp: lift_step_def obj_step_ok_Inr sb_clear_flag_def)

lemma sb_failed_ok:
  assumes "obj_inv (MStabilize s)" "world_inv w'" "w_now w' = w_now w" "w_next_oid w' = w_next_oid w"
    "mb_oid s = own_oid ob" "set (dep_oids (MStabilize s)) \<subseteq> set (dep_oids ob)"
  shows "obj_step_ok N ob w (lift_step MStabilize (sb_failed s w'))"
  using assms by (auto simp: sb_failed_def sb_clear_flag_def finish_defs lift_step_def obj_step_ok_Inr)

lemma create_notification_ok:
  assumes "obj_inv (MStabilize s)" "\<not> mb_is_done s" "world_inv w" "w_next_oid w = i"
    "w_next_oid w0 = i" "w_now w0 = w_now w" "mb_oid s = mb_oid s0"
    "set (map (leaf_oid \<circ> fst) (sb_deps s)) \<subseteq> set (dep_oids (MStabilize s0))"
  shows "obj_step_ok i (MStabilize s0) w0 (lift_step MStabilize (create_notification env s w))"
  unfolding create_notification_def Let_def split_def
  by (rule sb_start_child_ok) (use assms in simp_all)

lemma create_notification_flag:
  "create_notification env s w = Inr (s', w', sigs) \<Longrightarrow> sb_has_flag s' = sb_has_flag s"
  by (auto simp: create_notification_def sb_start_child_def split_def Let_def elim!: res_bind_InrE)

lemma handle_pred_list_ok:
  assumes inv: "obj_inv (MStabilize s)" and nd: "\<not> mb_is_done s" and w: "world_inv w"
    and v: "future_get (ps_promise l) = Inr v" and o: "mb_oid s = mb_oid s0"
    and d: "set (map (leaf_oid \<circ> fst) (sb_deps s)) \<subseteq> set (dep_oids (MStabilize s0))"
  shows "obj_step_ok (w_next_oid w) (MStabilize s0) w
    (lift_step MStabilize (handle_get_pred_and_succ_list_notify env l s w))"
proof -
  have rt: "rt_inv (w_table w)" and st: "storage_inv (w_storage w)" using w by (auto dest: world_invD)
  let ?s = "s\<lparr>mb_time_point := w_now w + DURATION\<rparr>"
  have inv1: "obj_inv (MStabilize ?s)" using inv by simp
  show ?thesis
  proof (cases v)
    case Nil
    let ?w = "w\<lparr>w_table := snd (rt_pop_front (w_table w)), w_stabilize_flag := False\<rparr>"
    have "world_inv ?w" using rt st by (simp add: world_inv_def)
    then have c: "obj_step_ok (w_next_oid w) (MStabilize s0) w
        (lift_step MStabilize (create_notification env ?s ?w))"
      by (intro create_notification_ok [OF inv1]) (use nd o d in simp_all)
    have "handle_get_pred_and_succ_list_notify env l s w = create_notification env ?s ?w"
      using v Nil inv by (simp add: handle_get_pred_and_succ_list_notify_def sb_clear_flag_def Let_def)
    with c show ?thesis by (simp only:)
  next
    case (Cons p rest)
    obtain me where me: "rt_self (w_table w) = Some me" using rt by (auto simp: rt_inv_def)
    obtain sc ss where sc: "rt_successor_list (w_table w) = sc # ss" using rt by (rule rt_invD)
    let ?rt = "replace_successor_list (sc # (if rest \<noteq> [] then rest else [p])) (w_table w)"
    let ?w = "w\<lparr>w_table := ?rt\<rparr>"
    have w': "world_inv ?w" using rt st by (simp add: world_inv_def)
    let ?l = "LGetSelfAndSuccList (GetSelfAndSuccList_new (w_next_oid w) p (w_now w))"
    let ?w4 = "?w\<lparr>w_next_oid := Suc (w_next_oid w)\<rparr>"
    have a: "obj_step_ok (w_next_oid w) (MStabilize s0) w
        (lift_step MStabilize (sb_start_child env ?l ?s ?w4))"
      using inv1 w' nd o d by (intro sb_start_child_ok) simp_all
    have n: "obj_step_ok (w_next_oid w) (MStabilize s0) w
        (lift_step MStabilize (create_notification env ?s ?w))"
      by (intro create_notification_ok [OF inv1 _ w']) (use nd o d in simp_all)
    have f: "obj_step_ok (w_next_oid w) (MStabilize s0) w
        (lift_step MStabilize (res_bind (create_notification env ?s ?w)
          (\<lambda>(s', w', sigs). res_bind (sb_clear_flag s' w') (\<lambda>w''. Inr (s', w'', sigs)))))"
      by (rule obj_step_ok_flag [OF n]) (use inv in \<open>simp add: create_notification_flag\<close>)
    have "handle_get_pred_and_succ_list_notify env l s w =
        (if between (peer_id me) (peer_id p) (peer_id sc) then sb_start_child env ?l ?s ?w4
         else res_bind (create_notification env ?s ?w)
          (\<lambda>(s', w', sigs). res_bind (sb_clear_flag s' w') (\<lambda>w''. Inr (s', w'', sigs))))"
      using v Cons me sc rt
      by (simp add: handle_get_pred_and_succ_list_notify_def Let_def split_def)
    with a f show ?thesis
      by (cases "between (peer_id me) (peer_id p) (peer_id sc)") (simp_all only: if_True if_False simp_thms)
  qed
qed

lemma handle_self_list_ok:
  assumes inv: "obj_inv (MStabilize s)" and nd: "\<not> mb_is_done s" and w: "world_inv w"
    and v: "future_get (ss_promise l) = Inr v" and o: "mb_oid s = mb_oid s0"
    and d: "set (map (leaf_oid \<circ> fst) (sb_deps s)) \<subseteq> set (dep_oids (MStabilize s0))"
  shows "obj_step_ok (w_next_oid w) (MStabilize s0) w
    (lift_step MStabilize (handle_get_self_and_succ_list_notify env l s w))"
proof -
  let ?s = "s\<lparr>mb_time_point := w_now w + DURATION\<rparr>"
  let ?w = "w\<lparr>w_table := replace_successor_list v (w_table w), w_stabilize_flag := False\<rparr>"
  have "obj_inv (MStabilize ?s)" "world_inv ?w"
    using inv w by (simp_all add: world_inv_def)
  then have c: "obj_step_ok (w_next_oid w) (MStabilize s0) w
      (lift_step MStabilize (create_notification env ?s ?w))"
    by (intro create_notification_ok) (use nd o d in simp_all)
  have "handle_get_self_and_succ_list_notify env l s w = create_notification env ?s ?w"
    using v inv by (simp add: handle_get_self_and_succ_list_notify_def sb_clear_flag_def Let_def)
  with c show ?thesis by (simp only:)
qed

lemma sb_notify_ok:
  assumes inv: "obj_inv (MStabilize s)" and w: "world_inv w" and nd: "\<not> mb_is_done s"
    and l: "sb_deps s = (l, True) # ds" "leaf_is_done l"
    and g: "leaf_state l = DONE \<Longrightarrow> leaf_gettable l"
  shows "obj_step_ok (w_next_oid w) (MStabilize s) w (lift_step MStabilize (sb_notify env s w))"
proof (cases "leaf_state l = DONE")
  case False
  then show ?thesis using inv w l by (simp add: sb_notify_def sb_failed_ok)
next
  case True
  with g have g: "leaf_gettable l" by blast
  let ?s = "s\<lparr>sb_deps := (mark_retrieved l, True) # ds\<rparr>"
  have inv': "obj_inv (MStabilize ?s)"
    using inv l by (auto simp: deps_inv_def child_kinds_def mark_retrieved_inv)
  have sub: "set (map (leaf_oid \<circ> fst) (sb_deps ?s)) \<subseteq> set (dep_oids (MStabilize s))"
    using l by auto
  from inv l have "leaf_kind l \<in> {GET_PRED_AND_SUCC_LIST, GET_SELF_AND_SUCC_LIST, NOTIFICATION}"
    by (simp add: child_kinds_def)
  then consider (p) p where "l = LGetPredAndSuccList p" | (q) q where "l = LGetSelfAndSuccList q"
    | (n) n where "l = LNotification n"
    by (cases l) auto
  then show ?thesis
  proof cases
    case p
    with g obtain v where "future_get (ps_promise p) = Inr v" by (auto dest: gettable_get)
    from handle_pred_list_ok [OF inv' _ w this, of s env] sub nd True p l show ?thesis
      by (simp add: sb_notify_def)
  next
    case q
    with g obtain v where "future_get (ss_promise q) = Inr v" by (auto dest: gettable_get)
    from handle_self_list_ok [OF inv' _ w this, of s env] sub nd True q l show ?thesis
      by (simp add: sb_notify_def)
  next
    case n
    with inv' w True l show ?thesis
      by (auto simp: sb_notify_def handle_notification_notify_def finish_defs lift_step_def
          obj_step_ok_Inr)
  qed
qed

text \<open>A response for the first dependency of a stabilization.\<close>

lemma set_child_hd:
  "leaf_oid l = leaf_oid d \<Longrightarrow> set_child l ((d, e) # ds) = (l, e) # set_child l ds"
  by (simp add: set_child_def)

lemma set_child_oids: "map (leaf_oid \<circ> fst) (set_child l ds) = map (leaf_oid \<circ> fst) ds"
  by (induction ds) (auto simp: set_child_def)

lemma set_child_inv:
  assumes "deps_inv ds" "child_kinds ks ds" "\<forall>(l, e) \<in> set ds. P e"
    "leaf_inv l" "leaf_kind l \<in> ks" "\<not> leaf_is_handler l"
  shows "deps_inv (set_child l ds)" "child_kinds ks (set_child l ds)"
    "\<forall>(l, e) \<in> set (set_child l ds). P e"
  using assms by (auto simp: deps_inv_def child_kinds_def set_child_def split: if_splits)

lemma sb_response_ok:
  assumes inv: "obj_inv (MStabilize s)" and w: "world_inv w" and nd: "\<not> mb_is_done s"
    and d: "sb_deps s = (d, e) # ds" "\<not> leaf_is_done d" and r: "request_sound resp"
  shows "obj_step_ok (w_next_oid w) (MStabilize s) w
    (lift_step MStabilize (sb_child env (leaf_handle env HandleResponse resp d w) s))"
proof -
  have kind: "leaf_kind d \<in> {GET_PRED_AND_SUCC_LIST, GET_SELF_AND_SUCC_LIST, NOTIFICATION}"
    and h: "\<not> leaf_is_handler d" and di: "leaf_inv d" and e: "e"
    using inv d by (auto simp: child_kinds_def deps_inv_def)
  then have ready: "leaf_ready d" using d(2) by (auto simp: leaf_ready_def)
  show ?thesis
  proof (cases "leaf_handle env HandleResponse resp d w")
    case (Inl x)
    then show ?thesis
      using leaf_handle_result [OF di ready r, of env HandleResponse w]
      by (simp add: sb_child_def lift_step_def)
  next
    case (Inr x)
    obtain d' w' sigs where x: "x = (d', w', sigs)" by (cases x)
    note eq = Inr [unfolded x]
    note di' = leaf_handle_inv [OF di ready r w eq]
    have s: "sigs = [SigNotify]" "leaf_is_done d'"
      using child_response [OF eq] kind h di d(2) by auto
    have g: "leaf_state d' = DONE \<Longrightarrow> leaf_gettable d'"
      using leaf_handle_effect(2) [OF eq di ready] kind h s(2) by auto
    let ?s = "s\<lparr>sb_deps := set_child d' (sb_deps s)\<rparr>"
    have deps: "sb_deps ?s = (d', True) # set_child d' ds"
      using d e set_child_hd [OF di'(2)] by simp
    have inv': "obj_inv (MStabilize ?s)"
      using inv set_child_inv [of "sb_deps s"
          "{GET_PRED_AND_SUCC_LIST, GET_SELF_AND_SUCC_LIST, NOTIFICATION}" "\<lambda>e. e" d'] di'(1-4) kind h
      by simp
    have step: "sb_child env (leaf_handle env HandleResponse resp d w) s = sb_notify env ?s w'"
      using eq s(1) by (simp add: sb_child_def sb_on_signal_def split_def)
        (cases "sb_notify env ?s w'"; simp)
    have "obj_step_ok (w_next_oid w') (MStabilize ?s) w' (lift_step MStabilize (sb_notify env ?s w'))"
      by (rule sb_notify_ok [OF inv' di'(5) _ deps]) (use nd s g in simp_all)
    then show ?thesis
      unfolding step using di'(6,7) set_child_oids [of d' "sb_deps s"]
      by (simp add: obj_step_ok_def del: map_map)
  qed
qed

text \<open>Starting a stabilization.\<close>

lemma sb_run_ok:
  assumes "world_inv w" "i < w_next_oid w"
  shows "obj_step_ok i (MStabilize (Stabilize_new i now)) w
    (obj_run env (MStabilize (Stabilize_new i now)) w)"
proof -
  let ?s = "Stabilize_new i now"
  have f: "\<not> mb_is_request_handler ?s" "base_inv ?s" "sb_has_flag ?s" "sb_deps ?s = []" "\<not> mb_is_done ?s"
    by (simp_all add: Stabilize_new_def MessagingBase.defs MessagingBase_new_def Stabilize.defs base_inv_def)
  obtain sc ss where sc: "rt_successor_list (w_table w) = sc # ss"
    using assms(1) by (metis rt_invD world_invD(1))
  have "obj_step_ok (w_next_oid w) (MStabilize ?s) w
      (lift_step MStabilize (sb_start_child env
        (LGetPredAndSuccList (GetPredAndSuccList_new (w_next_oid w) sc (w_now w))) ?s
        (w\<lparr>w_next_oid := Suc (w_next_oid w)\<rparr>)))"
    using f assms by (intro sb_start_child_ok) (simp_all add: deps_inv_def child_kinds_def)
  then have "obj_step_ok i (MStabilize ?s) w
      (lift_step MStabilize (sb_start_child env
        (LGetPredAndSuccList (GetPredAndSuccList_new (w_next_oid w) sc (w_now w))) ?s
        (w\<lparr>w_next_oid := Suc (w_next_oid w)\<rparr>)))"
    using assms(2) by (fastforce simp: obj_step_ok_def)
  then show ?thesis
    using f sc assms(1) by (simp add: run_message_def sb_create_request_def Let_def split_def)
qed

subsection \<open>BroadcastFilelist\<close>

lemma bf_frames [simp]:
  "base_inv (b\<lparr>bf_deps := ds\<rparr>) = base_inv b" "base_inv (b\<lparr>bf_flag := f\<rparr>) = base_inv b"
  "base_inv (b\<lparr>mb_time_point := t\<rparr>) = base_inv b" "base_inv (b\<lparr>mb_state := st\<rparr>) = base_inv b"
  "base_inv (b\<lparr>mb_is_done := d\<rparr>) = base_inv b"
  for b :: BroadcastFilelist
  by (simp_all add: base_inv_def)

text \<open>What the broadcast does with the notifications of its transfers: it keeps its dependencies
  and hands on their handlers.\<close>

lemma absorb_bf:
  assumes "\<forall>s \<in> set sigs. signal_sound s"
  shows "\<exists>b' out. absorb bf_on_signal sigs b w = Inr (b', w, out) \<and> bf_deps b' = bf_deps b \<and>
    mb_oid b' = mb_oid b \<and> base_inv b' = base_inv b \<and> mb_type b' = mb_type b \<and>
    sig_handlers out = sig_handlers sigs \<and> (\<forall>s \<in> set out. signal_sound s)"
  using assms
proof (induction sigs arbitrary: b)
  case Nil
  then show ?case by simp
next
  case (Cons s sigs)
  have "\<exists>b1 out1. bf_on_signal s b w = Inr (b1, w, out1) \<and> bf_deps b1 = bf_deps b \<and>
      mb_oid b1 = mb_oid b \<and> base_inv b1 = base_inv b \<and> mb_type b1 = mb_type b \<and>
      sig_handlers out1 = sig_handlers [s] \<and> (\<forall>s \<in> set out1. signal_sound s)"
    using Cons.prems by (cases s) (auto simp: bf_on_signal_def bf_notify_def finish_defs Let_def)
  then obtain b1 out1 where b1: "bf_on_signal s b w = Inr (b1, w, out1)" "bf_deps b1 = bf_deps b"
    "mb_oid b1 = mb_oid b" "base_inv b1 = base_inv b" "mb_type b1 = mb_type b"
    "sig_handlers out1 = sig_handlers [s]" "\<forall>s \<in> set out1. signal_sound s"
    by blast
  from Cons.IH [of b1] Cons.prems obtain b' out where
    "absorb bf_on_signal sigs b1 w = Inr (b', w, out)" "bf_deps b' = bf_deps b1"
    "mb_oid b' = mb_oid b1" "base_inv b' = base_inv b1" "mb_type b' = mb_type b1"
    "sig_handlers out = sig_handlers sigs" "\<forall>s \<in> set out. signal_sound s"
    by auto
  with b1 show ?case
    using sig_handlers_append [of "[s]" sigs] by auto
qed

text \<open>Two steps of a broadcast, one after the other.\<close>

lemma bf_seq:
  assumes a: "obj_step_ok (w_next_oid w) (MBroadcast b) w (Inr (MBroadcast b1, w1, out1))"
    and r: "obj_step_ok (w_next_oid w1) (MBroadcast b1) w1 (lift_step MBroadcast r)"
  shows "obj_step_ok (w_next_oid w) (MBroadcast b) w
    (lift_step MBroadcast (res_bind r (\<lambda>(b2, w2, out2). Inr (b2, w2, out1 @ out2))))"
proof (cases r)
  case (Inl e)
  with r show ?thesis by (simp add: lift_step_def)
next
  case (Inr x)
  obtain b2 w2 out2 where x: "x = (b2, w2, out2)" by (cases x)
  let ?h1 = "set (sig_handlers out1)" and ?h2 = "set (sig_handlers out2)"
  note a = a [unfolded obj_step_ok_Inr]
  from r Inr x have r: "obj_step_ok (w_next_oid w1) (MBroadcast b1) w1 (Inr (MBroadcast b2, w2, out2))"
    by (simp add: lift_step_def)
  note r = r [unfolded obj_step_ok_Inr]
  have "\<forall>h \<in> ?h1. ho_parent h < w_next_oid w1" "\<forall>h \<in> ?h2. w_next_oid w1 \<le> ho_parent h"
    using a r by simp_all
  then have "ho_parent h \<noteq> ho_parent h'" if "h \<in> ?h1" "h' \<in> ?h2" for h h'
    using that by fastforce
  then have disj: "ho_parent ` ?h1 \<inter> ho_parent ` ?h2 = {}" by blast
  have inj: "inj_on ho_parent (?h1 \<union> ?h2)"
    using a r disj by (auto simp: inj_on_Un)
  have oids: "\<forall>i \<in> set (dep_oids (MBroadcast b2)). i \<in> set (dep_oids (MBroadcast b)) \<or>
      (w_next_oid w \<le> i \<and> i < w_next_oid w2)"
    using a r by (meson le_trans less_le_trans)
  have bounds: "\<forall>h \<in> ?h1 \<union> ?h2. w_next_oid w \<le> ho_parent h \<and> ho_parent h < w_next_oid w2"
    using a r by (meson UnE le_trans less_le_trans)
  have "obj_step_ok (w_next_oid w) (MBroadcast b) w (Inr (MBroadcast b2, w2, out1 @ out2))"
    unfolding obj_step_ok_Inr sig_handlers_append set_append
    using a r inj oids bounds by (simp only: obj_handlers_ok.simps) (auto intro: le_trans)
  then show ?thesis using Inr x by (simp add: lift_step_def)
qed

lemma bf_fetch_one_ok:
  assumes w: "world_inv w" and b: "obj_inv (MBroadcast b)"
  shows "obj_step_ok (w_next_oid w) (MBroadcast b) w (lift_step MBroadcast
    (res_bind (leaf_run env (LGetFile (GetFile_new (w_next_oid w) owner f (w_now w)))
        (w\<lparr>w_next_oid := Suc (w_next_oid w)\<rparr>)) (\<lambda>(l, w2, sigs).
      absorb bf_on_signal sigs (b\<lparr>bf_deps := bf_deps b @ [(l, False)]\<rparr>) w2)))"
proof -
  let ?i = "w_next_oid w" and ?w1 = "w\<lparr>w_next_oid := Suc (w_next_oid w)\<rparr>"
  let ?l = "LGetFile (GetFile_new ?i owner f (w_now w))"
  have w1: "world_inv ?w1" using w by simp
  show ?thesis
  proof (cases "leaf_run env ?l ?w1")
    case (Inl e)
    with leaf_run_result [of ?l env ?w1] show ?thesis by (simp add: lift_step_def)
  next
    case (Inr x)
    obtain l w2 sigs where x: "x = (l, w2, sigs)" by (cases x)
    note eq = Inr [unfolded x]
    note l = leaf_run_inv [OF new_leaf_fresh(8) w1 eq]
    have nh: "\<not> leaf_is_handler ?l" by (simp add: leaf_is_handler_def leaf_new_defs)
    from leaf_run_result [of ?l env ?w1] eq
    have "length (sig_handlers sigs) \<le> 1" by (simp add: leaf_result_Inr)
    then have inj: "inj_on ho_parent (set (sig_handlers sigs))"
      by (cases "sig_handlers sigs") auto
    have sound: "\<forall>s \<in> set sigs. signal_sound s" using l(8) sig_ok_sound by blast
    let ?b = "b\<lparr>bf_deps := bf_deps b @ [(l, False)]\<rparr>"
    obtain b3 out3 where b3: "absorb bf_on_signal sigs ?b w2 = Inr (b3, w2, out3)"
      "bf_deps b3 = bf_deps ?b" "mb_oid b3 = mb_oid ?b" "base_inv b3 = base_inv ?b"
      "sig_handlers out3 = sig_handlers sigs" "\<forall>s \<in> set out3. signal_sound s"
      using absorb_bf [OF sound] by blast
    have inv3: "obj_inv (MBroadcast b3)"
      using b3 l(1,3,4) b nh by (auto simp: deps_inv_def child_kinds_def)
    have parents: "\<forall>h \<in> set (sig_handlers sigs). ho_parent h = ?i"
      using sig_ok_parent [OF l(8)] by simp
    show ?thesis
      using eq b3(1,2,3,5,6) inv3 inj parents l(2,5,6,7)
      by (simp add: lift_step_def obj_step_ok_Inr)
  qed
qed

lemma bf_fetch_ok:
  assumes "world_inv w" "obj_inv (MBroadcast b)"
  shows "obj_step_ok (w_next_oid w) (MBroadcast b) w (lift_step MBroadcast (bf_fetch env p fs b w))"
  using assms
proof (induction fs arbitrary: b w)
  case Nil
  then show ?case by (simp add: lift_step_def obj_step_ok_Inr)
next
  case (Cons f fs)
  show ?case
  proof (cases "file_exists (file_name f) (w_storage w)")
    case True
    with Cons show ?thesis by simp
  next
    case False
    let ?r = "res_bind (leaf_run env (LGetFile (GetFile_new (w_next_oid w) p f (w_now w)))
        (w\<lparr>w_next_oid := Suc (w_next_oid w)\<rparr>)) (\<lambda>(l, w2, sigs).
      absorb bf_on_signal sigs (b\<lparr>bf_deps := bf_deps b @ [(l, False)]\<rparr>) w2)"
    have unfold: "bf_fetch env p (f # fs) b w = res_bind ?r (\<lambda>(b3, w3, out3).
        res_bind (bf_fetch env p fs b3 w3) (\<lambda>(b4, w4, out4). Inr (b4, w4, out3 @ out4)))"
      using False by (simp add: split_def Let_def res_bind_assoc)
    from bf_fetch_one_ok [OF Cons.prems, of env p f]
    have one: "obj_step_ok (w_next_oid w) (MBroadcast b) w (lift_step MBroadcast ?r)" .
    show ?thesis
    proof (cases ?r)
      case (Inl e)
      with one show ?thesis unfolding unfold by (simp add: lift_step_def)
    next
      case (Inr x)
      obtain b3 w3 out3 where x: "x = (b3, w3, out3)" by (cases x)
      with one Inr have a: "obj_step_ok (w_next_oid w) (MBroadcast b) w (Inr (MBroadcast b3, w3, out3))"
        by (simp add: lift_step_def)
      then have "world_inv w3" "obj_inv (MBroadcast b3)" by (simp_all only: obj_step_ok_Inr)
      from bf_seq [OF a Cons.IH [OF this]] show ?thesis
        unfolding unfold Inr x by simp
    qed
  qed
qed

lemma obj_step_ok_weaken: "obj_step_ok N ob w r \<Longrightarrow> M \<le> N \<Longrightarrow> obj_step_ok M ob w r"
  by (cases r) (auto simp: obj_step_ok_def intro: order_trans)

lemma bf_send_simps:
  "snd (bf_send env ps fs t b w) = w\<lparr>w_counter := next_counter (w_counter w)\<rparr>"
  "request_sound (fst (bf_send env ps fs t b w))"
  by (simp_all add: bf_send_def split_def)

text \<open>The end of a broadcast's request: the message to the next node, and perhaps the end.\<close>

lemma bf_after_fetch:
  assumes f: "obj_step_ok N (MBroadcast b) w (Inr (MBroadcast b2, w2, sigs))"
    and same: "bf_deps b3 = bf_deps b2" "mb_oid b3 = mb_oid b2" "base_inv b3 = base_inv b2"
    and s: "request_sound q"
  shows "obj_step_ok N (MBroadcast b) w
      (Inr (MBroadcast b3, w2\<lparr>w_counter := c\<rparr>, sigs @ [Sig q]))"
    and "obj_step_ok N (MBroadcast b) w
      (lift_step MBroadcast (finish_as st b3 (w2\<lparr>w_counter := c\<rparr>) (sigs @ [Sig q])))"
  using assms by (auto simp: obj_step_ok_Inr finish_defs lift_step_def)

lemma bf_handle_request_ok:
  assumes w: "world_inv w" and b: "base_inv b" "bf_deps b = []" "mb_request b \<noteq> None"
  shows "obj_step_ok (w_next_oid w) (MBroadcast b) w (lift_step MBroadcast (bf_handle_request env b w))"
proof -
  obtain req where req: "mb_request b = Some req" using b(3) by blast
  with b have m: "get_message req = Inr (the (ro_message req))"
    by (simp add: base_inv_def get_message_sound)
  obtain me where me: "rt_self (w_table w) = Some me"
    using w by (metis rt_invD world_invD(1))
  let ?m = "the (ro_message req)" and ?b = "b\<lparr>bf_flag := False\<rparr>"
  let ?peers = "msg_peers ?m @ [me]"
  have inv: "obj_inv (MBroadcast ?b)" "obj_inv (MBroadcast b)"
    using b by (simp_all add: deps_inv_def child_kinds_def)
  have fin: "obj_step_ok (w_next_oid w) (MBroadcast b) w (lift_step MBroadcast (finish_as DONE b w []))"
    using inv w by (simp add: finish_defs lift_step_def obj_step_ok_Inr)
  obtain owner where owner: "front ?peers = Inr owner" by (cases ?peers) auto
  let ?f = "bf_fetch env owner (msg_files ?m) ?b w"
  have f: "obj_step_ok (w_next_oid w) (MBroadcast ?b) w (lift_step MBroadcast ?f)"
    by (rule bf_fetch_ok [OF w inv(1)])
  then have f: "obj_step_ok (w_next_oid w) (MBroadcast b) w (lift_step MBroadcast ?f)"
    by (cases ?f) (auto simp: obj_step_ok_def lift_step_def)
  show ?thesis
  proof (cases ?f)
    case (Inl e)
    with f have "soft e" by (simp add: lift_step_def)
    with Inl fin req m me owner w show ?thesis
      unfolding bf_handle_request_def by (simp add: Let_def split_def lift_step_def)
  next
    case (Inr x)
    obtain b2 w2 sigs where x: "x = (b2, w2, sigs)" by (cases x)
    with Inr f have f2: "obj_step_ok (w_next_oid w) (MBroadcast b) w (Inr (MBroadcast b2, w2, sigs))"
      by (simp add: lift_step_def)
    then have w2: "world_inv w2" by (simp add: obj_step_ok_Inr)
    then obtain t ts where t: "rt_successor_list (w_table w2) = t # ts" by (metis rt_invD world_invD(1))
    let ?b3 = "b2\<lparr>bf_flag := True\<rparr>"
    let ?q = "fst (bf_send env ?peers (msg_files ?m) t ?b3 w2)"
    let ?s = "Sig ?q"
    note after = bf_after_fetch [OF f2 _ _ _ bf_send_simps(2) [of env ?peers "msg_files ?m" t ?b3 w2]]
    have eq: "bf_handle_request env b w =
        (if list_ex (\<lambda>p. peer_ip p = peer_ip me \<and> peer_port p = peer_port me) (msg_peers ?m)
         then finish_as DONE b w []
         else if bf_deps b2 = []
         then finish_as DONE ?b3 (w2\<lparr>w_counter := next_counter (w_counter w2)\<rparr>) (sigs @ [?s])
         else Inr (?b3\<lparr>mb_state := DONE\<rparr>, w2\<lparr>w_counter := next_counter (w_counter w2)\<rparr>, sigs @ [?s]))"
      unfolding bf_handle_request_def
      using req m me owner w Inr x w2 t
      by (simp add: Let_def split_def bf_send_simps)
    show ?thesis
      unfolding eq using fin after(1) [of "?b3\<lparr>mb_state := DONE\<rparr>"] after(2) [of ?b3]
      by (simp add: lift_step_def)
  qed
qed

lemma bf_create_request_ok:
  assumes w: "world_inv w" and b: "base_inv b" "bf_deps b = []"
  shows "obj_step_ok (w_next_oid w) (MBroadcast b) w (lift_step MBroadcast (bf_create_request env b w))"
proof -
  obtain me where me: "rt_self (w_table w) = Some me"
    using w by (metis rt_invD world_invD(1))
  obtain t ts where t: "rt_successor_list (w_table w) = t # ts" using w by (metis rt_invD world_invD(1))
  show ?thesis
    using w b me t
    by (simp add: bf_create_request_def split_def Let_def bf_send_simps finish_defs lift_step_def
        obj_step_ok_Inr deps_inv_def child_kinds_def)
qed

lemma find_child_SomeD:
  "find_child i ds = Some d \<Longrightarrow> leaf_oid d = i \<and> (\<exists>e. (d, e) \<in> set ds)"
  by (induction ds) (auto simp: find_child_def split: if_splits)

text \<open>A response or a write completion for one of the transfers.\<close>

lemma bf_child_ok:
  assumes inv: "obj_inv (MBroadcast b)" and d: "find_child i (bf_deps b) = Some d"
    and r: "\<And>e. f d w = Inl e \<Longrightarrow> soft e"
      "\<And>d' w' sigs. f d w = Inr (d', w', sigs) \<Longrightarrow> leaf_inv d' \<and> leaf_oid d' = leaf_oid d \<and>
         leaf_kind d' = leaf_kind d \<and> leaf_is_handler d' = leaf_is_handler d \<and> world_inv w' \<and>
         w_now w' = w_now w \<and> w_next_oid w' = w_next_oid w \<and>
         (\<forall>s \<in> set sigs. sig_ok (leaf_oid d) s) \<and> sig_handlers sigs = []"
  shows "obj_step_ok N (MBroadcast b) w (lift_step MBroadcast (bf_child (f d w) b))"
proof (cases "f d w")
  case (Inl e)
  with r(1) show ?thesis by (simp add: bf_child_def lift_step_def)
next
  case (Inr x)
  obtain d' w' sigs where x: "x = (d', w', sigs)" by (cases x)
  from r(2) [OF Inr [unfolded x]] have d': "leaf_inv d'" "leaf_oid d' = leaf_oid d"
    "leaf_kind d' = leaf_kind d" "leaf_is_handler d' = leaf_is_handler d" "world_inv w'"
    "w_now w' = w_now w" "w_next_oid w' = w_next_oid w" "\<forall>s \<in> set sigs. sig_ok (leaf_oid d) s"
    "sig_handlers sigs = []"
    by blast+
  let ?b = "b\<lparr>bf_deps := set_child d' (bf_deps b)\<rparr>"
  obtain e where "(d, e) \<in> set (bf_deps b)" using find_child_SomeD [OF d] by blast
  with inv have k: "leaf_kind d' \<in> {GET_FILE}" "\<not> leaf_is_handler d'"
    using d'(3,4) by (auto simp: child_kinds_def)
  have parts: "base_inv b" "deps_inv (bf_deps b)" "child_kinds {GET_FILE} (bf_deps b)"
    using inv by simp_all
  note sc = set_child_inv [OF parts(2,3) _ d'(1) k, of "\<lambda>_. True"]
  have sound: "\<forall>s \<in> set sigs. signal_sound s" using d'(8) sig_ok_sound by blast
  obtain b' out where b': "absorb bf_on_signal sigs ?b w' = Inr (b', w', out)"
    "bf_deps b' = bf_deps ?b" "mb_oid b' = mb_oid ?b" "base_inv b' = base_inv ?b"
    "sig_handlers out = sig_handlers sigs" "\<forall>s \<in> set out. signal_sound s"
    using absorb_bf [OF sound, of ?b w'] by blast
  have inv': "obj_inv (MBroadcast b')"
    unfolding obj_inv.simps b'(2,4) using parts(1) sc by simp
  have oids: "own_oid (MBroadcast b') = own_oid (MBroadcast b)"
    "dep_oids (MBroadcast b') = dep_oids (MBroadcast b)"
    unfolding own_dep_oids b'(2,3) using set_child_oids [of d' "bf_deps b"] by simp_all
  have "bf_child (f d w) b = Inr (b', w', out)"
    using Inr x b'(1) by (simp add: bf_child_def)
  then show ?thesis
    using inv' oids d'(5-7,9) b'(5,6)
    by (simp add: lift_step_def obj_step_ok_Inr del: own_dep_oids obj_inv.simps)
qed

end
