(* ===== verification/Node_Steps.thy ===== *)
theory Node_Steps
  imports Node_Safety
begin

section \<open>The steps of a node\<close>

text \<open>
  The threads of a node as labelled steps: the dispatcher's receive and send loops, the write
  completions of the sessions, the two loops of the message handler, \<open>join\<close>, and the clock.
  Every step is the whole of a locked operation; the threads interleave between them.
\<close>

datatype node_event =
    EvReceive "byte list" session_id
  | EvWritten oid bool
  | EvChord
  | EvPaste
  | EvJoin string string
  | EvSend
  | EvTick nat

fun node_step ::
  "Env \<Rightarrow> (byte list \<Rightarrow> pb_Request) \<Rightarrow> (pb_Request \<Rightarrow> byte list) \<Rightarrow> (string \<Rightarrow> string \<Rightarrow> bool) \<Rightarrow>
   node_event \<Rightarrow> node \<Rightarrow> node res" where
  "node_step env parse ser resolves (EvReceive buf s) nd = receive env parse buf s nd"
| "node_step env parse ser resolves (EvWritten i failed) nd = on_write env i failed nd"
| "node_step env parse ser resolves EvChord nd = run_chord_round env nd"
| "node_step env parse ser resolves EvPaste nd = run_paste_round env nd"
| "node_step env parse ser resolves (EvJoin a p) nd = handler_join env a p nd"
| "node_step env parse ser resolves EvSend nd =
     res_bind (run_send ser resolves nd) (\<lambda>(cmds, nd'). Inr nd')"
| "node_step env parse ser resolves (EvTick ms) nd =
     Inr (nd\<lparr>nd_world := (nd_world nd)\<lparr>w_now := w_now (nd_world nd) + ms\<rparr>\<rparr>)"

inductive node_reachable ::
  "Env \<Rightarrow> (byte list \<Rightarrow> pb_Request) \<Rightarrow> (pb_Request \<Rightarrow> byte list) \<Rightarrow> (string \<Rightarrow> string \<Rightarrow> bool) \<Rightarrow>
   node \<Rightarrow> bool"
  for env parse ser resolves where
  started: "distinct entries \<Longrightarrow>
    node_reachable env parse ser resolves
      (handler_init (MessageHandler_new env ip port (rt_new s p t) db fs can entries now))"
| stepped: "node_reachable env parse ser resolves nd \<Longrightarrow>
    node_step env parse ser resolves ev nd = Inr nd' \<Longrightarrow>
    node_reachable env parse ser resolves nd'"

subsection \<open>The invariant\<close>

definition node_inv :: "node \<Rightarrow> bool" where
  "node_inv nd \<longleftrightarrow>
     world_inv (nd_world nd) \<and>
     (\<forall>ob \<in> set (nd_active nd). obj_inv ob \<and> obj_handlers_ok (set (nd_handlers nd)) ob \<and>
        (\<forall>i \<in> set (obj_oids ob). i < w_next_oid (nd_world nd))) \<and>
     set_wf ho_correlation_id (nd_handlers nd) \<and>
     inj_on ho_parent (set (nd_handlers nd)) \<and>
     (\<forall>h \<in> set (nd_handlers nd). ho_parent h < w_next_oid (nd_world nd)) \<and>
     (\<forall>r \<in> set (nd_send_queue nd). request_sound r)"

text \<open>Fewer handlers are as good.\<close>

lemma obj_handlers_ok_mono: "obj_handlers_ok hs ob \<Longrightarrow> hs' \<subseteq> hs \<Longrightarrow> obj_handlers_ok hs' ob"
  by (cases ob) auto

lemma obj_handlers_ok_Un:
  "obj_handlers_ok (hs \<union> hs') ob \<longleftrightarrow> obj_handlers_ok hs ob \<and> obj_handlers_ok hs' ob"
  by (cases ob) auto

text \<open>Handlers of other objects do not matter.\<close>

lemma obj_handlers_ok_other:
  "(\<forall>h \<in> hs. ho_parent h \<notin> set (obj_oids ob)) \<Longrightarrow> obj_handlers_ok hs ob"
  by (cases ob) (auto simp: obj_oids_eq)

subsection \<open>Notifications\<close>

lemma observe_frames [simp]:
  "nd_world (handler_observe alive s nd) = nd_world nd"
  "nd_active (handler_observe alive s nd) = nd_active nd"
  by (cases s; simp)+

lemma observes_frames [simp]:
  "nd_world (fold (handler_observe alive) sigs nd) = nd_world nd"
  "nd_active (fold (handler_observe alive) sigs nd) = nd_active nd"
  by (induction sigs arbitrary: nd) simp_all

lemma observes_handlers:
  "set (nd_handlers (fold (handler_observe alive) sigs nd)) \<subseteq>
     set (nd_handlers nd) \<union> set (sig_handlers sigs)"
proof (induction sigs arbitrary: nd)
  case Nil
  then show ?case by simp
next
  case (Cons s sigs)
  have "set (nd_handlers (handler_observe alive s nd)) \<subseteq> set (nd_handlers nd) \<union> set (sig_handlers [s])"
    using set_set_insert [of ho_correlation_id]
    by (cases s) (auto simp: set_erase_if_filter)
  moreover have "sig_handlers (s # sigs) = sig_handlers [s] @ sig_handlers sigs"
    using sig_handlers_append [of "[s]" sigs] by simp
  ultimately show ?case using Cons.IH [of "handler_observe alive s nd"] by auto
qed

lemma observes_wf:
  "set_wf ho_correlation_id (nd_handlers nd) \<Longrightarrow>
     set_wf ho_correlation_id (nd_handlers (fold (handler_observe alive) sigs nd))"
proof (induction sigs arbitrary: nd)
  case Nil
  then show ?case by simp
next
  case (Cons s sigs)
  have "set_wf ho_correlation_id (nd_handlers (handler_observe alive s nd))"
    using Cons.prems
    by (cases s) (simp_all add: conc_set.wf_insert conc_set.wf_purge)
  with Cons.IH show ?case by simp
qed

lemma observes_queue:
  "\<forall>s \<in> set sigs. signal_sound s \<Longrightarrow> \<forall>r \<in> set (nd_send_queue nd). request_sound r \<Longrightarrow>
     \<forall>r \<in> set (nd_send_queue (fold (handler_observe alive) sigs nd)). request_sound r"
proof (induction sigs arbitrary: nd)
  case Nil
  then show ?case by simp
next
  case (Cons s sigs)
  have "\<forall>r \<in> set (nd_send_queue (handler_observe alive s nd)). request_sound r"
    using Cons.prems by (cases s) (auto simp: queue_push_def)
  with Cons show ?case by simp
qed

text \<open>What remains of the invariant when the notifications of a step have been taken in: \<open>nd\<close> is the
  node before them, and its objects and handlers are those of the step's start but for the
  object that made the step.\<close>

lemma observes_inv:
  assumes w: "world_inv w'" and le: "N \<le> w_next_oid w'"
    and obs: "\<forall>ob \<in> set obs. obj_inv ob \<and> obj_handlers_ok (set hs) ob \<and>
        obj_handlers_ok (set (sig_handlers sigs)) ob \<and> (\<forall>i \<in> set (obj_oids ob). i < w_next_oid w')"
    and hs: "set_wf ho_correlation_id hs" "inj_on ho_parent (set hs)" "\<forall>h \<in> set hs. ho_parent h < N"
    and new: "\<forall>h \<in> set (sig_handlers sigs). N \<le> ho_parent h \<and> ho_parent h < w_next_oid w'"
      "inj_on ho_parent (set (sig_handlers sigs))"
    and q: "\<forall>s \<in> set sigs. signal_sound s" "\<forall>r \<in> set (nd_send_queue nd). request_sound r"
    and nd: "nd_handlers nd = hs"
    and fin: "nd' = (fold (handler_observe alive) sigs nd)\<lparr>nd_active := obs, nd_world := w'\<rparr>"
  shows "node_inv nd'"
proof -
  let ?H = "set (nd_handlers (fold (handler_observe alive) sigs nd))"
  have sub: "?H \<subseteq> set hs \<union> set (sig_handlers sigs)" using observes_handlers nd by blast
  have "\<forall>h \<in> set hs. \<forall>h' \<in> set (sig_handlers sigs). ho_parent h \<noteq> ho_parent h'"
    using hs(3) new(1) by fastforce
  then have "inj_on ho_parent (set hs \<union> set (sig_handlers sigs))"
    using hs(2) new(2) by (auto simp: inj_on_Un)
  then have inj: "inj_on ho_parent ?H" using sub by (rule inj_on_subset)
  have lt: "\<forall>h \<in> ?H. ho_parent h < w_next_oid w'"
    using sub hs(3) new(1) le by (meson UnE less_le_trans subsetD)
  have ok: "obj_handlers_ok ?H ob" if "ob \<in> set obs" for ob
    using obs that by (intro obj_handlers_ok_mono [OF _ sub]) (simp add: obj_handlers_ok_Un)
  have wf: "set_wf ho_correlation_id (nd_handlers (fold (handler_observe alive) sigs nd))"
    by (rule observes_wf) (simp add: nd hs)
  have qs: "\<forall>r \<in> set (nd_send_queue (fold (handler_observe alive) sigs nd)). request_sound r"
    by (rule observes_queue) (use q in simp_all)
  show ?thesis
    unfolding fin node_inv_def using w obs ok inj lt wf qs by simp
qed

subsection \<open>Starting an object\<close>

definition node_ok :: "node res \<Rightarrow> bool" where
  "node_ok r = (case r of Inl e \<Rightarrow> soft e | Inr nd \<Rightarrow> node_inv nd)"

lemma node_ok_simps [simp]: "node_ok (Inl e) = soft e" "node_ok (Inr nd) = node_inv nd"
  by (simp_all add: node_ok_def)

lemma node_ok_bind:
  assumes "\<And>e. r = Inl e \<Longrightarrow> soft e" "\<And>x. r = Inr x \<Longrightarrow> node_ok (f x)"
  shows "node_ok (res_bind r f)"
  using assms by (cases r) simp_all

text \<open>A new object: its number and those of its dependencies are not in use.\<close>

lemma run_object_ok:
  assumes inv: "node_inv nd" and N: "N = w_next_oid (nd_world nd)" "N \<le> w_next_oid w"
    and step: "obj_step_ok N ob w (obj_run env ob w)"
    and oids: "\<forall>i \<in> set (obj_oids ob). N \<le> i \<and> i < w_next_oid w"
  shows "node_ok (run_object env ob (nd\<lparr>nd_world := w\<rparr>))"
proof (cases "obj_run env ob w")
  case (Inl e)
  with step show ?thesis by (simp add: run_object_def)
next
  case (Inr x)
  obtain ob' w' sigs where x: "x = (ob', w', sigs)" by (cases x)
  note s = step [unfolded Inr x obj_step_ok_Inr]
  let ?alive = "alive_oids (nd_active nd) @ obj_oids ob'"
  let ?nd = "(nd\<lparr>nd_world := w\<rparr>)\<lparr>nd_world := w'\<rparr>"
  let ?nd' = "fold (handler_observe ?alive) sigs ?nd"
  have res: "run_object env ob (nd\<lparr>nd_world := w\<rparr>) =
      Inr (?nd'\<lparr>nd_active := deque_push_back ob' (nd_active ?nd')\<rparr>)"
    using Inr x by (simp add: run_object_def Let_def)
  have le: "N \<le> w_next_oid w'" using s N(2) by simp
  have oids': "\<forall>i \<in> set (obj_oids ob'). N \<le> i \<and> i < w_next_oid w'"
  proof
    fix i assume "i \<in> set (obj_oids ob')"
    then have "i = own_oid ob \<or> i \<in> set (dep_oids ob) \<or> (w_next_oid w \<le> i \<and> i < w_next_oid w')"
      using s by (auto simp: obj_oids_eq)
    then show "N \<le> i \<and> i < w_next_oid w'"
      using oids s N(2) by (auto simp: obj_oids_eq intro: le_trans less_le_trans)
  qed
  have old: "\<forall>o' \<in> set (nd_active nd). \<forall>i \<in> set (obj_oids o'). i < N"
    using inv N(1) by (auto simp: node_inv_def)
  have hs: "\<forall>h \<in> set (nd_handlers nd). ho_parent h < N"
    using inv N(1) by (auto simp: node_inv_def)
  have old_ok: "obj_handlers_ok (set (sig_handlers sigs)) o'" if "o' \<in> set (nd_active nd)" for o'
    using old that s by (intro obj_handlers_ok_other) (meson not_le)
  have new_ok: "obj_handlers_ok (set (nd_handlers nd)) ob'"
    using hs oids' by (intro obj_handlers_ok_other) (meson not_le)
  have obs: "\<forall>o' \<in> set (nd_active nd @ [ob']). obj_inv o' \<and> obj_handlers_ok (set (nd_handlers nd)) o' \<and>
      obj_handlers_ok (set (sig_handlers sigs)) o' \<and> (\<forall>i \<in> set (obj_oids o'). i < w_next_oid w')"
    using inv old old_ok new_ok s oids' le
    by (auto simp: node_inv_def intro: less_le_trans)
  have "node_inv (?nd'\<lparr>nd_active := deque_push_back ob' (nd_active ?nd')\<rparr>)"
  proof (rule observes_inv [OF _ le obs])
    show "world_inv w'" using s by simp
    show "set_wf ho_correlation_id (nd_handlers nd)" "inj_on ho_parent (set (nd_handlers nd))"
      "\<forall>h \<in> set (nd_handlers nd). ho_parent h < N"
      using inv hs by (auto simp: node_inv_def)
    show "\<forall>h \<in> set (sig_handlers sigs). N \<le> ho_parent h \<and> ho_parent h < w_next_oid w'"
      "inj_on ho_parent (set (sig_handlers sigs))" "\<forall>s \<in> set sigs. signal_sound s"
      using s by simp_all
    show "\<forall>r \<in> set (nd_send_queue ?nd). request_sound r"
      using inv by (simp add: node_inv_def)
    show "nd_handlers ?nd = nd_handlers nd" by simp
    show "?nd'\<lparr>nd_active := deque_push_back ob' (nd_active ?nd')\<rparr> =
        (fold (handler_observe ?alive) sigs ?nd)\<lparr>nd_active := nd_active nd @ [ob'], nd_world := w'\<rparr>"
      by (simp add: deque_push_back_def)
  qed
  then show ?thesis unfolding res by simp
qed

lemma leaf_run_step_ok:
  assumes l: "leaf_fresh l" and w: "world_inv w" and i: "N \<le> leaf_oid l" "leaf_oid l < w_next_oid w"
  shows "obj_step_ok N (MLeaf l) w (obj_run env (MLeaf l) w)"
proof (cases "leaf_run env l w")
  case (Inl e)
  with leaf_run_result [OF l, of env w] show ?thesis by (simp add: lift_step_def)
next
  case (Inr x)
  obtain l' w' sigs where x: "x = (l', w', sigs)" by (cases x)
  note eq = Inr [unfolded x]
  note l' = leaf_run_inv [OF l w eq]
  from leaf_run_result [OF l, of env w] eq have r: "leaf_result l (Inr (l', w', sigs))" by simp
  have parents: "\<forall>h \<in> set (sig_handlers sigs). ho_parent h = leaf_oid l"
    using sig_ok_parent [OF l'(8)] by blast
  have "length (sig_handlers sigs) \<le> 1" using r by (simp add: leaf_result_Inr)
  then have inj: "inj_on ho_parent (set (sig_handlers sigs))" by (cases "sig_handlers sigs") auto
  have sound: "\<forall>s \<in> set sigs. signal_sound s" using l'(8) sig_ok_sound by blast
  show ?thesis
    using eq l' i parents inj sound r
    by (auto simp: lift_step_def obj_step_ok_Inr leaf_result_Inr)
qed

text \<open>The five local requests.\<close>

lemma local_leaf_ok:
  assumes inv: "node_inv nd" and l: "\<And>i w. leaf_fresh (mk i w)" "\<And>i w. leaf_oid (mk i w) = i"
  shows "node_ok (with_new_oid (\<lambda>i w. (MLeaf (mk i w), w)) env nd)"
proof -
  let ?w = "(nd_world nd)\<lparr>w_next_oid := Suc (w_next_oid (nd_world nd))\<rparr>"
  let ?ob = "MLeaf (mk (w_next_oid (nd_world nd)) ?w)"
  have w: "world_inv ?w" using inv by (simp add: node_inv_def)
  have "obj_step_ok (w_next_oid (nd_world nd)) ?ob ?w (obj_run env ?ob ?w)"
    using l w by (intro leaf_run_step_ok) simp_all
  then have "node_ok (run_object env ?ob (nd\<lparr>nd_world := ?w\<rparr>))"
    by (intro run_object_ok [OF inv refl]) (use l in \<open>simp_all add: obj_oids_eq\<close>)
  then show ?thesis by (simp add: with_new_oid_def split_def)
qed

lemma handler_check_predecessor_ok: "node_inv nd \<Longrightarrow> node_ok (handler_check_predecessor env nd)"
proof -
  have "leaf_oid (LCheckPredecessor (CheckPredecessor_new i now)) = i" for i now
    by (simp add: leaf_oid_def leaf_new_defs)
  then show "node_inv nd \<Longrightarrow> ?thesis"
    unfolding handler_check_predecessor_def by (intro local_leaf_ok) simp_all
qed

lemma handler_notify_ok: "node_inv nd \<Longrightarrow> node_ok (handler_notify env nd)"
  unfolding handler_notify_def by (rule local_leaf_ok) simp_all

lemma handler_join_ok:
  assumes inv: "node_inv nd"
  shows "node_ok (handler_join env a p nd)"
proof -
  let ?N = "w_next_oid (nd_world nd)"
  let ?w0 = "(nd_world nd)\<lparr>w_next_oid := Suc ?N\<rparr>"
  obtain j w where j: "Join_new ?N a p ?w0 = (j, w)" by (cases "Join_new ?N a p ?w0")
  have "world_inv ?w0" "?N < w_next_oid ?w0" using inv by (simp_all add: node_inv_def)
  note r = join_run_ok [OF j this]
  have "node_ok (run_object env (MJoin j) (nd\<lparr>nd_world := w\<rparr>))"
    by (rule run_object_ok [OF inv refl _ r(1)]) (use r(3,4,7) in \<open>auto simp: obj_oids_eq\<close>)
  then show ?thesis
    using j by (simp add: handler_join_def with_new_oid_def split_def)
qed

lemma node_inv_flag:
  "node_inv (nd\<lparr>nd_world := (nd_world nd)\<lparr>w_stabilize_flag := b\<rparr>\<rparr>) = node_inv nd"
  by (simp add: node_inv_def)

lemma stabilize_new_fields:
  "mb_oid (Stabilize_new i now) = i" "sb_deps (Stabilize_new i now) = []"
  by (simp_all add: Stabilize_new_def MessagingBase.defs MessagingBase_new_def Stabilize.defs)

lemma handler_stabilize_ok:
  assumes "node_inv nd"
  shows "node_ok (handler_stabilize env nd)"
proof -
  let ?nd = "nd\<lparr>nd_world := (nd_world nd)\<lparr>w_stabilize_flag := True\<rparr>\<rparr>"
  have inv: "node_inv ?nd" using assms by (simp add: node_inv_flag)
  let ?N = "w_next_oid (nd_world nd)"
  let ?w = "(nd_world ?nd)\<lparr>w_next_oid := Suc ?N\<rparr>"
  let ?s = "MStabilize (Stabilize_new ?N (w_now (nd_world nd)))"
  have "world_inv ?w" using inv by (simp add: node_inv_def)
  then have "obj_step_ok ?N ?s ?w (obj_run env ?s ?w)" by (intro sb_run_ok) simp_all
  then have "node_ok (run_object env ?s (?nd\<lparr>nd_world := ?w\<rparr>))"
    by (rule run_object_ok [OF inv, rotated 2])
      (simp_all only: obj_oids_eq own_dep_oids stabilize_new_fields node.simps world.simps, simp_all)
  then show ?thesis by (simp add: handler_stabilize_def with_new_oid_def split_def)
qed

lemma broadcast_new_fields:
  "mb_oid (BroadcastFilelist_new i now) = i" "bf_deps (BroadcastFilelist_new i now) = []"
  "\<not> mb_is_request_handler (BroadcastFilelist_new i now)" "base_inv (BroadcastFilelist_new i now)"
  "mb_oid (BroadcastFilelist_new_request i r now) = i"
  "bf_deps (BroadcastFilelist_new_request i r now) = []"
  "mb_is_request_handler (BroadcastFilelist_new_request i r now)"
  "mb_request (BroadcastFilelist_new_request i r now) = Some r"
  "base_inv (BroadcastFilelist_new_request i r now) = request_sound r"
  by (simp_all add: BroadcastFilelist_new_def BroadcastFilelist_new_request_def MessagingBase.defs
      MessagingBase_new_def MessagingBase_new_request_def BroadcastFilelist.defs base_inv_def)

lemma broadcast_run_ok:
  assumes inv: "node_inv nd" and b: "base_inv b" "bf_deps b = []" "mb_oid b = w_next_oid (nd_world nd)"
    and h: "mb_is_request_handler b \<Longrightarrow> mb_request b \<noteq> None"
  shows "node_ok (run_object env (MBroadcast b)
    (nd\<lparr>nd_world := (nd_world nd)\<lparr>w_next_oid := Suc (w_next_oid (nd_world nd))\<rparr>\<rparr>))"
proof -
  let ?N = "w_next_oid (nd_world nd)"
  let ?w = "(nd_world nd)\<lparr>w_next_oid := Suc ?N\<rparr>"
  have w: "world_inv ?w" using inv by (simp add: node_inv_def)
  have "obj_step_ok (w_next_oid ?w) (MBroadcast b) ?w (obj_run env (MBroadcast b) ?w)"
    using bf_handle_request_ok [OF w b(1,2) h] bf_create_request_ok [OF w b(1,2)]
    by (simp add: run_message_def)
  then have "obj_step_ok ?N (MBroadcast b) ?w (obj_run env (MBroadcast b) ?w)"
    by (rule obj_step_ok_weaken) simp
  then show ?thesis
    by (intro run_object_ok [OF inv refl]) (use b in \<open>simp_all add: obj_oids_eq\<close>)
qed

lemma handler_broadcast_ok: "node_inv nd \<Longrightarrow> node_ok (handler_broadcast env nd)"
  unfolding handler_broadcast_def with_new_oid_def
  using broadcast_run_ok [of nd "BroadcastFilelist_new (w_next_oid (nd_world nd)) (w_now (nd_world nd))" env]
  by (simp add: split_def broadcast_new_fields)

subsection \<open>A request from the network\<close>

lemma request_leaf_fresh:
  assumes "request_sound r"
  shows "leaf_fresh (LNotification (Notification_new_request i r now))"
    "leaf_fresh (LCheckPredecessor (CheckPredecessor_new_request i r now))"
    "leaf_fresh (LQuery (Query_new_request i r now))"
    "leaf_fresh (LFindSuccessor (FindSuccessor_new_request i r now))"
    "leaf_fresh (LGetSuccessorList (GetSuccessorList_new_request i r now))"
    "leaf_fresh (LGetPredAndSuccList (GetPredAndSuccList_new_request i r now))"
    "leaf_fresh (LGetSelfAndSuccList (GetSelfAndSuccList_new_request i r now))"
    "leaf_fresh (LGetFile (GetFile_new_request i r now))"
  using assms
  by (simp_all add: leaf_fresh_def base_inv_def leaf_is_done_def Notification_new_request_def
      CheckPredecessor_new_request_def Query_new_request_def FindSuccessor_new_request_def
      GetSuccessorList_new_request_def GetPredAndSuccList_new_request_def
      GetSelfAndSuccList_new_request_def GetFile_new_request_def MessagingBase_new_request_def
      MessagingBase.defs Notification.defs CheckPredecessor.defs Query.defs FindSuccessor.defs
      GetSuccessorList.defs GetPredAndSuccList.defs GetSelfAndSuccList.defs GetFile.defs)

lemma request_leaf_oid:
  "leaf_oid (LNotification (Notification_new_request i r now)) = i"
  "leaf_oid (LCheckPredecessor (CheckPredecessor_new_request i r now)) = i"
  "leaf_oid (LQuery (Query_new_request i r now)) = i"
  "leaf_oid (LFindSuccessor (FindSuccessor_new_request i r now)) = i"
  "leaf_oid (LGetSuccessorList (GetSuccessorList_new_request i r now)) = i"
  "leaf_oid (LGetPredAndSuccList (GetPredAndSuccList_new_request i r now)) = i"
  "leaf_oid (LGetSelfAndSuccList (GetSelfAndSuccList_new_request i r now)) = i"
  "leaf_oid (LGetFile (GetFile_new_request i r now)) = i"
  by (simp_all add: leaf_oid_def Notification_new_request_def
      CheckPredecessor_new_request_def Query_new_request_def FindSuccessor_new_request_def
      GetSuccessorList_new_request_def GetPredAndSuccList_new_request_def
      GetSelfAndSuccList_new_request_def GetFile_new_request_def MessagingBase_new_request_def
      MessagingBase.defs Notification.defs CheckPredecessor.defs Query.defs FindSuccessor.defs
      GetSuccessorList.defs GetPredAndSuccList.defs GetSelfAndSuccList.defs GetFile.defs)

text \<open>What the factory makes of a request: nothing, a single message or a broadcast, with the
  next free number.\<close>

definition made :: "RequestObject \<Rightarrow> world \<Rightarrow> message_obj option \<times> world \<Rightarrow> bool" where
  "made r w x \<longleftrightarrow>
     x = (None, w) \<or>
     (\<exists>l. x = (Some (MLeaf l), w\<lparr>w_next_oid := Suc (w_next_oid w)\<rparr>) \<and> leaf_fresh l \<and>
        leaf_oid l = w_next_oid w) \<or>
     x = (Some (MBroadcast (BroadcastFilelist_new_request (w_next_oid w) r (w_now w))),
          w\<lparr>w_next_oid := Suc (w_next_oid w)\<rparr>)"

lemma made_if: "made r w a \<Longrightarrow> made r w b \<Longrightarrow> made r w (if c then a else b)"
  by simp

lemma create_from_request_cases:
  assumes "request_sound r"
  shows "\<exists>x. create_from_request r w = Inr x \<and> made r w x"
proof -
  note fresh = request_leaf_fresh [OF assms]
  show ?thesis
    unfolding create_from_request_def ro_is_request_def ro_get_request_type_def
      get_message_sound [OF assms] res_bind_simps Let_def split_def new_oid_simps
      if_distrib [of Inr, symmetric]
    by (rule exI, rule conjI, rule refl)
      (intro made_if; simp add: made_def; metis fresh request_leaf_oid)
qed

lemma handle_request_ok:
  assumes inv: "node_inv nd" and r: "request_sound r"
  shows "node_ok (handle_request env r nd)"
proof -
  let ?N = "w_next_oid (nd_world nd)"
  let ?w = "(nd_world nd)\<lparr>w_next_oid := Suc ?N\<rparr>"
  have w: "world_inv ?w" using inv by (simp add: node_inv_def)
  consider (none) "create_from_request r (nd_world nd) = Inr (None, nd_world nd)"
    | (leaf) l where "create_from_request r (nd_world nd) = Inr (Some (MLeaf l), ?w)"
        "leaf_fresh l" "leaf_oid l = ?N"
    | (bc) "create_from_request r (nd_world nd) = Inr (Some (MBroadcast
        (BroadcastFilelist_new_request ?N r (w_now (nd_world nd)))), ?w)"
    using create_from_request_cases [OF r, of "nd_world nd"] by (auto simp: made_def)
  then show ?thesis
  proof cases
    case none
    with inv show ?thesis by (simp add: handle_request_def)
  next
    case leaf
    have "obj_step_ok ?N (MLeaf l) ?w (obj_run env (MLeaf l) ?w)"
      using leaf w by (intro leaf_run_step_ok) simp_all
    then have "node_ok (run_object env (MLeaf l) (nd\<lparr>nd_world := ?w\<rparr>))"
      by (intro run_object_ok [OF inv refl]) (use leaf in \<open>simp_all add: obj_oids_eq\<close>)
    with leaf show ?thesis by (simp add: handle_request_def)
  next
    case bc
    with broadcast_run_ok [OF inv, of "BroadcastFilelist_new_request ?N r (w_now (nd_world nd))" env] r
    show ?thesis by (simp add: handle_request_def broadcast_new_fields)
  qed
qed

end
