(* ===== verification/Node_Responses.thy ===== *)
theory Node_Responses
  imports Node_Steps
begin

section \<open>Responses and write completions\<close>

text \<open>
  What the objects of a node do with a response or a completed write that is delivered to them:
  the invariant of the object and of its handlers is kept, and only soft crashes can happen.
\<close>

subsection \<open>A response from the network\<close>

lemma find_child_None: "find_child i ds = None \<longleftrightarrow> i \<notin> set (map (leaf_oid \<circ> fst) ds)"
  by (induction ds) (auto simp: find_child_def)

lemma find_child_hd: "leaf_oid (fst d) = i \<Longrightarrow> find_child i (d # ds) = Some (fst d)"
  by (simp add: find_child_def)

text \<open>A composite stays one: with no handler left for its old dependencies, what it has now is
  the business of its new ones.\<close>

lemma composite_handlers_ok:
  assumes "\<forall>i \<in> set (dep_oids ob'). i \<in> set (dep_oids ob) \<or> w_next_oid w \<le> i"
    and "\<forall>h \<in> hs'. ho_parent h < w_next_oid w \<and> ho_parent h \<notin> set (dep_oids ob)"
    and "\<forall>l. ob' \<noteq> MLeaf l"
  shows "obj_handlers_ok hs' ob'"
proof -
  have no: "ho_parent h \<notin> set (dep_oids ob')" if "h \<in> hs'" for h
    using assms(1,2) that by (meson not_le)
  from assms(3) show ?thesis
    by (cases ob') (use no in \<open>auto simp: comp_def\<close>)
qed

lemma obj_response_ok:
  assumes inv: "obj_inv ob" and w: "world_inv w" and r: "request_sound resp"
    and ok: "obj_handlers_ok hs ob" and h: "h \<in> hs" and inj: "inj_on ho_parent hs"
    and lt: "\<forall>h \<in> hs. ho_parent h < w_next_oid w"
    and i: "ho_parent h \<in> set (obj_oids ob)"
    and sub: "hs' \<subseteq> hs" and gone: "\<not> ho_is_persistent h \<Longrightarrow> h \<notin> hs'"
    and res: "res = obj_deliver env (ho_parent h) (leaf_handle env (ho_handler h) resp) ob w"
  shows "obj_step_ok (w_next_oid w) ob w res"
    and "res = Inr (ob', w', sigs) \<Longrightarrow> obj_handlers_ok hs' ob'"
proof -
  let ?i = "ho_parent h"
  have same: "obj_step_ok (w_next_oid w) ob w (Inr (ob, w, []))"
    using inv w obj_handlers_ok_mono [of "{}"] by (auto simp: obj_step_ok_Inr obj_handlers_ok_other)
  have unique: "h' = h" if "h' \<in> hs" "ho_parent h' = ?i" for h'
    using inj h that by (simp add: inj_on_def)
  have mono: "obj_handlers_ok hs' ob" using obj_handlers_ok_mono ok sub by blast
  have "obj_step_ok (w_next_oid w) ob w res \<and>
    (\<forall>ob' w' sigs. res = Inr (ob', w', sigs) \<longrightarrow> obj_handlers_ok hs' ob')"
  proof (cases ob)
    case (MLeaf l)
    with i have il: "?i = leaf_oid l" by (simp add: obj_oids_eq)
    with ok h MLeaf have ready: "leaf_ready l" and p: "ho_is_persistent h \<longrightarrow> leaf_kind l = GET_FILE"
      by simp_all
    have li: "leaf_inv l" using inv MLeaf by simp
    show ?thesis
    proof (cases "leaf_handle env (ho_handler h) resp l w")
      case (Inl e)
      with leaf_handle_result [OF li ready r, of env "ho_handler h" w] show ?thesis
        by (simp add: res MLeaf lift_step_def)
    next
      case (Inr x)
      obtain l' w' sigs where x: "x = (l', w', sigs)" by (cases x)
      note eq = Inr [unfolded x]
      note l' = leaf_handle_inv [OF li ready r w eq]
      have none: "sig_handlers sigs = []" using leaf_handle_effect(1) [OF eq li ready] .
      have sound: "\<forall>s \<in> set sigs. signal_sound s" using l'(8) sig_ok_sound by blast
      have hs': "obj_handlers_ok hs' (MLeaf l')"
      proof (cases "ho_is_persistent h")
        case True
        with p l'(3) show ?thesis by (auto simp: leaf_ready_def)
      next
        case False
        with gone sub unique il l'(2) show ?thesis by auto
      qed
      show ?thesis
        using l' none sound hs' eq by (simp add: res MLeaf lift_step_def obj_step_ok_Inr)
    qed
  next
    case (MJoin j)
    show ?thesis
    proof (cases "?i \<in> set (dep_oids ob)")
      case False
      then have "res = Inr (ob, w, [])" by (simp add: res MJoin find_child_None [THEN iffD2])
      with same mono show ?thesis by simp
    next
      case True
      obtain d where d: "jo_deps j = [(d, True)]" using inv MJoin by auto
      from ok h True MJoin d have f: "\<not> mb_is_done j" "?i = leaf_oid d" "\<not> leaf_is_done d"
        "ho_handler h = HandleResponse" "\<not> ho_is_persistent h"
        by auto
      have eq: "res = lift_step MJoin (join_child env (leaf_handle env HandleResponse resp d w) j)"
        using f d find_child_hd [of "(d, True)" ?i "[]"] by (simp add: res MJoin)
      have step: "obj_step_ok (w_next_oid w) ob w res"
        unfolding eq MJoin by (rule join_response_ok) (use inv MJoin w f d r in simp_all)
      have "obj_handlers_ok hs' ob'" if "res = Inr (ob', w', sigs)" for ob' w' sigs
      proof (rule composite_handlers_ok [of ob' ob w])
        show "\<forall>i \<in> set (dep_oids ob'). i \<in> set (dep_oids ob) \<or> w_next_oid w \<le> i"
          using step that by (auto simp: obj_step_ok_Inr)
        show "\<forall>h \<in> hs'. ho_parent h < w_next_oid w \<and> ho_parent h \<notin> set (dep_oids ob)"
          using lt sub unique gone [OF f(5)] f(2) d MJoin by auto
        show "\<forall>l. ob' \<noteq> MLeaf l" using that eq by (auto simp: lift_step_Inr)
      qed
      with step show ?thesis by blast
    qed
  next
    case (MStabilize s)
    show ?thesis
    proof (cases "?i \<in> set (dep_oids ob)")
      case False
      then have "res = Inr (ob, w, [])" by (simp add: res MStabilize find_child_None [THEN iffD2])
      with same mono show ?thesis by simp
    next
      case True
      then obtain d e ds where d: "sb_deps s = (d, e) # ds"
        using MStabilize by (cases "sb_deps s") auto
      have handlers: "\<not> mb_is_done s \<and> ho_parent h' = leaf_oid d \<and> \<not> leaf_is_done d \<and>
          ho_handler h' = HandleResponse \<and> \<not> ho_is_persistent h'"
        if "h' \<in> hs" "ho_parent h' \<in> set (dep_oids ob)" for h'
        using ok that MStabilize d by auto
      note f = handlers [OF h True]
      have eq: "res = lift_step MStabilize (sb_child env (leaf_handle env HandleResponse resp d w) s)"
        using f d find_child_hd [of "(d, e)" ?i ds] by (simp add: res MStabilize)
      have step: "obj_step_ok (w_next_oid w) ob w res"
        unfolding eq MStabilize
        by (rule sb_response_ok [OF _ w _ d _ r]) (use inv MStabilize f in simp_all)
      have "obj_handlers_ok hs' ob'" if "res = Inr (ob', w', sigs)" for ob' w' sigs
      proof (rule composite_handlers_ok [of ob' ob w])
        show "\<forall>i \<in> set (dep_oids ob'). i \<in> set (dep_oids ob) \<or> w_next_oid w \<le> i"
          using step that by (auto simp: obj_step_ok_Inr)
        show "\<forall>h \<in> hs'. ho_parent h < w_next_oid w \<and> ho_parent h \<notin> set (dep_oids ob)"
          using lt sub unique gone f handlers by (metis subsetD)
        show "\<forall>l. ob' \<noteq> MLeaf l" using that eq by (auto simp: lift_step_Inr)
      qed
      with step show ?thesis by blast
    qed
  next
    case (MBroadcast b)
    show ?thesis
    proof (cases "find_child ?i (bf_deps b)")
      case None
      then have "res = Inr (ob, w, [])" by (simp add: res MBroadcast)
      with same mono show ?thesis by simp
    next
      case (Some d)
      have "leaf_kind d = GET_FILE" "leaf_inv d"
        using find_child_SomeD [OF Some] inv MBroadcast
        by (auto simp: deps_inv_def child_kinds_def)
      then have ready: "leaf_ready d" and di: "leaf_inv d" by (simp_all add: leaf_ready_def)
      have eq: "res = lift_step MBroadcast (bf_child (leaf_handle env (ho_handler h) resp d w) b)"
        using Some by (simp add: res MBroadcast)
      have "obj_step_ok (w_next_oid w) (MBroadcast b) w res"
        unfolding eq
      proof (rule bf_child_ok [OF _ Some])
        show "obj_inv (MBroadcast b)" using inv MBroadcast by simp
        show "soft e" if "leaf_handle env (ho_handler h) resp d w = Inl e" for e
          using leaf_handle_result [OF di ready r, of env "ho_handler h" w] that by simp
        show "leaf_inv d' \<and> leaf_oid d' = leaf_oid d \<and> leaf_kind d' = leaf_kind d \<and>
            leaf_is_handler d' = leaf_is_handler d \<and> world_inv w' \<and> w_now w' = w_now w \<and>
            w_next_oid w' = w_next_oid w \<and> (\<forall>s \<in> set sigs. sig_ok (leaf_oid d) s) \<and>
            sig_handlers sigs = []"
          if "leaf_handle env (ho_handler h) resp d w = Inr (d', w', sigs)" for d' w' sigs
          using leaf_handle_inv [OF di ready r w that] leaf_handle_effect(1) [OF that di ready] by simp
      qed
      then show ?thesis using MBroadcast eq by (auto simp: lift_step_Inr)
    qed
  qed
  then show "obj_step_ok (w_next_oid w) ob w res"
    and "res = Inr (ob', w', sigs) \<Longrightarrow> obj_handlers_ok hs' ob'"
    by blast+
qed

subsection \<open>A write completion\<close>

lemma set_child_found_hd:
  "find_child i ds = Some d \<Longrightarrow> fst (hd (set_child d ds)) = fst (hd ds)"
  using find_child_SomeD [of i ds d]
  by (cases ds) (auto simp: find_child_def set_child_def split: if_splits)

lemma obj_written_ok:
  assumes inv: "obj_inv ob" and w: "world_inv w" and ok: "obj_handlers_ok hs ob"
    and res: "res = obj_deliver env i (leaf_on_write env failed) ob w"
    and i: "i \<in> set (obj_oids ob)"
  shows "obj_step_ok (w_next_oid w) ob w res"
    and "res = Inr (ob', w', sigs) \<Longrightarrow> obj_handlers_ok hs ob'"
proof -
  have same: "obj_step_ok (w_next_oid w) ob w (Inr (ob, w, []))"
    using inv w by (auto simp: obj_step_ok_Inr obj_handlers_ok_other)
  have "obj_step_ok (w_next_oid w) ob w res \<and>
    (\<forall>ob' w' sigs. res = Inr (ob', w', sigs) \<longrightarrow> obj_handlers_ok hs ob')"
  proof (cases ob)
    case (MLeaf l)
    have li: "leaf_inv l" using inv MLeaf by simp
    show ?thesis
    proof (cases "leaf_on_write env failed l w")
      case (Inl e)
      with leaf_on_write_result [OF li, of env failed w] show ?thesis
        by (simp add: res MLeaf lift_step_def)
    next
      case (Inr x)
      obtain l' w' sigs where x: "x = (l', w', sigs)" by (cases x)
      note eq = Inr [unfolded x]
      note l' = leaf_on_write_inv [OF li w eq]
      have sound: "\<forall>s \<in> set sigs. signal_sound s" using l'(8) sig_ok_sound by blast
      have "obj_handlers_ok hs (MLeaf l')"
      proof (cases "leaf_kind l = GET_FILE")
        case True
        with l'(3) show ?thesis by (auto simp: leaf_ready_def)
      next
        case False
        with l'(10) ok MLeaf show ?thesis by simp
      qed
      with l' sound eq show ?thesis by (simp add: res MLeaf lift_step_def obj_step_ok_Inr)
    qed
  next
    case (MJoin j)
    obtain d where d: "jo_deps j = [(d, True)]" using inv MJoin by auto
    have "leaf_kind d \<noteq> GET_FILE" using inv MJoin d by (auto simp: child_kinds_def)
    then have "leaf_on_write env failed d w = Inr (d, w, [])" by (cases d) simp_all
    then have "res = Inr (ob, w, [])"
      using d by (simp add: res MJoin find_child_def join_child_def set_child_def lift_step_def)
    with same ok show ?thesis by simp
  next
    case (MStabilize s)
    show ?thesis
    proof (cases "find_child i (sb_deps s)")
      case None
      then have "res = Inr (ob, w, [])" by (simp add: res MStabilize)
      with same ok show ?thesis by simp
    next
      case (Some d)
      let ?ks = "{GET_PRED_AND_SUCC_LIST, GET_SELF_AND_SUCC_LIST, NOTIFICATION}"
      have d: "leaf_kind d \<in> ?ks" "leaf_inv d" "\<not> leaf_is_handler d"
        using find_child_SomeD [OF Some] inv MStabilize
        by (auto simp: deps_inv_def child_kinds_def)
      then have "leaf_on_write env failed d w = Inr (d, w, [])" by (cases d) simp_all
      then have eq: "res = Inr (MStabilize (s\<lparr>sb_deps := set_child d (sb_deps s)\<rparr>), w, [])"
        using Some by (simp add: res MStabilize sb_child_def lift_step_def)
      have inv': "obj_inv (MStabilize (s\<lparr>sb_deps := set_child d (sb_deps s)\<rparr>))"
        using inv MStabilize set_child_inv [of "sb_deps s" ?ks "\<lambda>e. e" d] d by simp
      have "obj_handlers_ok hs (MStabilize (s\<lparr>sb_deps := set_child d (sb_deps s)\<rparr>))"
        using ok MStabilize set_child_found_hd [OF Some] set_child_oids [of d "sb_deps s"]
        by (simp del: map_map)
      with inv' w eq show ?thesis
        using MStabilize set_child_oids [of d "sb_deps s"]
        by (simp add: obj_step_ok_Inr del: map_map)
    qed
  next
    case (MBroadcast b)
    show ?thesis
    proof (cases "find_child i (bf_deps b)")
      case None
      then have "res = Inr (ob, w, [])" by (simp add: res MBroadcast)
      with same ok show ?thesis by simp
    next
      case (Some d)
      have di: "leaf_inv d"
        using find_child_SomeD [OF Some] inv MBroadcast by (auto simp: deps_inv_def)
      have eq: "res = lift_step MBroadcast (bf_child (leaf_on_write env failed d w) b)"
        using Some by (simp add: res MBroadcast)
      have "obj_step_ok (w_next_oid w) (MBroadcast b) w res"
        unfolding eq
      proof (rule bf_child_ok [OF _ Some])
        show "obj_inv (MBroadcast b)" using inv MBroadcast by simp
        show "soft e" if "leaf_on_write env failed d w = Inl e" for e
          using leaf_on_write_result [OF di, of env failed w] that by simp
        show "leaf_inv d' \<and> leaf_oid d' = leaf_oid d \<and> leaf_kind d' = leaf_kind d \<and>
            leaf_is_handler d' = leaf_is_handler d \<and> world_inv w' \<and> w_now w' = w_now w \<and>
            w_next_oid w' = w_next_oid w \<and> (\<forall>s \<in> set sigs. sig_ok (leaf_oid d) s) \<and>
            sig_handlers sigs = []"
          if "leaf_on_write env failed d w = Inr (d', w', sigs)" for d' w' sigs
          using leaf_on_write_inv [OF di w that] by simp
      qed
      then show ?thesis using MBroadcast eq by (auto simp: lift_step_Inr)
    qed
  qed
  then show "obj_step_ok (w_next_oid w) ob w res"
    and "res = Inr (ob', w', sigs) \<Longrightarrow> obj_handlers_ok hs ob'"
    by blast+
qed

end
