(* ===== verification/Node_Reachable.thy ===== *)
theory Node_Reachable
  imports Node_Responses
begin

section \<open>The reachable nodes\<close>

text \<open>
  Delivery of responses and write completions, the clean-up of finished objects and the
  dispatcher keep the invariant of the node; so it holds in every node that can be reached, and
  with it follow the crashes a reachable node can have.
\<close>

subsection \<open>Delivery\<close>

text \<open>Delivering to an object changes that object only.\<close>

lemma deliver_cases:
  obtains (nobody) "deliver env i f obs w = Inr (obs, w, [])"
  | (found) pre ob post where "obs = pre @ ob # post" "i \<in> set (obj_oids ob)"
      "deliver env i f obs w = res_bind (obj_deliver env i f ob w)
         (\<lambda>(ob', w', sigs). Inr (pre @ ob' # post, w', sigs))"
proof -
  have "deliver env i f obs w = Inr (obs, w, []) \<or>
    (\<exists>pre ob post. obs = pre @ ob # post \<and> i \<in> set (obj_oids ob) \<and>
       deliver env i f obs w = res_bind (obj_deliver env i f ob w)
         (\<lambda>(ob', w', sigs). Inr (pre @ ob' # post, w', sigs)))"
  proof (induction obs)
    case Nil
    then show ?case by simp
  next
    case (Cons a obs)
    show ?case
    proof (cases "i \<in> set (obj_oids a)")
      case True
      then have "a # obs = [] @ a # obs \<and> i \<in> set (obj_oids a) \<and>
          deliver env i f (a # obs) w = res_bind (obj_deliver env i f a w)
            (\<lambda>(ob', w', sigs). Inr ([] @ ob' # obs, w', sigs))"
        by simp
      then show ?thesis by blast
    next
      case no: False
      from Cons.IH show ?thesis
      proof
        assume "deliver env i f obs w = Inr (obs, w, [])"
        with no show ?thesis by simp
      next
        assume "\<exists>pre ob post. obs = pre @ ob # post \<and> i \<in> set (obj_oids ob) \<and>
          deliver env i f obs w = res_bind (obj_deliver env i f ob w)
            (\<lambda>(ob', w', sigs). Inr (pre @ ob' # post, w', sigs))"
        then obtain pre ob post where o: "obs = pre @ ob # post" "i \<in> set (obj_oids ob)"
          "deliver env i f obs w = res_bind (obj_deliver env i f ob w)
            (\<lambda>(ob', w', sigs). Inr (pre @ ob' # post, w', sigs))"
          by blast
        have "deliver env i f (a # obs) w = res_bind (obj_deliver env i f ob w)
            (\<lambda>(ob', w', sigs). Inr ((a # pre) @ ob' # post, w', sigs))"
          using no o(3) by (cases "obj_deliver env i f ob w") auto
        with o(1,2) show ?thesis by (metis append_Cons)
      qed
    qed
  qed
  then show ?thesis using that by blast
qed

lemma node_same:
  "nd_world nd = w \<Longrightarrow> nd_active nd = obs \<Longrightarrow> nd\<lparr>nd_active := obs, nd_world := w\<rparr> = nd"
  by (cases nd) simp

lemma node_deliver_ok:
  assumes inv: "node_inv (nd\<lparr>nd_handlers := hs\<rparr>)"
    and wf: "set_wf ho_correlation_id (nd_handlers nd)" and sub: "set (nd_handlers nd) \<subseteq> set hs"
    and step: "\<And>ob. ob \<in> set (nd_active nd) \<Longrightarrow> i \<in> set (obj_oids ob) \<Longrightarrow>
      obj_step_ok (w_next_oid (nd_world nd)) ob (nd_world nd) (obj_deliver env i f ob (nd_world nd))"
    and ok: "\<And>ob ob' w' sigs. ob \<in> set (nd_active nd) \<Longrightarrow> i \<in> set (obj_oids ob) \<Longrightarrow>
      obj_deliver env i f ob (nd_world nd) = Inr (ob', w', sigs) \<Longrightarrow>
      obj_handlers_ok (set (nd_handlers nd)) ob'"
  shows "node_ok (node_deliver env i f nd)"
proof -
  let ?w = "nd_world nd"
  have old: "obj_inv ob" "obj_handlers_ok (set (nd_handlers nd)) ob" "\<forall>i \<in> set (obj_oids ob). i < w_next_oid ?w"
    if "ob \<in> set (nd_active nd)" for ob
    using inv that obj_handlers_ok_mono [OF _ sub] by (auto simp: node_inv_def)
  have hs: "inj_on ho_parent (set (nd_handlers nd))" "\<forall>h \<in> set (nd_handlers nd). ho_parent h < w_next_oid ?w"
    "world_inv ?w" "\<forall>r \<in> set (nd_send_queue nd). request_sound r"
    using inv sub by (auto simp: node_inv_def intro: inj_on_subset)
  show ?thesis
  proof (cases rule: deliver_cases [of env i f "nd_active nd" ?w])
    case nobody
    have "node_inv nd" using old hs wf by (auto simp: node_inv_def)
    moreover have "nd\<lparr>nd_world := ?w, nd_active := nd_active nd\<rparr> = nd" by simp
    ultimately show ?thesis using nobody by (simp add: node_deliver_def)
  next
    case (found pre ob post)
    then have ob: "ob \<in> set (nd_active nd)" by simp
    note step = step [OF ob found(2)] and ok = ok [OF ob found(2)]
    show ?thesis
    proof (cases "obj_deliver env i f ob ?w")
      case (Inl e)
      with step found(3) show ?thesis by (simp add: node_deliver_def)
    next
      case (Inr x)
      obtain ob' w' sigs where x: "x = (ob', w', sigs)" by (cases x)
      note s = step [unfolded Inr x obj_step_ok_Inr]
      let ?obs = "pre @ ob' # post"
      let ?nd = "nd\<lparr>nd_world := w', nd_active := ?obs\<rparr>"
      have res: "node_deliver env i f nd = Inr (fold (handler_observe (alive_oids ?obs)) sigs ?nd)"
        using Inr x found(3) by (simp add: node_deliver_def)
      have ob'_ok: "obj_handlers_ok (set (nd_handlers nd)) ob'" by (rule ok [OF Inr [unfolded x]])
      have ob'_lt: "\<forall>k \<in> set (obj_oids ob'). k < w_next_oid w'"
        using s old(3) [OF ob] by (auto simp: obj_oids_eq intro: less_le_trans)
      have new: "obj_handlers_ok (set (sig_handlers sigs)) o'" if "o' \<in> set (nd_active nd)" for o'
        using old(3) [OF that] s by (intro obj_handlers_ok_other) (meson not_le)
      have le: "w_next_oid ?w \<le> w_next_oid w'" using s by simp
      have lt: "\<forall>k \<in> set (obj_oids o'). k < w_next_oid w'" if "o' \<in> set (nd_active nd)" for o'
        using old(3) [OF that] le by (auto intro: less_le_trans)
      have old_ok: "obj_inv o' \<and> obj_handlers_ok (set (nd_handlers nd)) o' \<and>
          obj_handlers_ok (set (sig_handlers sigs)) o' \<and> (\<forall>i \<in> set (obj_oids o'). i < w_next_oid w')"
        if "o' \<in> set (nd_active nd)" for o'
        using old(1,2) [OF that] new [OF that] lt [OF that] by simp
      have new_ok: "obj_inv ob' \<and> obj_handlers_ok (set (nd_handlers nd)) ob' \<and>
          obj_handlers_ok (set (sig_handlers sigs)) ob' \<and> (\<forall>i \<in> set (obj_oids ob'). i < w_next_oid w')"
        using s ob'_ok ob'_lt by simp
      have obs: "\<forall>o' \<in> set ?obs. obj_inv o' \<and> obj_handlers_ok (set (nd_handlers nd)) o' \<and>
          obj_handlers_ok (set (sig_handlers sigs)) o' \<and> (\<forall>i \<in> set (obj_oids o'). i < w_next_oid w')"
      proof
        fix o' assume "o' \<in> set ?obs"
        then have "o' = ob' \<or> o' \<in> set (nd_active nd)" using found(1) by auto
        with old_ok new_ok show "obj_inv o' \<and> obj_handlers_ok (set (nd_handlers nd)) o' \<and>
          obj_handlers_ok (set (sig_handlers sigs)) o' \<and> (\<forall>i \<in> set (obj_oids o'). i < w_next_oid w')"
          by blast
      qed
      have "node_inv (fold (handler_observe (alive_oids ?obs)) sigs ?nd)"
      proof (rule observes_inv [OF _ _ obs wf hs(1,2)])
        show "world_inv w'" "w_next_oid ?w \<le> w_next_oid w'" using s by simp_all
        show "\<forall>h \<in> set (sig_handlers sigs). w_next_oid ?w \<le> ho_parent h \<and> ho_parent h < w_next_oid w'"
          "inj_on ho_parent (set (sig_handlers sigs))" "\<forall>s \<in> set sigs. signal_sound s"
          using s by simp_all
        show "\<forall>r \<in> set (nd_send_queue ?nd). request_sound r" using hs(4) by simp
        show "nd_handlers ?nd = nd_handlers nd" by simp
        show "fold (handler_observe (alive_oids ?obs)) sigs ?nd =
            (fold (handler_observe (alive_oids ?obs)) sigs ?nd)\<lparr>nd_active := ?obs, nd_world := w'\<rparr>"
          by (rule node_same [symmetric]) simp_all
      qed
      then show ?thesis unfolding res by simp
    qed
  qed
qed

text \<open>A response: its handler leaves the set unless it is persistent, and is called if its object
  is alive.\<close>

lemma node_inv_handlers:
  assumes "node_inv nd" "set hs \<subseteq> set (nd_handlers nd)" "set_wf ho_correlation_id hs"
  shows "node_inv (nd\<lparr>nd_handlers := hs\<rparr>)"
  using assms obj_handlers_ok_mono [OF _ assms(2)]
  by (auto simp: node_inv_def intro: inj_on_subset)

lemma handle_response_ok:
  assumes inv: "node_inv nd" and r: "request_sound resp"
  shows "node_ok (handle_response env resp nd)"
proof -
  let ?cid = "correlational_id (msg_header (the (ro_message resp)))"
  let ?hs = "nd_handlers nd"
  have cid: "ro_get_correlational_id resp = Inr ?cid"
    by (simp add: ro_get_correlational_id_def get_message_sound [OF r] get_correlational_id_def)
  have wf: "set_wf ho_correlation_id ?hs" using inv by (simp add: node_inv_def)
  obtain x hs where g:
    "get_and_erase_if ho_correlation_id (\<lambda>h. \<not> ho_is_persistent h) ?cid ?hs = (x, hs)"
    by (cases "get_and_erase_if ho_correlation_id (\<lambda>h. \<not> ho_is_persistent h) ?cid ?hs")
  have sub: "set hs \<subseteq> set ?hs"
    using g by (auto simp: get_and_erase_if_def set_erase_def split: option.splits if_splits)
  have wf': "set_wf ho_correlation_id hs"
    using g wf by (auto simp: get_and_erase_if_def set_erase_def set_wf_filter
        split: option.splits if_splits)
  have inv': "node_inv (nd\<lparr>nd_handlers := hs\<rparr>)" by (rule node_inv_handlers [OF inv sub wf'])
  show ?thesis
  proof (cases x)
    case None
    with inv' show ?thesis by (simp add: handle_response_def cid g)
  next
    case (Some h)
    have h: "h \<in> set ?hs" and key: "ho_correlation_id h = ?cid"
      and gone: "\<not> ho_is_persistent h \<Longrightarrow> h \<notin> set hs"
      using g Some set_find_SomeD [of ho_correlation_id ?cid ?hs h]
      by (auto simp: get_and_erase_if_def set_erase_def split: option.splits if_splits)
    have all: "\<And>ob. ob \<in> set (nd_active nd) \<Longrightarrow> obj_inv ob \<and> obj_handlers_ok (set ?hs) ob"
      "world_inv (nd_world nd)" "inj_on ho_parent (set ?hs)"
      "\<forall>h \<in> set ?hs. ho_parent h < w_next_oid (nd_world nd)"
      using inv by (auto simp: node_inv_def)
    note step = obj_response_ok [OF _ all(2) r _ h all(3,4) _ sub gone refl]
    have "node_ok (node_deliver env (ho_parent h) (leaf_handle env (ho_handler h) resp)
        (nd\<lparr>nd_handlers := hs\<rparr>))"
    proof (rule node_deliver_ok [where hs = ?hs])
      show "node_inv (nd\<lparr>nd_handlers := hs, nd_handlers := ?hs\<rparr>)" using inv by simp
      show "set_wf ho_correlation_id (nd_handlers (nd\<lparr>nd_handlers := hs\<rparr>))"
        "set (nd_handlers (nd\<lparr>nd_handlers := hs\<rparr>)) \<subseteq> set ?hs"
        using wf' sub by simp_all
      show "obj_handlers_ok (set (nd_handlers (nd\<lparr>nd_handlers := hs\<rparr>))) ob'"
        if "ob \<in> set (nd_active (nd\<lparr>nd_handlers := hs\<rparr>))" "ho_parent h \<in> set (obj_oids ob)"
          "obj_deliver env (ho_parent h) (leaf_handle env (ho_handler h) resp) ob
             (nd_world (nd\<lparr>nd_handlers := hs\<rparr>)) = Inr (ob', w', sigs)" for ob ob' w' sigs
        using step(2) [of ob env ob' w' sigs] all(1) that by simp
    qed (use all(1) step(1) in simp_all)
    then show ?thesis using inv' Some by (simp add: handle_response_def cid g Let_def)
  qed
qed

lemma on_write_ok:
  assumes inv: "node_inv nd"
  shows "node_ok (on_write env i failed nd)"
proof -
  have all: "\<And>ob. ob \<in> set (nd_active nd) \<Longrightarrow> obj_inv ob \<and> obj_handlers_ok (set (nd_handlers nd)) ob"
    "world_inv (nd_world nd)" "set_wf ho_correlation_id (nd_handlers nd)"
    using inv by (auto simp: node_inv_def)
  note step = obj_written_ok [OF _ all(2) _ refl, where hs = "set (nd_handlers nd)"]
  have "node_ok (node_deliver env i (leaf_on_write env failed) nd)"
  proof (rule node_deliver_ok [where hs = "nd_handlers nd"])
    show "obj_handlers_ok (set (nd_handlers nd)) ob'"
      if "ob \<in> set (nd_active nd)" "i \<in> set (obj_oids ob)"
        "obj_deliver env i (leaf_on_write env failed) ob (nd_world nd) = Inr (ob', w', sigs)"
      for ob ob' w' sigs
      using step(2) [OF _ _ that(2,3)] all(1) that(1) by simp
  qed (use inv all step(1) in simp_all)
  with inv show ?thesis by (simp add: on_write_def)
qed

subsection \<open>The clean-up\<close>

lemma GetFile_destroy_inv: "world_inv w \<Longrightarrow> world_inv (GetFile_destroy g w)"
  by (auto simp: GetFile_destroy_def storage_inv_destroy split: option.split dest: world_invD)

lemma leaf_destroy_ok [simp]:
  "world_inv w \<Longrightarrow> world_inv (leaf_destroy l w)"
  "w_now (leaf_destroy l w) = w_now w" "w_next_oid (leaf_destroy l w) = w_next_oid w"
  by (cases l; simp add: GetFile_destroy_inv; simp add: GetFile_destroy_def split: option.split)+

lemma deps_destroy_ok:
  "world_inv w \<Longrightarrow> world_inv (fold (\<lambda>(l, e). leaf_destroy l) ds w)"
  "w_next_oid (fold (\<lambda>(l, e). leaf_destroy l) ds w) = w_next_oid w"
  by (induction ds arbitrary: w) auto

lemma obj_destroy_ok:
  "world_inv w \<Longrightarrow> world_inv (obj_destroy ob w)"
  "w_next_oid (obj_destroy ob w) = w_next_oid w"
  by (cases ob; simp add: obj_destroy_def deps_destroy_ok)+

text \<open>Checking an object does not crash. It finishes the object, or leaves its handlers what they
  are to it.\<close>

definition obj_checked :: "message_obj \<Rightarrow> world \<Rightarrow> (MESSAGE_STATE \<times> message_obj \<times> world) res \<Rightarrow> bool" where
  "obj_checked ob w r \<longleftrightarrow>
     (\<exists>st ob' w'. r = Inr (st, ob', w') \<and> obj_inv ob' \<and> obj_oids ob' = obj_oids ob \<and> world_inv w' \<and>
        w_next_oid w' = w_next_oid w \<and>
        (obj_is_done ob' \<or> (\<forall>hs. obj_handlers_ok hs ob \<longrightarrow> obj_handlers_ok hs ob')))"

lemma expired_deps:
  assumes "map (\<lambda>(l, e). (leaf_oid l, leaf_kind l, leaf_is_handler l, e)) ds' =
    map (\<lambda>(l, e). (leaf_oid l, leaf_kind l, leaf_is_handler l, e)) ds"
  shows "map (leaf_oid \<circ> fst) ds' = map (leaf_oid \<circ> fst) ds"
    "child_kinds ks ds' = child_kinds ks ds"
    "(\<forall>(l, e) \<in> set ds'. e) = (\<forall>(l, e) \<in> set ds. e)"
    "(\<exists>l. ds' = [(l, True)]) = (\<exists>l. ds = [(l, True)])"
proof -
  show "map (leaf_oid \<circ> fst) ds' = map (leaf_oid \<circ> fst) ds"
    using arg_cong [OF assms, of "map fst"] by (simp add: comp_def split_def)
  have "(\<lambda>(l, e). (leaf_kind l, leaf_is_handler l)) ` set ds' = (\<lambda>(l, e). (leaf_kind l, leaf_is_handler l)) ` set ds"
    using arg_cong [OF assms, of "\<lambda>xs. set (map (\<lambda>(a, b, c, d). (b, c)) xs)"]
    by (simp add: image_image split_def)
  moreover have "child_kinds ks xs = (\<forall>(k, h) \<in> (\<lambda>(l, e). (leaf_kind l, leaf_is_handler l)) ` set xs. k \<in> ks \<and> \<not> h)"
    for xs by (auto simp: child_kinds_def)
  ultimately show "child_kinds ks ds' = child_kinds ks ds" by (simp only:)
  have "snd ` set ds' = snd ` set ds"
    using arg_cong [OF assms, of "\<lambda>xs. set (map (\<lambda>(a, b, c, d). d) xs)"]
    by (simp add: image_image split_def)
  moreover have "(\<forall>(l, e) \<in> set xs. e) = (\<forall>e \<in> snd ` set xs. e)" for xs :: dependencies by auto
  ultimately show "(\<forall>(l, e) \<in> set ds'. e) = (\<forall>(l, e) \<in> set ds. e)" by (simp only:)
  show "(\<exists>l. ds' = [(l, True)]) = (\<exists>l. ds = [(l, True)])"
    using assms by (cases ds; cases ds') auto
qed

lemma obj_check_ok:
  assumes inv: "obj_inv ob" and w: "world_inv w"
  shows "obj_checked ob w (obj_check_state ob w)"
proof (cases ob)
  case (MLeaf l)
  with inv leaf_check_ok [of l w] w obtain st l' w' where
    c: "leaf_check_state l w = Inr (st, l', w')" "leaf_inv l'" "leaf_oid l' = leaf_oid l" "world_inv w'"
      "w_next_oid w' = w_next_oid w" "l' = l \<or> leaf_is_done l'"
    by (auto simp: checked_def)
  then show ?thesis by (auto simp: MLeaf obj_checked_def lift_state_def obj_oids_eq)
next
  case (MJoin j)
  with inv any_expired_ok [of "jo_deps j" w] w obtain b ds w' where
    e: "any_expired (jo_deps j) w = Inr (b, ds, w')" "deps_inv ds" "world_inv w'"
      "w_next_oid w' = w_next_oid w"
      "map (\<lambda>(l, e). (leaf_oid l, leaf_kind l, leaf_is_handler l, e)) ds =
       map (\<lambda>(l, e). (leaf_oid l, leaf_kind l, leaf_is_handler l, e)) (jo_deps j)"
      "\<not> b \<longrightarrow> ds = jo_deps j"
    by auto
  note d = expired_deps [OF e(5)]
  show ?thesis
    using inv w e(1-4,6) d
    by (auto simp: MJoin obj_checked_def lift_state_def check_state_def join_any_expired_def
        join_handle_failed_def obj_oids_eq base_inv_def)
next
  case (MStabilize s)
  with inv any_expired_ok [of "sb_deps s" w] w obtain b ds w' where
    e: "any_expired (sb_deps s) w = Inr (b, ds, w')" "deps_inv ds" "world_inv w'"
      "w_next_oid w' = w_next_oid w"
      "map (\<lambda>(l, e). (leaf_oid l, leaf_kind l, leaf_is_handler l, e)) ds =
       map (\<lambda>(l, e). (leaf_oid l, leaf_kind l, leaf_is_handler l, e)) (sb_deps s)"
      "\<not> b \<longrightarrow> ds = sb_deps s"
    by auto
  note d = expired_deps [OF e(5)]
  show ?thesis
    using inv w e(1-4,6) d
    by (auto simp: MStabilize obj_checked_def lift_state_def check_state_def sb_any_expired_def
        sb_handle_failed_def sb_clear_flag_def obj_oids_eq base_inv_def)
next
  case (MBroadcast b)
  with inv any_expired_ok [of "bf_deps b" w] w obtain x ds w' where
    e: "any_expired (bf_deps b) w = Inr (x, ds, w')" "deps_inv ds" "world_inv w'"
      "w_next_oid w' = w_next_oid w"
      "map (\<lambda>(l, e). (leaf_oid l, leaf_kind l, leaf_is_handler l, e)) ds =
       map (\<lambda>(l, e). (leaf_oid l, leaf_kind l, leaf_is_handler l, e)) (bf_deps b)"
    by auto
  note d = expired_deps [OF e(5)]
  show ?thesis
    using inv w e(1-4) d
    by (auto simp: MBroadcast obj_checked_def lift_state_def check_state_def bf_any_expired_def
        bf_handle_failed_def obj_oids_eq base_inv_def)
qed

lemma obj_check_done:
  "obj_check_state ob w = Inr (st, ob', w') \<Longrightarrow> obj_is_done ob \<Longrightarrow> obj_is_done ob'"
proof (cases ob)
  case (MLeaf l)
  then show "obj_check_state ob w = Inr (st, ob', w') \<Longrightarrow> obj_is_done ob \<Longrightarrow> ?thesis"
    by (cases l) (auto simp: lift_state_def check_state_def leaf_is_done_def)
qed (auto simp: lift_state_def check_state_def)

lemma node_clean_ok:
  assumes inv: "node_inv nd"
  shows "\<exists>nd'. node_clean nd = Inr nd' \<and> node_inv nd' \<and> (\<forall>ob \<in> set (nd_active nd'). \<not> obj_is_done ob) \<and>
    nd_handlers nd' = nd_handlers nd \<and> nd_send_queue nd' = nd_send_queue nd"
proof -
  let ?hs = "set (nd_handlers nd)" and ?N = "w_next_oid (nd_world nd)"
  let ?I = "\<lambda>(w, c). world_inv w \<and> w_next_oid w = ?N \<and> c = None"
  let ?Q = "\<lambda>ob. obj_inv ob \<and> (obj_is_done ob \<or> obj_handlers_ok ?hs ob) \<and> (\<forall>i \<in> set (obj_oids ob). i < ?N)"
  obtain obs w c where d: "deque_clean check_object obj_is_done destroy_object (nd_active nd)
      (nd_world nd, None :: crash option) = (obs, w, c)"
    by (cases "deque_clean check_object obj_is_done destroy_object (nd_active nd)
      (nd_world nd, None :: crash option)")
  have check: "?I (snd (check_object s ob)) \<and> ?Q (fst (check_object s ob))" if I: "?I s" and Q: "?Q ob" for s ob
  proof -
    obtain v where s: "s = (v, None)" "world_inv v" "w_next_oid v = ?N" using I by auto
    from Q have q: "obj_inv ob" "obj_is_done ob \<or> obj_handlers_ok ?hs ob" "\<forall>i \<in> set (obj_oids ob). i < ?N"
      by auto
    from obj_check_ok [OF q(1) s(2)] obtain st ob' v' where
      c: "obj_check_state ob v = Inr (st, ob', v')" "obj_inv ob'" "obj_oids ob' = obj_oids ob"
        "world_inv v'" "w_next_oid v' = w_next_oid v"
        "obj_is_done ob' \<or> (\<forall>hs. obj_handlers_ok hs ob \<longrightarrow> obj_handlers_ok hs ob')"
      by (auto simp: obj_checked_def)
    have "obj_is_done ob' \<or> obj_handlers_ok ?hs ob'"
    proof (cases "obj_is_done ob")
      case True
      with c(1) show ?thesis using obj_check_done by blast
    next
      case False
      with q(2) c(6) show ?thesis by auto
    qed
    with c q s show ?thesis by (simp add: check_object_def)
  qed
  have "?I (snd (deque_clean check_object obj_is_done destroy_object (nd_active nd) (nd_world nd, None))) \<and>
    (\<forall>ob \<in> set (fst (deque_clean check_object obj_is_done destroy_object (nd_active nd)
       (nd_world nd, None))). ?Q ob)"
    unfolding deque_clean_def
  proof (rule clean_loop_invariant)
    show "?I (snd (check_object s ob)) \<and> ?Q (fst (check_object s ob))" if "?I s" "?Q ob" for s ob
      by (rule check [OF that])
    show "?I (destroy_object ob s)" if "?I s" "?Q ob" for s ob
      using that by (auto simp: destroy_object_def obj_destroy_ok)
    show "?I (nd_world nd, None)" using inv by (simp add: node_inv_def)
    show "\<forall>ob \<in> set (nd_active nd). ?Q ob" using inv by (auto simp: node_inv_def)
  qed
  then have r: "world_inv w" "w_next_oid w = ?N" "c = None" "\<forall>ob \<in> set obs. ?Q ob"
    unfolding d by auto
  have unfin: "\<forall>ob \<in> set obs. \<not> obj_is_done ob"
    using deque_clean_none_finished [where xs = "nd_active nd" and s = "(nd_world nd, None)"
        and check = check_object and fin = obj_is_done and gone = destroy_object] d by auto
  have "node_inv (nd\<lparr>nd_active := obs, nd_world := w\<rparr>)"
    using inv r unfin by (auto simp: node_inv_def)
  with unfin r(3) show ?thesis by (simp add: node_clean_def d)
qed

subsection \<open>The loops\<close>

lemma run_chord_round_ok:
  assumes "node_inv nd"
  shows "node_ok (run_chord_round env nd)"
  unfolding run_chord_round_def
proof (intro node_ok_bind)
  let ?s = "if \<not> w_stabilize_flag (nd_world nd) then handler_stabilize env nd else Inr nd"
  have s: "node_ok ?s" using assms handler_stabilize_ok by simp
  then show "soft e" if "?s = Inl e" for e using that by simp
  fix nd1 assume "?s = Inr nd1"
  with s have nd1: "node_inv nd1" by simp
  let ?c = "if \<not> w_check_predecessor_flag (nd_world nd1) then handler_check_predecessor env nd1 else Inr nd1"
  have c: "node_ok ?c" using nd1 handler_check_predecessor_ok by simp
  then show "soft e" if "?c = Inl e" for e using that by simp
  fix nd2 assume "?c = Inr nd2"
  with c have "node_inv nd2" by simp
  from node_clean_ok [OF this] show "node_ok (node_clean nd2)" by auto
qed

lemma MessageFromSerialized_soft: "MessageFromSerialized parse buf = Inl e \<Longrightarrow> soft e"
  by (auto simp: MessageFromSerialized_def message_from_pb_def chunk_from_pb_def Let_def res_bind_def
      split: option.splits sum.splits if_splits)

lemma receive_ok:
  assumes "node_inv nd"
  shows "node_ok (receive env parse buf s nd)"
  unfolding receive_def
proof (rule node_ok_bind)
  fix m
  let ?r = "set_connection_session s (set_message m (RequestObject_new UNKNOWN (w_now (nd_world nd))))"
  have r: "request_sound ?r" by (simp add: request_sound_def)
  then show "node_ok (dispatch env ?r nd)"
    using handle_request_ok [OF assms r] handle_response_ok [OF assms r]
    by (simp add: dispatch_def ro_is_request_def get_message_sound)
qed (rule MessageFromSerialized_soft)

lemma SerializedFromMessage_soft: "SerializedFromMessage ser m = Inl e \<Longrightarrow> soft e"
  by (auto simp: SerializedFromMessage_def message_to_pb_def chunk_to_pb_def Let_def res_bind_def
      split: option.splits sum.splits if_splits)

lemma send_object_soft:
  assumes "request_sound r" "send_object ser resolves r = Inl e"
  shows "soft e"
  using assms
  by (cases "ro_connection r")
    (auto simp: send_object_def get_message_sound frame_message_eq is_session_def get_session_def
      get_peer_def request_sound_def deref_def res_bind_def
      dest: SerializedFromMessage_soft split: option.splits sum.splits if_splits)

lemma run_send_ok:
  assumes inv: "node_inv nd"
  shows "node_ok (res_bind (run_send ser resolves nd) (\<lambda>(cmds, nd'). Inr nd'))"
proof (cases "nd_send_queue nd")
  case Nil
  with inv show ?thesis by (simp add: run_send_def wait_for_and_pop_def node_inv_def)
next
  case (Cons r q)
  have "request_sound r" using inv Cons by (simp add: node_inv_def)
  note soft = send_object_soft [OF this, of ser resolves]
  have "node_inv (nd\<lparr>nd_send_queue := q\<rparr>)" using inv Cons by (simp add: node_inv_def)
  with soft Cons show ?thesis
    by (cases "send_object ser resolves r") (simp_all add: run_send_def wait_for_and_pop_def)
qed

lemma node_step_ok: "node_inv nd \<Longrightarrow> node_ok (node_step env parse ser resolves ev nd)"
  by (cases ev) (simp_all add: receive_ok on_write_ok run_chord_round_ok run_paste_round_def
      handler_broadcast_ok handler_join_ok run_send_ok, simp add: node_inv_def)

subsection \<open>Every reachable node\<close>

lemma set_self_fields [simp]:
  "rt_self (set_self p rt) = Some p" "rt_successor_list (set_self p rt) = rt_successor_list rt"
  by (simp_all add: set_self_def)

lemma node_inv_started:
  assumes "distinct entries"
  shows "node_inv (handler_init (MessageHandler_new env ip port (rt_new s p t) db fs can entries now))"
proof -
  let ?self = "Peer_new (generate_sha256_addr (en_sha env) ip (to_string_int (sint port))) ip
    (to_string_int (sint port))"
  let ?rt = "set_self ?self (rt_new s p t)"
  let ?st = "StaticStorage_new (en_digest env) (peer_id ?self) db fs can entries"
  have "storage_inv ?st" by (rule reachable_inv [OF storage_reachable.opened [OF assms]])
  moreover have "rt_inv (set_successor ?self rt)"
    if "rt_self rt = Some ?self" "rt_successor_list rt = []" for rt
    using that by (simp add: rt_inv_def set_successor_def rt_size_def succ_list_size_def notify_all_def)
  from this [of ?rt] have "rt_inv (set_successor ?self ?rt)" by (simp add: rt_new_def)
  ultimately show ?thesis
    by (simp add: handler_init_def MessageHandler_new_def node_inv_def world_inv_def split_def Let_def
        set_wf_def queue_new_def rt_simps)
qed

lemma node_reachable_inv:
  "node_reachable env parse ser resolves nd \<Longrightarrow> node_inv nd"
proof (induction rule: node_reachable.induct)
  case (started entries ip port s p t db fs can now)
  then show ?case by (rule node_inv_started)
next
  case (stepped nd ev nd')
  with node_step_ok [OF stepped.IH, of env parse ser resolves ev] show ?case by simp
qed

subsection \<open>Properties\<close>

lemma storage_inv_files:
  "storage_inv st \<Longrightarrow> distinct (map file_name (get_files st))"
  by (simp add: storage_inv_def get_files_def)

text \<open>C6. In every reachable node the table knows the node itself and between one and ten successors,
  so that \<open>try_get_self\<close> and \<open>try_get_successor\<close> always answer; no file is listed twice, no two
  handlers wait for the same correlation id and no two for the same object.\<close>

theorem reachable_node_consistent:
  assumes "node_reachable env parse ser resolves nd"
  shows "fst (w_get_self (nd_world nd)) \<noteq> None \<and> fst (w_get_successor (nd_world nd)) \<noteq> None \<and>
    rt_size (w_table (nd_world nd)) \<le> succ_list_size \<and>
    distinct (map file_name (get_files (w_storage (nd_world nd)))) \<and>
    distinct (map ho_correlation_id (nd_handlers nd)) \<and> inj_on ho_parent (set (nd_handlers nd))"
proof -
  note inv = node_reachable_inv [OF assms]
  then have w: "rt_inv (w_table (nd_world nd))" "storage_inv (w_storage (nd_world nd))"
    and hs: "set_wf ho_correlation_id (nd_handlers nd)" "inj_on ho_parent (set (nd_handlers nd))"
    by (auto simp: node_inv_def)
  have "sorted_wrt (<) (map ho_correlation_id (nd_handlers nd))"
    using hs(1) by (simp add: set_wf_def sorted_wrt_map)
  then have "distinct (map ho_correlation_id (nd_handlers nd))" by (simp add: strict_sorted_iff)
  with w hs show ?thesis
    by (auto simp: rt_inv_def storage_inv_files elim: rt_invD split: list.split)
qed

definition example_node :: node where
  "example_node =
     handler_init (MessageHandler_new example_env ''ip'' 1 (rt_new True False True)
       Map.empty Map.empty (\<lambda>_. True) [] 0)"

lemma example_node_reachable: "node_reachable example_env parse ser resolves example_node"
  unfolding example_node_def by (rule node_reachable.started) simp

lemma reachable_node_consistent_witness:
  "fst (w_get_self (nd_world example_node)) \<noteq> None \<and>
   fst (w_get_successor (nd_world example_node)) \<noteq> None"
  using reachable_node_consistent [OF example_node_reachable] by blast

text \<open>The crashes of a running node: whatever bytes peers send and whatever order its
  threads run in, a step fails only by \<open>front()\<close> of an empty list, an empty optional, the wrong
  alternative of a connection, a chunk shorter than it says, or an exception of the network. No
  promise is set twice, no future is read twice or for ever, no null pointer is dereferenced and
  no composite locks itself out.\<close>

lemma node_crashes:
  assumes "node_reachable env parse ser resolves nd"
    and "node_step env parse ser resolves ev nd = Inl e"
  shows "e \<in> {FrontOfEmpty, BadOptionalAccess, BadVariantAccess, ReadPastEnd, SystemError}"
  using node_step_ok [OF node_reachable_inv [OF assms(1)], of env parse ser resolves ev] assms(2)
  by (simp add: soft_def)

definition example_lookup_request :: pb_Request where
  "example_lookup_request =
     \<lparr>pb_commonheader = header_to_pb (Header_new True 0 0 ''find_successor'' ''t'' '''' ''''),
      pb_peerinfo = [], pb_files = [], pb_file_chunk = None, pb_data = None\<rparr>"

lemma example_lookup_message:
  "MessageFromSerialized (\<lambda>_. example_lookup_request) buf =
     Inr (Message_empty\<lparr>msg_header := Header_new True 0 0 ''find_successor'' ''t'' '''' ''''\<rparr>)"
  by (simp add: MessageFromSerialized_def message_from_pb_def example_lookup_request_def
      Let_def Message_empty_def)

lemma example_node_crash:
  "node_step example_env (\<lambda>_. example_lookup_request) ser resolves (EvReceive [] 0) example_node =
     Inl FrontOfEmpty"
  by (simp add: receive_def example_lookup_message dispatch_def ro_is_request_def is_request_def
      Header_new_def handle_request_def create_from_request_def ro_get_request_type_def
      get_request_type_def split_def Let_def run_object_def lift_step_def run_message_def
      FindSuccessor_new_request_def MessagingBase_new_request_def MessagingBase.defs
      FindSuccessor.defs fs_handle_request_def Message_empty_def get_message_def
      set_connection_session_def set_message_def RequestObject_new_def)

lemma node_crashes_witness:
  "FrontOfEmpty \<in> {FrontOfEmpty, BadOptionalAccess, BadVariantAccess, ReadPastEnd, SystemError}"
  by (rule node_crashes [OF example_node_reachable example_node_crash])



text \<open>C40. In a reachable node every request in the send queue has a message and a receiver, every
  handler belongs to an object whose number was given out, and so do the numbers of all objects
  and of their dependencies.\<close>

theorem reachable_node_typed:
  assumes "node_reachable env parse ser resolves nd"
  shows "(\<forall>r \<in> set (nd_send_queue nd). ro_message r \<noteq> None \<and> ro_connection r \<noteq> ConnPeer None) \<and>
    (\<forall>h \<in> set (nd_handlers nd). ho_parent h < w_next_oid (nd_world nd)) \<and>
    (\<forall>ob \<in> set (nd_active nd). \<forall>i \<in> set (obj_oids ob). i < w_next_oid (nd_world nd))"
  using node_reachable_inv [OF assms] unfolding node_inv_def request_sound_def by blast

lemma example_join:
  "\<exists>nd' r. handler_join example_env ''10.0.0.2'' ''1337'' example_node = Inr nd' \<and>
    nd_send_queue nd' = [r] \<and> length (nd_active nd') = 1"
  by (simp add: handler_join_def with_new_oid_def Join_new_def new_oid_def run_object_def
      run_message_def join_create_request_def run_child_def qu_create_request_def
      send_with_handler_eq lift_step_def MessagingBase_new_def Join.defs MessagingBase.defs
      Query_new_def Query.defs Let_def split_def example_node_def MessageHandler_new_def
      handler_init_def queue_new_def queue_push_def deque_push_back_def)

lemma reachable_node_typed_witness:
  "\<exists>nd r m. handler_join example_env ''10.0.0.2'' ''1337'' example_node = Inr nd \<and>
    nd_send_queue nd = [r] \<and> ro_message r = Some m \<and> ro_connection r \<noteq> ConnPeer None"
proof -
  obtain nd r where nd: "handler_join example_env ''10.0.0.2'' ''1337'' example_node = Inr nd"
    "nd_send_queue nd = [r]" using example_join by blast
  then have "node_step example_env undefined undefined undefined (EvJoin ''10.0.0.2'' ''1337'')
    example_node = Inr nd" by simp
  from reachable_node_typed [OF node_reachable.stepped [OF example_node_reachable this]] nd
  show ?thesis by auto
qed

end
