(* ===== verification/Ring_Lookup.thy ===== *)
theory Ring_Lookup
  imports Find_Successor
begin

section \<open>A lookup across the ring\<close>

text \<open>
  \<open>find_successor\<close> is answered by many nodes together: a node that does not know the owner of an
  identifier sends the request on and relays the answer. Here the handlers of \<open>find_successor.cpp\<close>
  are composed the way the messages compose them, over a network that maps a peer to the state of
  its node, and the composition is compared with the specification \<open>owns_id\<close>: on a stable ring
  every lookup, started at any node, is answered with the owner after at most as many hops as
  there are nodes.
\<close>

subsection \<open>The network\<close>

text \<open>The request object that the dispatcher makes of a message that came in over a session.\<close>

definition arrive :: "Message \<Rightarrow> RequestObject" where
  "arrive m = set_connection_session 0 (set_message m (RequestObject_new UNKNOWN 0))"

text \<open>The answer to the request \<open>m\<close> at the node \<open>v\<close>, when at most \<open>n\<close> nodes take part. An answer
  that comes back finds its handler by the correlation id, or nobody takes it.\<close>

fun network_lookup :: "nat \<Rightarrow> Env \<Rightarrow> (Peer \<Rightarrow> world) \<Rightarrow> Message \<Rightarrow> Peer \<Rightarrow> Message option" where
  "network_lookup 0 env net m v = None"
| "network_lookup (Suc n) env net m v =
     (case fs_handle_request env (FindSuccessor_new_request 0 (arrive m) (w_now (net v))) (net v) of
        Inr (fs', w', [Sig r, SigNotify]) \<Rightarrow> ro_message r
      | Inr (fs', w', [SigH r h]) \<Rightarrow>
          (case (ro_connection r, ro_message r) of
             (ConnPeer (Some u), Some fm) \<Rightarrow>
               (case network_lookup n env net fm u of
                  None \<Rightarrow> None
                | Some answer \<Rightarrow>
                    if get_correlational_id answer = ho_correlation_id h \<and>
                       ho_handler h = HandleForwardedResponse
                    then (case fs_handle_forwarded_response env (arrive answer) fs' w' of
                            Inr (fs'', w'', [Sig r', SigNotify]) \<Rightarrow> ro_message r'
                          | _ \<Rightarrow> None)
                    else None)
           | _ \<Rightarrow> None)
      | _ \<Rightarrow> None)"

text \<open>A stable ring: every node knows itself, its first successor is the next node of the ring,
  and the rest of its list are nodes of the ring as well.\<close>

definition ring_table :: "Peer set \<Rightarrow> Peer \<Rightarrow> RoutingTable \<Rightarrow> bool" where
  "ring_table N me rt \<longleftrightarrow>
     rt_self rt = Some me \<and>
     (\<exists>s ss. rt_successor_list rt = s # ss \<and> set (s # ss) \<subseteq> N \<and>
        (\<forall>m \<in> N. \<not> between (peer_id me) (peer_id m) (peer_id s)))"

definition stable_ring :: "Peer set \<Rightarrow> (Peer \<Rightarrow> world) \<Rightarrow> bool" where
  "stable_ring N net \<longleftrightarrow>
     finite N \<and> inj_on peer_id N \<and> (\<forall>v \<in> N. ring_table N v (w_table (net v)))"

subsection \<open>One hop\<close>

text \<open>What a node of a stable ring knows about an identifier: the owner, or a node that is closer.\<close>

lemma local_successor_owner:
  assumes "ring_table N me rt" "me \<in> N"
    and "local_successor i me (rt_successor_list rt) = Some p"
  shows "p \<in> N \<and> owns_id (peer_id ` N) i (peer_id p)"
proof -
  obtain s ss where l: "rt_successor_list rt = s # ss" and in_N: "set (s # ss) \<subseteq> N"
    and first: "\<forall>m \<in> N. \<not> between (peer_id me) (peer_id m) (peer_id s)"
    using assms(1) by (auto simp: ring_table_def)
  show ?thesis
  proof (cases "between (peer_id me) i (peer_id s) \<or> i = peer_id s")
    case True
    then have "p = s" using assms(3) l by (simp add: local_successor_def)
    moreover have "owns_id (peer_id ` N) i (peer_id s)"
    proof (cases "i = peer_id s")
      case True
      then show ?thesis using in_N by (simp add: owns_id_def)
    next
      case False
      with True have btw: "between (peer_id me) i (peer_id s)" by simp
      have "i \<notin> peer_id ` N" using btw first by auto
      moreover have "\<forall>m \<in> peer_id ` N. \<not> between i m (peer_id s)"
        using btw first ring.arc_trans by blast
      ultimately show ?thesis using in_N by (auto simp: owns_id_def)
    qed
    ultimately show ?thesis using in_N by simp
  next
    case False
    then have self: "peer_id (closest i me (s # ss)) = peer_id me" and p: "p = me"
      using assms(3) l by (auto simp: local_successor_def split: if_splits)
    have "\<not> between (peer_id me) (peer_id s) i"
    proof
      assume "between (peer_id me) (peer_id s) i"
      then show False
        using self by (cases rule: closest_cases [of i me "s # ss"]) (auto dest: closest_id_neq)
    qed
    then have False
      using False ring.arc_total [of "peer_id me" i "peer_id s"] ring.full_arc [of "peer_id me"]
      by metis
    then show ?thesis ..
  qed
qed

lemma closest_closer:
  assumes "ring_table N me rt" "finite N" "inj_on peer_id N"
    and "local_successor i me (rt_successor_list rt) = None"
  defines "u \<equiv> closest i me (rt_successor_list rt)"
  shows "u \<in> N \<and> card {m \<in> peer_id ` N. between (peer_id u) m i} <
    card {m \<in> peer_id ` N. between (peer_id me) m i}"
proof -
  obtain s ss where l: "rt_successor_list rt = s # ss" and in_N: "set (s # ss) \<subseteq> N"
    using assms(1) by (auto simp: ring_table_def)
  have "peer_id u \<noteq> peer_id me"
    using assms(4) l by (auto simp: u_def local_successor_def split: if_splits)
  then have "u \<in> set (s # ss)" and btw: "between (peer_id me) (peer_id u) i"
    unfolding u_def l by (cases rule: closest_cases [of i me "s # ss"]; auto)+
  then have u: "u \<in> N" using in_N by blast
  with btw assms(2) show ?thesis by (simp add: ring.card_arc_less)
qed

subsection \<open>The composition\<close>

lemma arrive_simps [simp]:
  "get_message (arrive m) = Inr m" "ro_message (arrive m) = Some m"
  "ro_connection (arrive m) = ConnSession 0"
  by (simp_all add: arrive_def get_message_def)

lemma set_message_arrive [simp]: "set_message rm (arrive m) = arrive rm"
  by (simp add: arrive_def set_message_def set_connection_session_def RequestObject_new_def)

lemma new_request_simps [simp]:
  "mb_request (FindSuccessor_new_request i r now) = Some r"
  by (simp add: FindSuccessor_new_defs)

lemma request_answered:
  assumes "rt_self (w_table w) = Some me" "msg_peers m = p # rest" "mb_request fs = Some (arrive m)"
    and "local_successor (peer_id p) me (rt_successor_list (w_table w)) = Some owner"
  shows "\<exists>rm fs' w'. fs_handle_request env fs w = Inr (fs', w', [Sig (arrive rm), SigNotify]) \<and>
    msg_peers rm = [owner] \<and> \<not> is_request rm \<and> get_correlational_id rm = get_transaction_id m"
  using assms
  by (auto simp: fs_handle_request_def find_successor_eq step_simps get_correlational_id_def
      get_transaction_id_def)

lemma request_forwarded:
  assumes "rt_self (w_table w) = Some me" "msg_peers m = p # rest" "mb_request fs = Some (arrive m)"
    and "local_successor (peer_id p) me (rt_successor_list (w_table w)) = None"
  shows "\<exists>fm fs' w' r h. fs_handle_request env fs w = Inr (fs', w', [SigH r h]) \<and>
    ro_connection r = ConnPeer (Some (closest (peer_id p) me (rt_successor_list (w_table w)))) \<and>
    ro_message r = Some fm \<and> msg_peers fm = [p] \<and> ho_correlation_id h = get_transaction_id fm \<and>
    ho_handler h = HandleForwardedResponse \<and> mb_request fs' = mb_request fs"
  using assms
  by (auto simp: fs_handle_request_def fs_forward_request_def find_successor_eq
      closest_preceding_node_eq step_simps)

lemma answer_relayed:
  assumes "mb_request fs = Some (arrive m)" "msg_peers answer = owner # rest"
  shows "\<exists>rm fs' w'. fs_handle_forwarded_response env (arrive answer) fs w =
      Inr (fs', w', [Sig (arrive rm), SigNotify]) \<and>
    msg_peers rm = [owner] \<and> \<not> is_request rm \<and> get_correlational_id rm = get_transaction_id m"
  using assms
  by (auto simp: fs_handle_forwarded_response_def step_simps get_correlational_id_def
      get_transaction_id_def)

lemma network_lookup_owner:
  assumes ring: "stable_ring N net"
  shows "v \<in> N \<Longrightarrow> msg_peers m = p # rest \<Longrightarrow>
    card {x \<in> peer_id ` N. between (peer_id v) x (peer_id p)} < n \<Longrightarrow>
    \<exists>rm owner. network_lookup n env net m v = Some rm \<and> msg_peers rm = [owner] \<and> owner \<in> N \<and>
      owns_id (peer_id ` N) (peer_id p) (peer_id owner) \<and> \<not> is_request rm \<and>
      get_correlational_id rm = get_transaction_id m"
proof (induction n arbitrary: v m rest)
  case 0
  then show ?case by simp
next
  case (Suc n)
  let ?fs = "FindSuccessor_new_request 0 (arrive m) (w_now (net v))"
  let ?rt = "w_table (net v)"
  have N: "finite N" "inj_on peer_id N" and table: "ring_table N v ?rt"
    using ring Suc.prems(1) by (auto simp: stable_ring_def)
  then have self: "rt_self ?rt = Some v" by (simp add: ring_table_def)
  show ?case
  proof (cases "local_successor (peer_id p) v (rt_successor_list ?rt)")
    case (Some owner)
    from request_answered [OF self Suc.prems(2) new_request_simps this, of env 0 "w_now (net v)"]
      local_successor_owner [OF table Suc.prems(1) Some]
    show ?thesis by auto
  next
    case None
    let ?u = "closest (peer_id p) v (rt_successor_list ?rt)"
    from request_forwarded [OF self Suc.prems(2) new_request_simps None, of env 0 "w_now (net v)"]
    obtain fm fs' w' r h where f:
      "fs_handle_request env ?fs (net v) = Inr (fs', w', [SigH r h])"
      "ro_connection r = ConnPeer (Some ?u)" "ro_message r = Some fm" "msg_peers fm = [p]"
      "ho_correlation_id h = get_transaction_id fm" "ho_handler h = HandleForwardedResponse"
      "mb_request fs' = Some (arrive m)"
      by auto
    from closest_closer [OF table N None] Suc.prems(3)
    have u: "?u \<in> N" "card {x \<in> peer_id ` N. between (peer_id ?u) x (peer_id p)} < n" by simp_all
    from Suc.IH [OF u(1) f(4) u(2)] obtain answer owner where a:
      "network_lookup n env net fm ?u = Some answer" "msg_peers answer = [owner]" "owner \<in> N"
      "owns_id (peer_id ` N) (peer_id p) (peer_id owner)"
      "get_correlational_id answer = get_transaction_id fm"
      by auto
    from answer_relayed [OF f(7) a(2), of env w'] a f show ?thesis by auto
  qed
qed

lemma ring_lookup_owner:
  assumes "stable_ring N net" "v \<in> N" "msg_peers m = p # rest" "card N \<le> n"
  shows "\<exists>rm owner. network_lookup n env net m v = Some rm \<and> msg_peers rm = [owner] \<and>
    owner \<in> N \<and> owns_id (peer_id ` N) (peer_id p) (peer_id owner) \<and> \<not> is_request rm \<and>
    get_correlational_id rm = get_transaction_id m"
proof (rule network_lookup_owner [OF assms(1-3)])
  have N: "finite N" "inj_on peer_id N" using assms(1) by (simp_all add: stable_ring_def)
  have "{x \<in> peer_id ` N. between (peer_id v) x (peer_id p)} \<subset> peer_id ` N"
    using assms(2) ring.not_left [of "peer_id v"] by blast
  then have "card {x \<in> peer_id ` N. between (peer_id v) x (peer_id p)} < card (peer_id ` N)"
    by (rule psubset_card_mono [OF finite_imageI [OF N(1)]])
  also have "\<dots> = card N" using N by (simp add: card_image)
  finally show "card {x \<in> peer_id ` N. between (peer_id v) x (peer_id p)} < n" using assms(4) by simp
qed

text \<open>C8. Lookups are correct and end: on a stable ring, a \<open>find_successor\<close> request that arrives at
  any of its nodes is answered after at most as many hops as the ring has nodes, under the
  transaction id of the request, with one peer: the node of the ring that owns the identifier,
  which is the node with that identifier or else the first one after it.\<close>

theorem ring_lookup_finds_owner:
  assumes "stable_ring N net" "v \<in> N" "msg_peers m = p # rest" "card N \<le> n"
  shows "\<exists>rm owner. network_lookup n env net m v = Some rm \<and> msg_peers rm = [owner] \<and>
    owner \<in> N \<and> owns_id (peer_id ` N) (peer_id p) (peer_id owner) \<and> \<not> is_request rm \<and>
    get_correlational_id rm = get_transaction_id m"
  using ring_lookup_owner [OF assms] .


subsection \<open>Example\<close>

definition example_net :: "Peer \<Rightarrow> world" where
  "example_net v =
     (if peer_id v = ''b'' then example_world ''b'' [''d'', ''f'']
      else if peer_id v = ''d'' then example_world ''d'' [''f'', ''b'']
      else example_world ''f'' [''b'', ''d''])"

definition example_ring :: "Peer set" where
  "example_ring = {example_peer ''b'', example_peer ''d'', example_peer ''f''}"

lemma example_ring_stable: "stable_ring example_ring example_net"
  by (auto simp: stable_ring_def ring_table_def example_ring_def example_net_def between_def
      inj_on_def)

lemma example_ring_card: "card example_ring \<le> 3"
  by (simp add: example_ring_def card_insert_if)

lemma ring_lookup_finds_owner_witness:
  "\<exists>rm owner. network_lookup 3 example_env example_net
      (Message_empty\<lparr>msg_peers := [example_peer ''e'']\<rparr>) (example_peer ''f'') = Some rm \<and>
    msg_peers rm = [owner] \<and> owns_id (peer_id ` example_ring) ''e'' (peer_id owner)"
  using ring_lookup_finds_owner [OF example_ring_stable _ _ example_ring_card,
      of "example_peer ''f''" "Message_empty\<lparr>msg_peers := [example_peer ''e'']\<rparr>" "example_peer ''e''" "[]"
        example_env]
  by (auto simp: example_ring_def)


end
