(* ===== verification/Exchanges.thy ===== *)
theory Exchanges
  imports Ring_Lookup Composite_Messages
begin

section \<open>Requests and answers between two nodes\<close>

text \<open>
  The single-request messages from end to end: one node asks, another one answers, the first one
  takes the answer. An exchange composes the three handlers of a class the way the messages
  do, with the check that the answer's correlation id is the one the asker registered.
\<close>

definition exchange ::
  "'a step \<Rightarrow> (RequestObject \<Rightarrow> 'b step) \<Rightarrow> (RequestObject \<Rightarrow> 'a \<Rightarrow> world \<Rightarrow> 'a step) \<Rightarrow>
   ('a \<times> world \<times> 'b \<times> world) option" where
  "exchange asked answer take_answer =
     (case asked of
        Inr (a, wa, [SigH r h]) \<Rightarrow>
          (case ro_message r of
             None \<Rightarrow> None
           | Some m \<Rightarrow>
               (case answer (arrive m) of
                  Inr (b, wb, [Sig resp, SigNotify]) \<Rightarrow>
                    (case ro_message resp of
                       None \<Rightarrow> None
                     | Some am \<Rightarrow>
                         if get_correlational_id am = ho_correlation_id h \<and> \<not> is_request am
                         then (case take_answer (arrive am) a wa of
                                 Inr (a', wa', sigs) \<Rightarrow> Some (a', wa', b, wb)
                               | Inl e \<Rightarrow> None)
                         else None)
                | _ \<Rightarrow> None))
      | _ \<Rightarrow> None)"

lemmas exchange_simps =
  exchange_def send_with_handler_eq finish_as_def RequestDestruction_def get_correlational_id_def
  get_transaction_id_def Let_def split_def

lemma arrive_inject [simp]: "arrive m = arrive m' \<longleftrightarrow> m = m'"
  by (metis arrive_simps(2) option.inject)

lemma arrive_session [simp]: "is_session (arrive m)" "get_session (arrive m) = Inr 0"
  by (simp_all add: is_session_def get_session_def)

subsection \<open>Query\<close>

text \<open>A query tells the asker its own address: after the exchange it knows itself under the
  address the answering node sees it at, with the port it announced, and under the hash of the
  two; nothing else of its table changes, and the promise holds that peer.\<close>

lemma query_learns_address:
  assumes "rt_self (w_table w) = Some me" "en_remote_ip env' 0 = Some ip"
    "aw_value (qu_promise q) = None"
  defines "self \<equiv> Peer_new (generate_sha256_addr (en_sha env') ip (peer_port me)) ip (peer_port me)"
  shows "\<exists>q' w' b wb.
    exchange (qu_create_request env q w) (\<lambda>r. qu_handle_request env' (Query_new_request i r now) w2)
      qu_handle_response = Some (q', w', b, wb) \<and>
    rt_self (w_table w') = Some self \<and> mb_state q' = DONE \<and> mb_is_done q' \<and>
    aw_value (qu_promise q') = Some (Some self) \<and>
    rt_successor_list (w_table w') = rt_successor_list (w_table w) \<and>
    rt_predecessor (w_table w') = rt_predecessor (w_table w)"
  using assms
  by (simp add: exchange_simps qu_defs Query_new_request_def MessagingBase_new_request_def
      MessagingBase.defs Query.defs get_client_ip_def add_peer_def Peer_new_def set_promise_def
      self_def)

text \<open>Two nodes whose address and port, written one after the other, are the same text get the
  same identifier from the nodes they ask: the hash is taken without a separator.\<close>

lemma query_id_collision:
  assumes "ip @ peer_port p = ip' @ peer_port p'"
    "msg_peers m = [p]" "msg_peers m' = [p']" "en_remote_ip env 0 = Some ip"
    "en_remote_ip env' 0 = Some ip'" "en_sha env' = en_sha env"
  shows "\<exists>b w1 rm b' w1' rm' q q'.
    qu_handle_request env (Query_new_request i (arrive m) now) w =
      Inr (b, w1, [Sig (arrive rm), SigNotify]) \<and>
    qu_handle_request env' (Query_new_request i (arrive m') now) w =
      Inr (b', w1', [Sig (arrive rm'), SigNotify]) \<and>
    msg_peers rm = [q] \<and> msg_peers rm' = [q'] \<and> peer_id q = peer_id q'"
  using assms
  by (simp add: exchange_simps qu_defs Query_new_request_def MessagingBase_new_request_def
      MessagingBase.defs Query.defs get_client_ip_def add_peer_def generate_sha256_addr_def)

subsection \<open>Successor lists\<close>

text \<open>The successor list of the answering node arrives as it is.\<close>

lemma successor_list_arrives:
  assumes "sl_connection l = Some conn" "aw_value (sl_promise l) = None"
  shows "\<exists>l' w' b wb.
    exchange (sl_create_request env l w)
      (\<lambda>r. sl_handle_request env' (GetSuccessorList_new_request i r now) w2) sl_handle_response =
      Some (l', w', b, wb) \<and>
    aw_value (sl_promise l') = Some (Some (rt_successor_list (w_table w2))) \<and>
    mb_state l' = DONE \<and> mb_is_done l' \<and> mb_is_done b \<and> w_table wb = w_table w2"
  using assms
  by (simp add: exchange_simps sl_defs GetSuccessorList_new_request_def
      MessagingBase_new_request_def MessagingBase.defs GetSuccessorList.defs rt_get_peers_def
      set_promise_def)

text \<open>A node that is asked for its predecessor and its successors sends them in this order; one
  without a predecessor sends an empty list, not its successors.\<close>

lemma predecessor_list_arrives:
  assumes "ps_target l = Some target" "aw_value (ps_promise l) = None"
  shows "\<exists>l' w' b wb.
    exchange (ps_create_request env l w)
      (\<lambda>r. ps_handle_request env' (GetPredAndSuccList_new_request i r now) w2) ps_handle_response =
      Some (l', w', b, wb) \<and>
    aw_value (ps_promise l') =
      Some (Some (case rt_predecessor (w_table w2) of
        None \<Rightarrow> [] | Some p \<Rightarrow> p # rt_successor_list (w_table w2))) \<and>
    mb_state l' = DONE \<and> mb_is_done l' \<and> mb_is_done b"
  using assms
  by (simp add: exchange_simps ps_defs GetPredAndSuccList_new_request_def
      MessagingBase_new_request_def MessagingBase.defs GetPredAndSuccList.defs rt_get_peers_def
      set_promise_def split: option.split)

subsection \<open>Notification\<close>

text \<open>Handling a notification of a node that has a predecessor.\<close>

definition rectify :: "string \<Rightarrow> Peer \<Rightarrow> Peer \<Rightarrow> Peer" where
  "rectify me p q = (if between (peer_id p) (peer_id q) me then q else p)"

lemma no_handle_request_eq:
  assumes "rt_self (w_table w) = Some me" "rt_predecessor (w_table w) = Some p"
    "mb_request n = Some (arrive m)" "msg_peers m = [q]"
  shows "\<exists>n' w' rm. no_handle_request env n w = Inr (n', w', [Sig (arrive rm), SigNotify]) \<and>
    rt_predecessor (w_table w') = Some (rectify (peer_id me) p q) \<and>
    rt_self (w_table w') = Some me \<and>
    rt_successor_list (w_table w') = rt_successor_list (w_table w) \<and>
    get_correlational_id rm = get_transaction_id m \<and> \<not> is_request rm \<and> mb_is_done n'"
  using assms
  by (simp add: exchange_simps no_handle_request_def has_predecessor_def rectify_def)

text \<open>The node after the notifications of \<open>qs\<close> have arrived one after the other.\<close>

fun notified :: "Env \<Rightarrow> Peer list \<Rightarrow> world \<Rightarrow> world res" where
  "notified env [] w = Inr w"
| "notified env (q # qs) w =
     res_bind (no_handle_request env
        (Notification_new_request 0 (arrive (Message_empty\<lparr>msg_peers := [q]\<rparr>)) (w_now w)) w)
       (\<lambda>(n, w', sigs). notified env qs w')"

lemma notified_rectifies:
  assumes "rt_self (w_table w) = Some me" "rt_predecessor (w_table w) = Some p"
  shows "\<exists>w'. notified env qs w = Inr w' \<and> rt_self (w_table w') = Some me \<and>
    rt_predecessor (w_table w') = Some (foldl (rectify (peer_id me)) p qs)"
  using assms
proof (induction qs arbitrary: w p)
  case Nil
  then show ?case by simp
next
  case (Cons q qs)
  let ?n = "Notification_new_request 0 (arrive (Message_empty\<lparr>msg_peers := [q]\<rparr>)) (w_now w)"
  have "mb_request ?n = Some (arrive (Message_empty\<lparr>msg_peers := [q]\<rparr>))"
    by (simp add: Notification_new_request_def MessagingBase_new_request_def MessagingBase.defs
        Notification.defs)
  from no_handle_request_eq [OF Cons.prems this, of q env] obtain n' w' sigs where
    "no_handle_request env ?n w = Inr (n', w', sigs)" "rt_self (w_table w') = Some me"
    "rt_predecessor (w_table w') = Some (rectify (peer_id me) p q)"
    by auto
  with Cons.IH [of w' "rectify (peer_id me) p q"] show ?case by simp
qed

text \<open>\<open>between y x me\<close> orders the other points by how close before \<open>me\<close> they are.\<close>

lemma closer_total: "x \<noteq> y \<Longrightarrow> x \<noteq> me \<Longrightarrow> y \<noteq> me \<Longrightarrow> between x y me \<or> between y x me"
  by (auto simp: between_def)

lemma closer_asym: "between x y me \<Longrightarrow> \<not> between y x me"
  by (auto simp: between_def split: if_splits)

lemma rectify_closest:
  assumes "peer_id p \<noteq> me" "\<forall>q \<in> set qs. peer_id q \<noteq> me"
  shows "foldl (rectify me) p qs \<in> insert p (set qs) \<and>
    (\<forall>x \<in> insert p (set qs). \<not> between (peer_id (foldl (rectify me) p qs)) (peer_id x) me)"
  using assms
proof (induction qs arbitrary: p rule: list.induct)
  case Nil
  then show ?case using ring.not_left by simp
next
  case (Cons q qs)
  let ?r = "rectify me p q" and ?f = "foldl (rectify me) (rectify me p q) qs"
  have r: "?r = p \<or> ?r = q" "peer_id ?r \<noteq> me" using Cons.prems by (auto simp: rectify_def)
  with Cons have ih: "?f \<in> insert ?r (set qs)" "\<forall>x \<in> insert ?r (set qs). \<not> between (peer_id ?f) (peer_id x) me"
    by auto
  have no_r: "\<not> between (peer_id ?f) (peer_id ?r) me" using ih by simp
  have step: "\<not> between (peer_id ?f) (peer_id x) me" if "x = p \<or> x = q" for x
  proof
    assume btw: "between (peer_id ?f) (peer_id x) me"
    with no_r have neq: "peer_id x \<noteq> peer_id ?r" by auto
    have "\<not> between (peer_id ?r) (peer_id x) me"
      using that neq closer_asym Cons.prems ring.not_left by (auto simp: rectify_def)
    then have "between (peer_id x) (peer_id ?r) me"
      using closer_total neq r(2) that Cons.prems by auto
    with btw no_r show False using ring.arc_trans by blast
  qed
  with ih r(1) show ?case by auto
qed

text \<open>C14. The rectify rule converges: after any sequence of notifications, the predecessor is the
  closest one before the node among the old predecessor and all peers that have notified, whatever
  the order they came in; a notification never replaces it by a peer that is further away.\<close>

theorem notify_converges:
  assumes "rt_self (w_table w) = Some me" "rt_predecessor (w_table w) = Some p"
    and "peer_id p \<noteq> peer_id me" "\<forall>q \<in> set qs. peer_id q \<noteq> peer_id me"
  shows "\<exists>w' p'. notified env qs w = Inr w' \<and> rt_predecessor (w_table w') = Some p' \<and>
    p' \<in> insert p (set qs) \<and>
    (\<forall>x \<in> insert p (set qs). \<not> between (peer_id p') (peer_id x) (peer_id me))"
  using notified_rectifies [OF assms(1,2), of env qs] rectify_closest [OF assms(3,4)] by auto

text \<open>C37. The first notification a node without a predecessor receives is adopted but not answered:
  the state is FAILED and the object is neither done nor has it sent anything.\<close>

theorem first_notification_unanswered:
  assumes "rt_predecessor (w_table w) = None" "msg_peers m = [q]"
  shows "\<exists>n'. no_handle_request env (Notification_new_request i (arrive m) now) w =
      Inr (n', w\<lparr>w_table := set_predecessor q (w_table w)\<rparr>, []) \<and>
    mb_state n' = FAILED \<and> \<not> mb_is_done n'"
  using assms
  by (simp add: no_handle_request_def has_predecessor_def Notification_new_request_def
      MessagingBase_new_request_def MessagingBase.defs Notification.defs)

subsection \<open>CheckPredecessor\<close>

text \<open>A predecessor that answers stays: the exchange lowers the flag again and the table keeps
  its predecessor.\<close>

lemma living_predecessor_kept:
  assumes "rt_predecessor (w_table w) = Some p" "cp_has_flag c"
  shows "\<exists>c' w' b wb. exchange (cp_create_request env c w)
      (\<lambda>r. cp_handle_request env' (CheckPredecessor_new_request i r now) w2) cp_handle_response =
      Some (c', w', b, wb) \<and>
    rt_predecessor (w_table w') = Some p \<and> \<not> w_check_predecessor_flag w' \<and>
    mb_state c' = DONE \<and> mb_is_done c'"
  using assms
  by (simp add: exchange_simps cp_defs CheckPredecessor_new_request_def
      MessagingBase_new_request_def MessagingBase.defs CheckPredecessor.defs)

text \<open>C28. A predecessor that does not answer in ten seconds is forgotten: the check raises the flag,
  and the next look at the object after its time-out finishes it as failed, resets the predecessor
  and lowers the flag, so that the next round checks again.\<close>

theorem dead_predecessor_forgotten:
  assumes "rt_predecessor (w_table w) = Some p"
  shows "\<exists>c w1 r h c' w2.
    cp_create_request env (CheckPredecessor_new i (w_now w)) w = Inr (c, w1, [SigH r h]) \<and>
    ro_connection r = ConnPeer (Some p) \<and> w_check_predecessor_flag w1 \<and>
    check_state cp_handle_failed no_dependencies c (w1\<lparr>w_now := w_now w + DURATION + 1\<rparr>) =
      Inr (FAILED, c', w2) \<and>
    mb_is_done c' \<and> rt_predecessor (w_table w2) = None \<and> \<not> w_check_predecessor_flag w2"
  using assms
  by (simp add: exchange_simps cp_defs CheckPredecessor_new_def MessagingBase_new_def
      MessagingBase.defs CheckPredecessor.defs check_state_def cp_handle_failed_def)

subsection \<open>Stabilize\<close>

lemma sb_deps_inject [simp]: "s\<lparr>sb_deps := a\<rparr> = s\<lparr>sb_deps := b\<rparr> \<longleftrightarrow> a = b"
  by (auto dest: arg_cong [where f = sb_deps])

lemma create_notification_eq:
  assumes "rt_self (w_table w) = Some me" "peer_id me \<noteq> ''''" "rt_successor_list (w_table w) = t # ts"
  shows "\<exists>l w' r h m. create_notification env s w =
      Inr (s\<lparr>sb_deps := (l, True) # sb_deps s\<rparr>, w', [SigH r h]) \<and>
    ro_connection r = ConnPeer (Some t) \<and> ro_message r = Some m \<and>
    get_request_type m = ''notify'' \<and> msg_peers m = [me] \<and> w_table w' = w_table w \<and>
    w_stabilize_flag w' = w_stabilize_flag w"
  using assms
  by (simp add: create_notification_def sb_start_child_def run_child_def new_oid_def split_def
      run_message_def lift_step_def Notification_new_def MessagingBase_new_def MessagingBase.defs
      Notification.defs no_create_request_def send_with_handler_eq Let_def get_request_type_def)

text \<open>C22. A round of stabilisation with an answer of the successor: the node takes over the
  successor's list behind its successor. If the successor's predecessor lies between them, it is
  asked for its own list next and the round goes on; otherwise the round ends with a notification
  of the successor and the flag is lowered.\<close>

theorem stabilize_follows_predecessor:
  assumes "sb_deps s = (LGetPredAndSuccList l, e) # ds" "mb_is_done l" "mb_state l = DONE"
    "ps_promise l = \<lparr>aw_value = Some (Some (sp # rest)), aw_retrieved = False\<rparr>" "sb_has_flag s"
    "rt_self (w_table w) = Some me" "peer_id me \<noteq> ''''" "rt_successor_list (w_table w) = t # ts"
  shows "\<exists>s' w' r h m. sb_notify env s w = Inr (s', w', [SigH r h]) \<and>
    rt_successor_list (w_table w') =
      resize succ_list_size Peer_empty (t # (if rest = [] then [sp] else rest)) \<and>
    ro_message r = Some m \<and>
    (if between (peer_id me) (peer_id sp) (peer_id t)
     then ro_connection r = ConnPeer (Some sp) \<and>
       get_request_type m = ''get_self_and_successor_list'' \<and>
       w_stabilize_flag w' = w_stabilize_flag w
     else ro_connection r = ConnPeer (Some t) \<and> get_request_type m = ''notify'' \<and>
       msg_peers m = [me] \<and> \<not> w_stabilize_flag w')"
proof -
  let ?list = "if rest \<noteq> [] then rest else [sp]"
  let ?s = "s\<lparr>sb_deps := (mark_retrieved (LGetPredAndSuccList l), e) # ds,
    mb_time_point := w_now w + DURATION\<rparr>"
  let ?w = "w\<lparr>w_table := replace_successor_list (t # ?list) (w_table w)\<rparr>"
  have "rt_successor_list (w_table ?w) =
      t # tl (resize succ_list_size Peer_empty (t # ?list))"
    by (simp add: succ_list_size_def resize_def)
  from create_notification_eq [OF _ assms(7) this, of env ?s] assms(6)
  obtain c w' r h m where n: "create_notification env ?s ?w =
      Inr (?s\<lparr>sb_deps := (c, True) # sb_deps ?s\<rparr>, w', [SigH r h])"
    "ro_connection r = ConnPeer (Some t)" "ro_message r = Some m"
    "get_request_type m = ''notify''" "msg_peers m = [me]" "w_table w' = w_table ?w"
    by auto
  show ?thesis
  proof (cases "between (peer_id me) (peer_id sp) (peer_id t)")
    case True
    then show ?thesis
      using assms
      by (simp add: sb_notify_def leaf_is_done_def leaf_state_def
          handle_get_pred_and_succ_list_notify_def future_get_def sb_start_child_def run_child_def
          new_oid_def split_def run_message_def lift_step_def GetSelfAndSuccList_new_def
          MessagingBase_new_def MessagingBase.defs GetSelfAndSuccList.defs ss_create_request_def
          send_with_handler_eq Let_def get_request_type_def MessagingBase.truncate_def)
  next
    case False
    then show ?thesis
      using assms n
      by (simp add: sb_notify_def leaf_is_done_def leaf_state_def
          handle_get_pred_and_succ_list_notify_def future_get_def split_def Let_def
          sb_clear_flag_def MessagingBase.truncate_def)
  qed
qed

subsection \<open>Join\<close>

text \<open>The answers \<open>ms\<close> reach the dependency that the join has at that moment.\<close>

fun join_answers :: "Env \<Rightarrow> Message list \<Rightarrow> Join \<Rightarrow> world \<Rightarrow> Join step" where
  "join_answers env [] j w = Inr (j, w, [])"
| "join_answers env (m # ms) j w =
     (case jo_deps j of
        [] \<Rightarrow> Inl FrontOfEmpty
      | (l, e) # ds \<Rightarrow>
          res_bind (join_child env (leaf_handle env HandleResponse (arrive m) l w) j) (\<lambda>(j', w', sigs).
          res_bind (join_answers env ms j' w') (\<lambda>(j'', w'', sigs'). Inr (j'', w'', sigs @ sigs'))))"

lemmas join_step_simps =
  join_child_def set_child_def leaf_oid_def leaf_is_done_def leaf_state_def join_on_signal_def
  join_notify_def future_get_def join_start_child_def run_child_def run_message_def lift_step_def
  new_oid_def split_def Let_def send_with_handler_eq RequestDestruction_def finish_as_def
  MessagingBase.truncate_def MessagingBase.defs MessagingBase_new_def get_request_type_def

lemma join_query_answered:
  assumes "jo_deps j = [(LQuery q, True)]" "qu_promise q = Awaitable_new" "msg_peers m = [self]"
  shows "\<exists>j' w' fs r h rm. join_child env (leaf_handle env HandleResponse (arrive m) (LQuery q) w) j =
      Inr (j', w', [SigH r h]) \<and>
    jo_deps j' = [(LFindSuccessor fs, True)] \<and> fs_promise fs = Awaitable_new \<and>
    ro_connection r = ConnPeer (Some (jo_target j)) \<and> ro_message r = Some rm \<and>
    get_request_type rm = ''find_successor'' \<and> msg_peers rm = [Peer_new (peer_id self) '''' ''''] \<and>
    rt_self (w_table w') = Some self \<and>
    rt_successor_list (w_table w') = rt_successor_list (w_table w)"
  using assms
  by (simp add: join_step_simps qu_handle_response_def handle_query_notify_def
      FindSuccessor_new_target_def FindSuccessor.defs fs_create_request_def)

lemma join_successor_answered:
  assumes "jo_deps j = [(LFindSuccessor fs, True)]" "fs_promise fs = Awaitable_new"
    "msg_peers m = [succ]"
  shows "\<exists>j' w' l r h rm.
    join_child env (leaf_handle env HandleResponse (arrive m) (LFindSuccessor fs) w) j =
      Inr (j', w', [SigH r h]) \<and>
    jo_deps j' = [(LGetSuccessorList l, True)] \<and> sl_promise l = Awaitable_new \<and>
    ro_connection r = ConnPeer (Some succ) \<and> ro_message r = Some rm \<and>
    get_request_type rm = ''get_successor_list'' \<and>
    rt_self (w_table w') = rt_self (w_table w) \<and>
    rt_successor_list (w_table w') = succ # tl (rt_successor_list (w_table w))"
  using assms
  by (simp add: join_step_simps fs_handle_response_def handle_find_successor_notify_def
      GetSuccessorList_new_def GetSuccessorList.defs sl_create_request_def)

lemma join_list_answered:
  assumes "jo_deps j = [(LGetSuccessorList l, True)]" "sl_promise l = Awaitable_new"
    "rt_successor_list (w_table w) = succ # ss"
  shows "\<exists>j' w'. join_child env (leaf_handle env HandleResponse (arrive m) (LGetSuccessorList l) w) j =
      Inr (j', w', [SigNotify]) \<and> mb_state j' = DONE \<and> mb_is_done j' \<and>
    rt_self (w_table w') = rt_self (w_table w) \<and>
    rt_successor_list (w_table w') = resize succ_list_size Peer_empty (succ # msg_peers m @ ss)"
  using assms
  by (simp add: join_step_simps sl_handle_response_def handle_get_successor_list_notify_def
      replace_after_successor_def)

text \<open>Joining: when the three questions of a join are answered (who am I, who is my successor,
  what is its list), the node knows itself as the first answer says, its first successor is the
  peer of the second, the list of the third stands behind it, and the join is done.\<close>

lemma join_completes:
  assumes "jo_deps j = [(LQuery q, True)]" "qu_promise q = Awaitable_new"
    "msg_peers m1 = [self]" "msg_peers m2 = [succ]"
  shows "\<exists>j' w' r1 h1 r2 h2.
    join_answers env [m1, m2, m3] j w = Inr (j', w', [SigH r1 h1, SigH r2 h2, SigNotify]) \<and>
    ro_connection r1 = ConnPeer (Some (jo_target j)) \<and> ro_connection r2 = ConnPeer (Some succ) \<and>
    mb_state j' = DONE \<and> mb_is_done j' \<and> rt_self (w_table w') = Some self \<and>
    rt_successor_list (w_table w') = resize succ_list_size Peer_empty
      (succ # msg_peers m3 @ tl (rt_successor_list (w_table w)))"
proof -
  from join_query_answered [OF assms(1-3), of env w] obtain j1 w1 fs r1 h1 where 1:
    "join_child env (leaf_handle env HandleResponse (arrive m1) (LQuery q) w) j =
      Inr (j1, w1, [SigH r1 h1])" "jo_deps j1 = [(LFindSuccessor fs, True)]"
    "fs_promise fs = Awaitable_new" "ro_connection r1 = ConnPeer (Some (jo_target j))"
    "rt_self (w_table w1) = Some self" "rt_successor_list (w_table w1) = rt_successor_list (w_table w)"
    by blast
  from join_successor_answered [OF 1(2,3) assms(4), of env w1] obtain j2 w2 l r2 h2 where 2:
    "join_child env (leaf_handle env HandleResponse (arrive m2) (LFindSuccessor fs) w1) j1 =
      Inr (j2, w2, [SigH r2 h2])" "jo_deps j2 = [(LGetSuccessorList l, True)]"
    "sl_promise l = Awaitable_new" "ro_connection r2 = ConnPeer (Some succ)"
    "rt_self (w_table w2) = rt_self (w_table w1)"
    "rt_successor_list (w_table w2) = succ # tl (rt_successor_list (w_table w1))"
    by blast
  from join_list_answered [OF 2(2,3,6), of env m3] obtain j3 w3 where 3:
    "join_child env (leaf_handle env HandleResponse (arrive m3) (LGetSuccessorList l) w2) j2 =
      Inr (j3, w3, [SigNotify])" "mb_state j3 = DONE" "mb_is_done j3"
    "rt_self (w_table w3) = rt_self (w_table w2)"
    "rt_successor_list (w_table w3) =
      resize succ_list_size Peer_empty (succ # msg_peers m3 @ tl (rt_successor_list (w_table w1)))"
    by blast
  have "join_answers env [m1, m2, m3] j w = Inr (j3, w3, [SigH r1 h1, SigH r2 h2, SigNotify])"
    using 1(1,2) 2(1,2) 3(1) assms(1) by simp
  with 1 2 3 show ?thesis by auto
qed

subsection \<open>Examples\<close>

text \<open>Node \<open>b\<close> with predecessor \<open>a\<close> and successor \<open>d\<close>.\<close>

definition example_member :: world where
  "example_member =
     (example_world ''b'' [''d''])\<lparr>w_table :=
        set_predecessor (example_peer ''a'') (w_table (example_world ''b'' [''d'']))\<rparr>"

lemma example_member_simps [simp]:
  "rt_self (w_table example_member) = Some (example_peer ''b'')"
  "rt_predecessor (w_table example_member) = Some (example_peer ''a'')"
  "rt_successor_list (w_table example_member) = [example_peer ''d'']"
  by (simp_all add: example_member_def rt_defs)

definition example_msg :: "string list \<Rightarrow> Message" where
  "example_msg is = Message_empty\<lparr>msg_peers := map example_peer is\<rparr>"

lemma example_msg_peers [simp]: "msg_peers (example_msg is) = map example_peer is"
  by (simp add: example_msg_def)

lemma query_learns_address_witness:
  "\<exists>q' w' b wb.
    exchange (qu_create_request example_env (Query_new 0 ''ip'' ''1'' 0) example_member)
      (\<lambda>r. qu_handle_request example_env (Query_new_request 1 r 0) example_member)
      qu_handle_response = Some (q', w', b, wb) \<and>
    rt_self (w_table w') = Some (Peer_new ''ip1'' ''ip'' ''1'')"
proof -
  have "aw_value (qu_promise (Query_new 0 ''ip'' ''1'' 0)) = None"
    by (simp add: Query_new_def MessagingBase_new_def MessagingBase.defs Query.defs)
  from query_learns_address [OF example_member_simps(1) _ this, of example_env "''ip''" example_env 1 0
      example_member]
  show ?thesis
    by (auto simp: example_env_def example_peer_def generate_sha256_addr_def)
qed

lemma query_id_collision_witness:
  "\<exists>b w1 rm b' w1' rm' q q'.
    qu_handle_request (example_env\<lparr>en_remote_ip := \<lambda>_. Some ''10.0.0.1''\<rparr>)
      (Query_new_request 0 (arrive (Message_empty\<lparr>msg_peers := [Peer_new '''' '''' ''234'']\<rparr>)) 0)
      example_member = Inr (b, w1, [Sig (arrive rm), SigNotify]) \<and>
    qu_handle_request (example_env\<lparr>en_remote_ip := \<lambda>_. Some ''10.0.0.12''\<rparr>)
      (Query_new_request 0 (arrive (Message_empty\<lparr>msg_peers := [Peer_new '''' '''' ''34'']\<rparr>)) 0)
      example_member = Inr (b', w1', [Sig (arrive rm'), SigNotify]) \<and>
    msg_peers rm = [q] \<and> msg_peers rm' = [q'] \<and> peer_id q = peer_id q'"
  by (rule query_id_collision [where ip = "''10.0.0.1''" and ip' = "''10.0.0.12''" and
        p = "Peer_new '''' '''' ''234''" and p' = "Peer_new '''' '''' ''34''"])
    (simp_all add: Peer_new_def)

lemma successor_list_arrives_witness:
  "\<exists>l' w' b wb.
    exchange (sl_create_request example_env (GetSuccessorList_new 0 (example_peer ''b'') 0) example_member)
      (\<lambda>r. sl_handle_request example_env (GetSuccessorList_new_request 1 r 0) example_member)
      sl_handle_response = Some (l', w', b, wb) \<and>
    aw_value (sl_promise l') = Some (Some [example_peer ''d''])"
proof -
  have "sl_connection (GetSuccessorList_new 0 (example_peer ''b'') 0) = Some (example_peer ''b'')"
    "aw_value (sl_promise (GetSuccessorList_new 0 (example_peer ''b'') 0)) = None"
    by (simp_all add: GetSuccessorList_new_def MessagingBase_new_def MessagingBase.defs
        GetSuccessorList.defs)
  from successor_list_arrives [OF this, of example_env example_member example_env 1 0 example_member]
  show ?thesis by auto
qed

lemma predecessor_list_arrives_witness:
  "\<exists>l' w' b wb.
    exchange (ps_create_request example_env (GetPredAndSuccList_new 0 (example_peer ''b'') 0) example_member)
      (\<lambda>r. ps_handle_request example_env (GetPredAndSuccList_new_request 1 r 0) example_member)
      ps_handle_response = Some (l', w', b, wb) \<and>
    aw_value (ps_promise l') = Some (Some [example_peer ''a'', example_peer ''d''])"
proof -
  have "ps_target (GetPredAndSuccList_new 0 (example_peer ''b'') 0) = Some (example_peer ''b'')"
    "aw_value (ps_promise (GetPredAndSuccList_new 0 (example_peer ''b'') 0)) = None"
    by (simp_all add: GetPredAndSuccList_new_def MessagingBase_new_def MessagingBase.defs
        GetPredAndSuccList.defs)
  from predecessor_list_arrives [OF this, of example_env example_member example_env 1 0 example_member]
  show ?thesis by auto
qed

lemma notify_converges_witness:
  "\<exists>w' p'. notified example_env [example_peer ''aa'', example_peer ''c''] example_member = Inr w' \<and>
    rt_predecessor (w_table w') = Some p' \<and>
    (\<forall>x \<in> set [''a'', ''aa'', ''c'']. \<not> between (peer_id p') x ''b'')"
  using notify_converges [OF example_member_simps(1,2),
      of "[example_peer ''aa'', example_peer ''c'']" example_env]
  by auto

lemma first_notification_unanswered_witness:
  "\<exists>n' w'. no_handle_request example_env
      (Notification_new_request 0 (arrive (example_msg [''a''])) 0) (example_world ''b'' [''d'']) =
      Inr (n', w', []) \<and> mb_state n' = FAILED \<and> \<not> mb_is_done n'"
  using first_notification_unanswered [of "example_world ''b'' [''d'']" "example_msg [''a'']"
      "example_peer ''a''" example_env 0 0]
  by auto

lemma living_predecessor_kept_witness:
  "\<exists>c' w' b wb. exchange (cp_create_request example_env (CheckPredecessor_new 0 0) example_member)
      (\<lambda>r. cp_handle_request example_env (CheckPredecessor_new_request 1 r 0) example_member)
      cp_handle_response = Some (c', w', b, wb) \<and>
    rt_predecessor (w_table w') = Some (example_peer ''a'') \<and> \<not> w_check_predecessor_flag w'"
proof -
  have "cp_has_flag (CheckPredecessor_new 0 0)"
    by (simp add: CheckPredecessor_new_def MessagingBase_new_def MessagingBase.defs
        CheckPredecessor.defs)
  from living_predecessor_kept [OF example_member_simps(2) this, of example_env example_env 1 0
      example_member]
  show ?thesis by blast
qed

lemma dead_predecessor_forgotten_witness:
  "\<exists>c w1 s c' w2. cp_create_request example_env (CheckPredecessor_new 0 (w_now example_member))
      example_member = Inr (c, w1, [s]) \<and>
    check_state cp_handle_failed no_dependencies c
      (w1\<lparr>w_now := w_now example_member + DURATION + 1\<rparr>) = Inr (FAILED, c', w2) \<and>
    rt_predecessor (w_table w2) = None"
  using dead_predecessor_forgotten [OF example_member_simps(2), of example_env 0] by blast

text \<open>The successor \<open>d\<close> of \<open>b\<close> answers that its predecessor is \<open>c\<close>.\<close>

definition example_list_answer :: GetPredAndSuccList where
  "example_list_answer =
     (GetPredAndSuccList_new 1 (example_peer ''d'') 0)\<lparr>mb_is_done := True, mb_state := DONE,
        ps_promise := \<lparr>aw_value = Some (Some [example_peer ''c'', example_peer ''f'']),
          aw_retrieved = False\<rparr>\<rparr>"

definition example_stabilize :: Stabilize where
  "example_stabilize =
     (Stabilize_new 0 0)\<lparr>sb_deps := [(LGetPredAndSuccList example_list_answer, True)]\<rparr>"

lemma stabilize_follows_predecessor_witness:
  "\<exists>s' w' r h. sb_notify example_env example_stabilize example_member = Inr (s', w', [SigH r h]) \<and>
    ro_connection r = ConnPeer (Some (example_peer ''c''))"
proof -
  have "sb_deps example_stabilize = (LGetPredAndSuccList example_list_answer, True) # []"
    "mb_is_done example_list_answer" "mb_state example_list_answer = DONE"
    "ps_promise example_list_answer =
       \<lparr>aw_value = Some (Some (example_peer ''c'' # [example_peer ''f''])), aw_retrieved = False\<rparr>"
    "sb_has_flag example_stabilize" "peer_id (example_peer ''b'') \<noteq> ''''"
    by (simp_all add: example_stabilize_def example_list_answer_def Stabilize_new_def
        MessagingBase_new_def MessagingBase.defs Stabilize.defs)
  from stabilize_follows_predecessor [OF this(1-5) example_member_simps(1) this(6)
      example_member_simps(3), of example_env]
  have "\<exists>s' w' r h m. sb_notify example_env example_stabilize example_member = Inr (s', w', [SigH r h]) \<and>
    (if between ''b'' ''c'' ''d'' then ro_connection r = ConnPeer (Some (example_peer ''c''))
     else ro_connection r = ConnPeer (Some (example_peer ''d'')))"
    by (fastforce split: if_splits)
  then show ?thesis by (simp add: between_def)
qed

lemma join_completes_witness:
  "\<exists>j w j' w' sigs. join_answers example_env [example_msg [''b''], example_msg [''d''],
      example_msg [''f'']] j w = Inr (j', w', sigs) \<and> mb_state j' = DONE \<and>
    rt_successor_list (w_table w') =
      resize succ_list_size Peer_empty [example_peer ''d'', example_peer ''f'']"
proof -
  let ?j = "fst (Join_new 0 ''ip'' ''1'' (example_world ''b'' [''b'']))"
  let ?q = "Query_new 0 ''ip'' ''1'' 0"
  have "jo_deps ?j = [(LQuery ?q, True)]" "qu_promise ?q = Awaitable_new"
    by (simp_all add: Join_new_def new_oid_def split_def MessagingBase_new_def MessagingBase.defs
        Join.defs Query_new_def Query.defs example_world_def)
  from join_completes [OF this, of "example_msg [''b'']" "example_peer ''b''"
      "example_msg [''d'']" "example_peer ''d''" example_env "example_msg [''f'']"
      "example_world ''b'' [''b'']"]
  show ?thesis by fastforce
qed

end
