(* ===== verification/File_Transfer.thy ===== *)
theory File_Transfer
  imports Exchanges
begin

section \<open>A file transfer from end to end\<close>

text \<open>
  The two ends of \<open>get_file.cpp\<close> together. The owner of a file answers the request with the first
  chunk and sends the next one whenever the previous one has been written to the connection; the
  other end opens the file with \<open>create_file\<close>, writes what arrives and hands the file over to
  \<open>finalize_file\<close> when the announced size is reached. A transfer that stopped half way is
  continued: the chunks then start at the offset of the last chunk that was written.
\<close>

subsection \<open>The stream of chunks\<close>

text \<open>What the owner sends when its write callback runs in the states \<open>ws\<close> of its node, one
  after the other.\<close>

fun chunks_sent :: "Env \<Rightarrow> GetFile \<Rightarrow> world list \<Rightarrow> Message list" where
  "chunks_sent env g [] = []"
| "chunks_sent env g (w # ws) =
     (case gf_write_file env False g w of
        Inr (g', w', [Sig r]) \<Rightarrow>
          (case ro_message r of None \<Rightarrow> [] | Some m \<Rightarrow> m # chunks_sent env g' ws)
      | _ \<Rightarrow> [])"

definition answer_stream ::
  "Env \<Rightarrow> oid \<Rightarrow> RequestObject \<Rightarrow> world \<Rightarrow> world list \<Rightarrow> Message list" where
  "answer_stream env i r w ws =
     (case gf_handle_request env (GetFile_new_request i r (w_now w)) w of
        Inr (g', w', [Sig r']) \<Rightarrow>
          (case ro_message r' of None \<Rightarrow> [] | Some m \<Rightarrow> m # chunks_sent env g' ws)
      | _ \<Rightarrow> [])"

text \<open>The other end takes messages until its object is finished.\<close>

fun chunks_taken :: "Env \<Rightarrow> Message list \<Rightarrow> GetFile \<Rightarrow> world \<Rightarrow> (GetFile \<times> world) res" where
  "chunks_taken env [] g w = Inr (g, w)"
| "chunks_taken env (m # ms) g w =
     (if mb_is_done g then Inr (g, w)
      else res_bind (gf_handle_response env (arrive m) g w)
        (\<lambda>(g', w', sigs). chunks_taken env ms g' w'))"

subsection \<open>The sender\<close>

text \<open>A stream that is ready to read \<open>c\<close> from position \<open>p\<close>.\<close>

definition reading :: "byte list \<Rightarrow> nat \<Rightarrow> ifstream \<Rightarrow> bool" where
  "reading c p s \<longleftrightarrow> is_open s \<and> is_content s = c \<and> is_pos s = p \<and> \<not> is_eof s \<and> \<not> is_fail s"

definition chunk_at :: "byte list \<Rightarrow> nat \<Rightarrow> FileChunk" where
  "chunk_at c p =
     (let d = take DEFAULT_BUF_SIZE (drop p c)
      in \<lparr>chunk_size = of_nat (length d), chunk_offset = of_nat p, chunk_data = d\<rparr>)"

text \<open>One turn of the write callback sends the chunk at the stream's position; after a full chunk
  the stream is ready behind it.\<close>

lemma gf_write_file_chunk:
  assumes "reading c p (gf_source g)" "mb_request g = Some (arrive req)"
  shows "\<exists>g' w' r m. gf_write_file env False g w = Inr (g', w', [Sig r]) \<and> ro_message r = Some m \<and>
    msg_file_chunk m = Some (chunk_at c p) \<and> \<not> is_request m \<and>
    get_correlational_id m = get_transaction_id req \<and> mb_request g' = Some (arrive req) \<and>
    (DEFAULT_BUF_SIZE \<le> length c - p \<longrightarrow> reading c (p + DEFAULT_BUF_SIZE) (gf_source g')) \<and>
    (length c - p < DEFAULT_BUF_SIZE \<longrightarrow> is_fail (gf_source g'))"
  using assms
  by (auto simp: gf_write_file_def gf_write_buffer_def reading_def tellg_def is_read_def Let_def
      chunk_at_def FileChunk_new_def get_correlational_id_def get_transaction_id_def min_def split_def generate_response_def
      generate_response_header_def Header_new_corr_def is_request_def set_on_write_handler_def)

lemma chunks_sent_failed: "is_fail (gf_source g) \<Longrightarrow> chunks_sent env g ws = []"
  by (cases ws) (simp_all add: gf_write_file_def)

text \<open>Together the chunks are the rest of the file, and all of them answer the request.\<close>

lemma chunks_sent_data:
  assumes "reading c p (gf_source g)" "mb_request g = Some (arrive req)" "p \<le> length c"
    "(length c - p) div DEFAULT_BUF_SIZE < length ws"
  shows "concat (map (\<lambda>m. chunk_data (the (msg_file_chunk m))) (chunks_sent env g ws)) = drop p c \<and>
    (\<forall>m \<in> set (chunks_sent env g ws). msg_file_chunk m \<noteq> None \<and> \<not> is_request m \<and>
      get_correlational_id m = get_transaction_id req)"
  using assms
proof (induction ws arbitrary: p g)
  case (Cons v ws)
  from gf_write_file_chunk [OF Cons.prems(1,2), of env v] obtain g' v' r m where sent:
    "gf_write_file env False g v = Inr (g', v', [Sig r])" "ro_message r = Some m"
    "msg_file_chunk m = Some (chunk_at c p)" "\<not> is_request m"
    "get_correlational_id m = get_transaction_id req" "mb_request g' = Some (arrive req)"
    "DEFAULT_BUF_SIZE \<le> length c - p \<longrightarrow> reading c (p + DEFAULT_BUF_SIZE) (gf_source g')"
    "length c - p < DEFAULT_BUF_SIZE \<longrightarrow> is_fail (gf_source g')"
    by blast
  have data: "chunk_data (chunk_at c p) = take DEFAULT_BUF_SIZE (drop p c)"
    by (simp add: chunk_at_def Let_def)
  show ?case
  proof (cases "DEFAULT_BUF_SIZE \<le> length c - p")
    case True
    then have "(length c - (p + DEFAULT_BUF_SIZE)) div DEFAULT_BUF_SIZE < length ws"
      using Cons.prems(4) le_div_geq [of DEFAULT_BUF_SIZE "length c - p"]
      by (simp add: DEFAULT_BUF_SIZE_def)
    moreover have "p + DEFAULT_BUF_SIZE \<le> length c" using True Cons.prems(3) by linarith
    ultimately have "concat (map (\<lambda>m. chunk_data (the (msg_file_chunk m))) (chunks_sent env g' ws)) =
        drop (p + DEFAULT_BUF_SIZE) c \<and>
      (\<forall>m \<in> set (chunks_sent env g' ws). msg_file_chunk m \<noteq> None \<and> \<not> is_request m \<and>
        get_correlational_id m = get_transaction_id req)"
      using Cons.IH [OF _ sent(6), of "p + DEFAULT_BUF_SIZE"] sent(7) True by blast
    moreover have "take DEFAULT_BUF_SIZE (drop p c) @ drop (p + DEFAULT_BUF_SIZE) c = drop p c"
      by (metis add.commute append_take_drop_id drop_drop)
    ultimately show ?thesis using sent(1-5) by (simp add: data)
  next
    case False
    then show ?thesis using sent(1-5,8) by (simp add: data chunks_sent_failed)
  qed
qed simp

subsection \<open>The receiver\<close>

text \<open>The object and its storage when the first \<open>p\<close> bytes of \<open>c\<close> are in the file, with what an
  earlier attempt left behind them.\<close>

definition receiving ::
  "Env \<Rightarrow> FileInfo \<Rightarrow> byte list \<Rightarrow> byte list \<Rightarrow> nat \<Rightarrow> GetFile \<Rightarrow> StaticStorage \<Rightarrow> bool" where
  "receiving env fi c old p g st \<longleftrightarrow>
     \<not> mb_is_done g \<and> gf_file_info g = Some fi \<and> gf_file_size g = of_nat (length c) \<and>
     sha256sum fi = sha256_from_file (en_digest env) c \<and>
     (\<exists>ow. gf_output g = Some ow \<and> ow_good ow \<and> ow_path ow = st_path st @ file_name fi) \<and>
     st_fs st (st_path st @ file_name fi) = Some (take p c @ drop p old) \<and>
     st_can_open st (st_path st @ file_name fi) \<and> \<not> exists_internal (file_name fi) st \<and>
     is_blocked_internal (file_name fi) st"

text \<open>What a transfer ends with.\<close>

definition received :: "FileInfo \<Rightarrow> byte list \<Rightarrow> GetFile \<Rightarrow> StaticStorage \<Rightarrow> bool" where
  "received fi c g st \<longleftrightarrow>
     mb_state g = DONE \<and> mb_is_done g \<and> st_fs st (st_path st @ file_name fi) = Some c \<and>
     FileInfo_sum (file_name fi) (sha256sum fi) (of_nat (length c)) \<in> set (st_files st) \<and>
     \<not> is_blocked (file_name fi) st \<and> st_db st (file_name fi) = None"

lemma take_min_drop [simp]: "take (min (length c - p) n) (drop p c) = take n (drop p c)"
  by (simp add: min_def)

lemma write_at_next:
  assumes "p \<le> length c" "length old \<le> length c"
    and d: "d = take n (drop p c)"
  shows "write_at p d (take p c @ drop p old) =
    take (p + length d) c @ drop (p + length d) old"
proof (cases "d = []")
  case False
  have "take p c @ d = take (p + length d) c"
    unfolding d using assms(1) by (simp add: take_add)
  moreover have "resize p 0 (take p c @ drop p old) = take p c"
    using assms(1) by (simp add: resize_def)
  moreover have "drop (p + length d) (take p c @ drop p old) = drop (p + length d) old"
    using assms(1) by (simp add: add.commute)
  ultimately show ?thesis using False by (simp add: write_at_def flip: append_assoc)
qed (simp add: write_at_def)

lemma sint_of_nat: "n < 2 ^ 63 \<Longrightarrow> sint (of_nat n :: u64) = int n"
  by (simp add: signed_of_nat signed_take_bit_int_eq_self)

lemma unat_of_nat_small: "n < 2 ^ 63 \<Longrightarrow> unat (of_nat n :: u64) = n"
  by (simp add: unat_of_nat take_bit_nat_eq_self)

text \<open>A chunk that arrives moves the receiver on by its length, or completes the file.\<close>

lemma gf_handle_response_chunk:
  assumes r: "receiving env fi c old p g (w_storage w)"
    and m: "msg_file_chunk m = Some (chunk_at c p)" "\<not> is_request m"
    and p: "p \<le> length c" "length old \<le> length c" "length c < 2 ^ 63"
  shows "\<exists>g' w' sigs. gf_handle_response env (arrive m) g w = Inr (g', w', sigs) \<and>
    st_path (w_storage w') = st_path (w_storage w) \<and>
    (if p + DEFAULT_BUF_SIZE < length c
     then receiving env fi c old (p + DEFAULT_BUF_SIZE) g' (w_storage w')
     else received fi c g' (w_storage w'))"
proof -
  define d where "d = take DEFAULT_BUF_SIZE (drop p c)"
  let ?st = "w_storage w"
  let ?path = "st_path ?st @ file_name fi"
  obtain ow where ow: "gf_output g = Some ow" "ow_good ow" "ow_path ow = ?path"
    using r by (auto simp: receiving_def)
  have len: "length d < 2 ^ 63" "p < 2 ^ 63" using p by (simp_all add: d_def)
  let ?ow = "ow\<lparr>ow_pos := p + length d\<rparr>" and ?st' = "snd (ow_write_at d (of_nat p) ow ?st)"
  have chunk: "ow_write (chunk_at c p) ow ?st = Inr (ow_write_at d (of_nat p) ow ?st)"
    using len(1) by (simp add: ow_write_def chunk_at_def Let_def unat_of_nat_small flip: d_def)
  have stream: "fst (ow_write_at d (of_nat p) ow ?st) = ?ow"
    using ow(2) len(2)
    by (simp add: ow_write_at_def Let_def seekp_def sint_of_nat unat_of_nat_small)
  have fs: "st_fs ?st' ?path = Some (take (p + length d) c @ drop (p + length d) old)"
    using ow(2,3) len(2) r p write_at_next [OF p(1,2) d_def]
    by (auto simp: ow_write_at_def Let_def seekp_def sint_of_nat unat_of_nat_small receiving_def
        split: option.split)
  note step = gf_handle_response_def chunk stream ow(1,2) m tellp_def sint_of_nat [OF p(3)]
  show ?thesis
  proof (cases "p + DEFAULT_BUF_SIZE < length c")
    case True
    then have "length d = DEFAULT_BUF_SIZE" by (simp add: d_def)
    then show ?thesis
      using True r fs ow
      by (simp add: step Let_def split_def receiving_def exists_internal_def is_blocked_internal_def)
  next
    case False
    then have "take (p + length d) c @ drop (p + length d) old = c" and q: "p + length d = length c"
      using p by (simp_all add: d_def min_def)
    with fs have "st_fs ?st' ?path = Some c" by simp
    with r have "finalize_file (en_digest env) fi ?st' =
      (True, ?st'\<lparr>st_blocked := filter (\<lambda>(n, tok, b). n \<noteq> file_name fi) (st_blocked ?st'),
        st_files := st_files ?st' @ [FileInfo_sum (file_name fi) (sha256sum fi) (of_nat (length c))],
        st_db := (st_db ?st')(file_name fi := None)\<rparr>)"
      by (simp add: finalize_file_def Let_def open_read_def receiving_def exists_internal_def
          is_blocked_internal_def)
    then show ?thesis
      using False r q ow \<open>st_fs ?st' ?path = Some c\<close>
      by (simp add: step Let_def split_def receiving_def received_def finish_defs is_blocked_def
          is_blocked_internal_def list_ex_iff)
  qed
qed

subsection \<open>Both ends\<close>

lemma chunks_taken_done [simp]: "mb_is_done g \<Longrightarrow> chunks_taken env ms g w = Inr (g, w)"
  by (cases ms) simp_all

lemma chunks_arrive:
  assumes "reading c p (gf_source s)" "mb_request s = Some (arrive req)"
    "receiving env fi c old p g (w_storage w)"
    "p \<le> length c" "length old \<le> length c" "length c < 2 ^ 63"
    "(length c - p) div DEFAULT_BUF_SIZE < length ws"
  shows "\<exists>g' w'. chunks_taken env (chunks_sent env' s ws) g w = Inr (g', w') \<and>
    received fi c g' (w_storage w') \<and> st_path (w_storage w') = st_path (w_storage w)"
  using assms
proof (induction ws arbitrary: p s g w)
  case (Cons v ws)
  from gf_write_file_chunk [OF Cons.prems(1,2), of env' v] obtain s' v' r m where sent:
    "gf_write_file env' False s v = Inr (s', v', [Sig r])" "ro_message r = Some m"
    "msg_file_chunk m = Some (chunk_at c p)" "\<not> is_request m" "mb_request s' = Some (arrive req)"
    "DEFAULT_BUF_SIZE \<le> length c - p \<longrightarrow> reading c (p + DEFAULT_BUF_SIZE) (gf_source s')"
    by blast
  from gf_handle_response_chunk [OF Cons.prems(3) sent(3,4) Cons.prems(4-6)]
  obtain g' w' sigs where taken:
    "gf_handle_response env (arrive m) g w = Inr (g', w', sigs)"
    "st_path (w_storage w') = st_path (w_storage w)"
    "if p + DEFAULT_BUF_SIZE < length c
     then receiving env fi c old (p + DEFAULT_BUF_SIZE) g' (w_storage w')
     else received fi c g' (w_storage w')" by blast
  have start: "chunks_taken env (chunks_sent env' s (v # ws)) g w =
      chunks_taken env (chunks_sent env' s' ws) g' w'"
    using Cons.prems(3) by (simp add: sent(1,2) taken(1) receiving_def)
  show ?case
  proof (cases "p + DEFAULT_BUF_SIZE < length c")
    case True
    then have "(length c - (p + DEFAULT_BUF_SIZE)) div DEFAULT_BUF_SIZE < length ws"
      using Cons.prems(7) le_div_geq [of DEFAULT_BUF_SIZE "length c - p"]
      by (simp add: DEFAULT_BUF_SIZE_def)
    moreover have "reading c (p + DEFAULT_BUF_SIZE) (gf_source s')" using sent(6) True by linarith
    moreover have "receiving env fi c old (p + DEFAULT_BUF_SIZE) g' (w_storage w')"
      using taken(3) True by simp
    moreover have "p + DEFAULT_BUF_SIZE \<le> length c" using True by simp
    ultimately show ?thesis
      unfolding start using Cons.IH [OF _ sent(5) _ _ Cons.prems(5,6)] taken(2) by metis
  next
    case False
    then have "received fi c g' (w_storage w')" using taken(3) by simp
    then show ?thesis unfolding start using taken(2) by (auto simp: received_def)
  qed
qed simp

text \<open>The first message is the one that \<open>handle_request\<close> sends.\<close>

lemma answer_stream_eq:
  assumes "ro_message r = Some req" "msg_files req = fi # rest" "file_info_exists fi (w_storage w)"
    "read_file fi (w_storage w) = Some c"
  shows "answer_stream env i r w ws =
    chunks_sent env ((GetFile_new_request i r (w_now w))
      \<lparr>gf_source := seekg_beg (file_offset fi) (snd (tellg (seekg_end (ifstream_opened c))))\<rparr>) (w # ws)"
  using assms
  by (simp add: answer_stream_def gf_handle_request_def GetFile_new_defs get_message_def split_def)

lemma offset_irrelevant [simp]:
  "file_info_exists (fi\<lparr>file_offset := off\<rparr>) st = file_info_exists fi st"
  "read_file (fi\<lparr>file_offset := off\<rparr>) st = read_file fi st"
  by (auto simp: file_info_exists_def read_file_def)

lemma reading_from:
  assumes "0 \<le> sint off"
  shows "reading c (unat off) (seekg_beg off (snd (tellg (seekg_end (ifstream_opened c)))))"
  using assms
  by (simp add: reading_def seekg_beg_def tellg_def seekg_end_def ifstream_opened_def Let_def)

text \<open>What the receiver starts from: nothing, or the bytes and the row of an earlier attempt that
  got the same content.\<close>

definition startable_transfer :: "FileInfo \<Rightarrow> byte list \<Rightarrow> StaticStorage \<Rightarrow> bool" where
  "startable_transfer fi c st \<longleftrightarrow>
     \<not> exists_internal (file_name fi) st \<and> \<not> is_blocked_internal (file_name fi) st \<and>
     st_can_open st (st_path st @ file_name fi) \<and>
     (case (st_db st (file_name fi), st_fs st (st_path st @ file_name fi)) of
        (None, _) \<Rightarrow> file_offset fi = 0
      | (Some row, Some old) \<Rightarrow>
          length old \<le> length c \<and> unat (row_bytes_written row) \<le> length old \<and>
          take (unat (row_bytes_written row)) old = take (unat (row_bytes_written row)) c
      | (Some row, None) \<Rightarrow> False)"

lemma sint_nonneg: "unat (off :: u64) < 2 ^ 63 \<Longrightarrow> 0 \<le> sint off"
  using sint_of_nat [of "unat off"] by simp

lemma create_file_starts:
  assumes "startable_transfer fi c st" "length c < 2 ^ 63"
  shows "\<exists>ow st' off old. create_file fi st = ((Some ow, fi\<lparr>file_offset := off\<rparr>), st') \<and>
    ow_good ow \<and> ow_path ow = st_path st @ file_name fi \<and>
    st_fs st' (st_path st @ file_name fi) = Some (take (unat off) c @ drop (unat off) old) \<and>
    0 \<le> sint off \<and> unat off \<le> length c \<and> length old \<le> length c \<and> st_path st' = st_path st \<and>
    st_can_open st' = st_can_open st \<and> \<not> exists_internal (file_name fi) st' \<and>
    is_blocked_internal (file_name fi) st'"
proof (cases "st_db st (file_name fi)")
  case None
  then have "fi\<lparr>file_offset := 0\<rparr> = fi"
    using assms(1) by (cases fi) (simp add: startable_transfer_def)
  then show ?thesis
    using None assms(1)
    by (intro exI [where x = "0 :: u64"] exI [where x = "[] :: byte list"] exI)
      (auto simp: startable_transfer_def create_file_def Let_def seekp_def exists_internal_def
        is_blocked_internal_def)
next
  case (Some row)
  then obtain old where old: "st_fs st (st_path st @ file_name fi) = Some old"
    "length old \<le> length c" "unat (row_bytes_written row) \<le> length old"
    "take (unat (row_bytes_written row)) old = take (unat (row_bytes_written row)) c"
    using assms(1) by (auto simp: startable_transfer_def split: option.splits)
  moreover have "0 \<le> sint (row_bytes_written row)"
    using old(2,3) assms(2) by (intro sint_nonneg) linarith
  moreover have "take (unat (row_bytes_written row)) c @ drop (unat (row_bytes_written row)) old = old"
    by (simp flip: old(4))
  ultimately show ?thesis
    using Some assms(1)
    by (intro exI [where x = "row_bytes_written row"] exI [where x = old] exI)
      (auto simp: startable_transfer_def create_file_def Let_def seekp_def exists_internal_def
        is_blocked_internal_def)
qed

lemma gf_create_request_starts:
  assumes "gf_target g = Some t" "gf_file_info g = Some fi" "\<not> mb_is_done g"
    "startable_transfer fi c (w_storage w)" "length c < 2 ^ 63" "file_size fi = of_nat (length c)"
    "sha256sum fi = sha256_from_file (en_digest env) c"
  shows "\<exists>g1 w1 r h m off old.
    gf_create_request env g w = Inr (g1, w1, [SigH r h]) \<and> ro_message r = Some m \<and>
    ro_connection r = ConnPeer (Some t) \<and> ho_correlation_id h = get_transaction_id m \<and>
    msg_files m = [fi\<lparr>file_offset := off\<rparr>] \<and> 0 \<le> sint off \<and> unat off \<le> length c \<and>
    length old \<le> length c \<and> st_path (w_storage w1) = st_path (w_storage w) \<and>
    receiving env (fi\<lparr>file_offset := off\<rparr>) c old (unat off) g1 (w_storage w1)"
proof -
  let ?w = "w\<lparr>w_counter := next_counter (w_counter w)\<rparr>"
  from create_file_starts [OF assms(4,5)] obtain ow st' off old where st':
    "create_file fi (w_storage w) = ((Some ow, fi\<lparr>file_offset := off\<rparr>), st')"
    "ow_good ow" "ow_path ow = st_path (w_storage w) @ file_name fi"
    "st_fs st' (st_path (w_storage w) @ file_name fi) = Some (take (unat off) c @ drop (unat off) old)"
    "0 \<le> sint off" "unat off \<le> length c" "length old \<le> length c"
    "st_path st' = st_path (w_storage w)" "st_can_open st' = st_can_open (w_storage w)"
    "\<not> exists_internal (file_name fi) st'" "is_blocked_internal (file_name fi) st'"
    by blast
  moreover have "st_can_open st' (st_path (w_storage w) @ file_name fi)"
    using st'(9) assms(4) by (simp add: startable_transfer_def)
  ultimately show ?thesis
    using assms(1-3,6,7)
    by (intro exI [where x = off] exI [where x = old] exI)
      (auto simp: gf_create_request_def Let_def split_def send_with_handler_eq receiving_def
        add_file_def Message_empty_def get_transaction_id_def)
qed

text \<open>What the owner of a file sends after a request is the file from the requested offset on, in
  order and in pieces of at most 1024 bytes, however its write callbacks interleave with the rest of
  the node; every piece answers the request, so that the handler of the other end finds it.\<close>

lemma sender_streams_file:
  assumes "msg_files req = fi # rest" "file_info_exists fi (w_storage v)"
    "read_file fi (w_storage v) = Some c" "0 \<le> sint (file_offset fi)"
    "unat (file_offset fi) \<le> length c"
    "(length c - unat (file_offset fi)) div DEFAULT_BUF_SIZE \<le> length vs"
  shows "concat (map (\<lambda>m. chunk_data (the (msg_file_chunk m)))
      (answer_stream env i (arrive req) v vs)) = drop (unat (file_offset fi)) c \<and>
    (\<forall>m \<in> set (answer_stream env i (arrive req) v vs). msg_file_chunk m \<noteq> None \<and>
      \<not> is_request m \<and> get_correlational_id m = get_transaction_id req)"
proof -
  have "(length c - unat (file_offset fi)) div DEFAULT_BUF_SIZE < length (v # vs)"
    using assms(6) by simp
  from chunks_sent_data [OF _ _ assms(5) this, of
      "(GetFile_new_request i (arrive req) (w_now v))\<lparr>gf_source :=
        seekg_beg (file_offset fi) (snd (tellg (seekg_end (ifstream_opened c))))\<rparr>" req env]
  show ?thesis
    unfolding answer_stream_eq [OF arrive_simps(2) assms(1-3)]
    using reading_from [OF assms(4)] by (simp add: GetFile_new_defs)
qed

text \<open>C9. A transfer ends with the file: when the owner has the announced content, the object that
  asked for it ends DONE, the storage holds exactly this content, the file is listed with its
  checksum and size, and nothing of the transfer is left behind; the same holds for a transfer that
  resumes an earlier attempt that got a part of the same content.\<close>

theorem transfer_completes:
  assumes "gf_target g = Some t" "gf_file_info g = Some fi" "\<not> mb_is_done g"
    "startable_transfer fi c (w_storage w)" "length c < 2 ^ 63" "file_size fi = of_nat (length c)"
    "sha256sum fi = sha256_from_file (en_digest env) c"
    "file_info_exists fi (w_storage v)" "read_file fi (w_storage v) = Some c"
    "length c div DEFAULT_BUF_SIZE \<le> length vs"
  shows "\<exists>g1 w1 r h m g2 w2. gf_create_request env g w = Inr (g1, w1, [SigH r h]) \<and>
    ro_message r = Some m \<and>
    chunks_taken env (answer_stream env' i (arrive m) v vs) g1 w1 = Inr (g2, w2) \<and>
    received fi c g2 (w_storage w2)"
proof -
  from gf_create_request_starts [OF assms(1-7)] obtain g1 w1 r h m off old where 1:
    "gf_create_request env g w = Inr (g1, w1, [SigH r h])" "ro_message r = Some m"
    "msg_files m = [fi\<lparr>file_offset := off\<rparr>]" "0 \<le> sint off" "unat off \<le> length c"
    "length old \<le> length c"
    "receiving env (fi\<lparr>file_offset := off\<rparr>) c old (unat off) g1 (w_storage w1)" by blast
  let ?s = "(GetFile_new_request i (arrive m) (w_now v))\<lparr>gf_source :=
    seekg_beg off (snd (tellg (seekg_end (ifstream_opened c))))\<rparr>"
  have stream: "answer_stream env' i (arrive m) v vs = chunks_sent env' ?s (v # vs)"
    using answer_stream_eq [OF arrive_simps(2) 1(3), of v c env' i vs] assms(8,9)
    by (simp del: chunks_sent.simps)
  have "(length c - unat off) div DEFAULT_BUF_SIZE < length (v # vs)"
    using assms(10) div_le_mono [of "length c - unat off" "length c" DEFAULT_BUF_SIZE] by simp
  from chunks_arrive [OF _ _ 1(7,5,6) assms(5) this, of ?s m env'] obtain g2 w2 where
    "chunks_taken env (answer_stream env' i (arrive m) v vs) g1 w1 = Inr (g2, w2)"
    "received (fi\<lparr>file_offset := off\<rparr>) c g2 (w_storage w2)"
    unfolding stream using reading_from [OF 1(4)] by (auto simp: GetFile_new_defs)
  then show ?thesis using 1(1,2) by (auto simp: received_def)
qed

subsection \<open>What goes wrong\<close>

text \<open>C36. After a failed write the sender's object is finished as failed, but the callback goes on: it
  reads the next chunk and sends it as well.\<close>

theorem failed_write_sends_on:
  assumes "reading c p (gf_source g)" "mb_request g = Some (arrive req)"
  shows "\<exists>g' w' r m. gf_write_file env True g w = Inr (g', w', [SigNotify, Sig r]) \<and>
    mb_state g' = FAILED \<and> mb_is_done g' \<and> ro_message r = Some m \<and>
    msg_file_chunk m = Some (chunk_at c p)"
  using assms
  by (auto simp: gf_write_file_def gf_write_buffer_def reading_def tellg_def is_read_def Let_def
      chunk_at_def FileChunk_new_def min_def split_def set_on_write_handler_def)

text \<open>C35. A chunk that arrives for a finished transfer is still written: the content of the shared file
  changes while the list keeps the old checksum, and the state goes from DONE to FAILED.\<close>

theorem late_chunk_overwrites:
  assumes "received fi c g (w_storage w)" "gf_file_info g = Some fi" "gf_file_size g = of_nat (length c)"
    "gf_output g = Some ow" "ow_good ow" "ow_path ow = st_path (w_storage w) @ file_name fi"
    "\<not> is_request m"
    "msg_file_chunk m = Some (FileChunk_new d (length d) (of_nat p))"
    "length c \<le> p + length d" "length d < 2 ^ 63" "p < 2 ^ 63" "length c < 2 ^ 63"
  shows "\<exists>g' w'. gf_handle_response env (arrive m) g w = Inr (g', w', [SigNotify]) \<and>
    mb_state g' = FAILED \<and> st_files (w_storage w') = st_files (w_storage w) \<and>
    st_fs (w_storage w') (st_path (w_storage w) @ file_name fi) = Some (write_at p d c)"
proof -
  let ?st = "w_storage w"
  have "ow_write (FileChunk_new d (length d) (of_nat p)) ow ?st = Inr (ow_write_at d (of_nat p) ow ?st)"
    using assms(10) by (simp add: ow_write_def FileChunk_new_def unat_of_nat_small)
  moreover have "fst (ow_write_at d (of_nat p) ow ?st) = ow\<lparr>ow_pos := p + length d\<rparr>"
    using assms(5,11) by (simp add: ow_write_at_def Let_def seekp_def sint_of_nat unat_of_nat_small)
  moreover have "st_fs (snd (ow_write_at d (of_nat p) ow ?st)) (st_path ?st @ file_name fi) =
      Some (write_at p d c)"
    using assms(1,5,6,11)
    by (auto simp: ow_write_at_def Let_def seekp_def sint_of_nat unat_of_nat_small received_def
        split: option.split)
  moreover have "exists_internal (file_name fi) ?st"
    using assms(1) by (auto simp: received_def exists_iff FileInfo_sum_def intro: rev_image_eqI)
  ultimately show ?thesis
    using assms
    by (simp add: gf_handle_response_def Let_def split_def tellp_def sint_of_nat finish_defs
        finalize_file_def exists_internal_def)
qed

subsection \<open>Examples\<close>

text \<open>A file of three bytes; one of them arrived in an earlier attempt.\<close>

definition example_file :: FileInfo where
  "example_file = FileInfo_sum ''f'' '''' 3"

definition example_half :: StaticStorage where
  "example_half = example_fresh
     \<lparr>st_db := [''f'' \<mapsto> \<lparr>row_sha256sum = '''', row_file_size = 3, row_bytes_written = 1\<rparr>],
      st_fs := [storage_path_of ''i'' @ ''f'' \<mapsto> [7]]\<rparr>"

definition example_shared :: StaticStorage where
  "example_shared = example_fresh
     \<lparr>st_files := [example_file], st_fs := [storage_path_of ''i'' @ ''f'' \<mapsto> [7, 8, 9]]\<rparr>"

lemmas example_transfer_defs =
  example_file_def example_half_def example_shared_def example_fresh_def StaticStorage_new_def
  FileInfo_sum_def

lemma example_transfer:
  "startable_transfer example_file [7, 8, 9] example_half"
  "file_info_exists example_file example_shared" "read_file example_file example_shared = Some [7, 8, 9]"
  by (simp_all add: example_transfer_defs startable_transfer_def exists_internal_def
      is_blocked_internal_def file_info_exists_def read_file_def file_exists_def open_read_def)

lemma transfer_completes_witness:
  "\<exists>g1 w1 r h m g2 w2.
    gf_create_request example_env (GetFile_new 0 (example_peer ''b'') example_file 0)
      (example_member\<lparr>w_storage := example_half\<rparr>) = Inr (g1, w1, [SigH r h]) \<and>
    ro_message r = Some m \<and>
    chunks_taken example_env (answer_stream example_env 1 (arrive m)
      (example_member\<lparr>w_storage := example_shared\<rparr>) []) g1 w1 = Inr (g2, w2) \<and>
    received example_file [7, 8, 9] g2 (w_storage w2)"
  using transfer_completes [of "GetFile_new 0 (example_peer ''b'') example_file 0"
      "example_peer ''b''" example_file "[7, 8, 9]" "example_member\<lparr>w_storage := example_half\<rparr>"
      example_env "example_member\<lparr>w_storage := example_shared\<rparr>" "[]" example_env 1]
    example_transfer
  by (simp add: GetFile_new_defs DEFAULT_BUF_SIZE_def example_file_def FileInfo_sum_def
      example_env_def sha256_from_file_def)

lemma sender_streams_file_witness:
  "concat (map (\<lambda>m. chunk_data (the (msg_file_chunk m)))
    (answer_stream example_env 1 (arrive (add_file example_file Message_empty))
      (example_member\<lparr>w_storage := example_shared\<rparr>) [])) = [7, 8, 9]"
  using sender_streams_file [of "add_file example_file Message_empty" example_file "[]"
      "example_member\<lparr>w_storage := example_shared\<rparr>" "[7, 8, 9]" "[]" example_env 1]
    example_transfer(2,3)
  by (simp add: add_file_def Message_empty_def DEFAULT_BUF_SIZE_def example_file_def FileInfo_sum_def)

definition example_sender :: GetFile where
  "example_sender = (GetFile_new_request 1 (arrive Message_empty) 0)
     \<lparr>gf_source := (ifstream_opened [7, 8, 9])\<lparr>is_pos := 0\<rparr>\<rparr>"

lemma failed_write_sends_on_witness:
  "\<exists>g' w' r. gf_write_file example_env True example_sender example_member =
    Inr (g', w', [SigNotify, Sig r]) \<and> mb_state g' = FAILED"
  using failed_write_sends_on [of "[7, 8, 9]" 0 example_sender Message_empty example_env example_member]
  by (auto simp: example_sender_def reading_def ifstream_opened_def GetFile_new_defs)

definition example_receiver :: GetFile where
  "example_receiver = (GetFile_new 0 (example_peer ''b'') example_file 0)
     \<lparr>gf_file_size := 3, mb_state := DONE, mb_is_done := True,
      gf_output := Some \<lparr>ow_path = storage_path_of ''i'' @ ''f'', ow_good = True, ow_pos = 3,
        ow_file_info = example_file, ow_token = Some 0\<rparr>\<rparr>"

lemma late_chunk_overwrites_witness:
  "\<exists>g' w'. gf_handle_response example_env
      (arrive (Message_empty\<lparr>msg_header := Header_new False 0 0 '''' '''' '''' '''',
        msg_file_chunk := Some (FileChunk_new [0] 1 2)\<rparr>))
      example_receiver (example_member\<lparr>w_storage := example_shared\<rparr>) = Inr (g', w', [SigNotify]) \<and>
    st_fs (w_storage w') (storage_path_of ''i'' @ ''f'') = Some [7, 8, 0]"
proof -
  let ?ow = "\<lparr>ow_path = storage_path_of ''i'' @ ''f'', ow_good = True, ow_pos = 3,
    ow_file_info = example_file, ow_token = Some 0\<rparr>"
  have "received example_file [7, 8, 9] example_receiver example_shared"
    by (simp add: received_def example_receiver_def example_transfer_defs GetFile_new_defs
        is_blocked_def is_blocked_internal_def)
  from late_chunk_overwrites [of example_file "[7, 8, 9]" example_receiver
      "example_member\<lparr>w_storage := example_shared\<rparr>" ?ow
      "Message_empty\<lparr>msg_header := Header_new False 0 0 '''' '''' '''' '''',
        msg_file_chunk := Some (FileChunk_new [0] 1 2)\<rparr>" "[0]" 2 example_env] this
  show ?thesis
    by (auto simp: example_receiver_def example_transfer_defs GetFile_new_defs is_request_def
        Header_new_def Message_empty_def write_at_def resize_def)
qed

end
