(* ===== verification/Lifecycle.thy ===== *)
theory Lifecycle
  imports Node_Reachable Framing
begin

section \<open>Starting and stopping\<close>

text \<open>
  \<open>peerpaste.hpp\<close>, \<open>server.hpp\<close>, \<open>thread_pool.cpp\<close>, \<open>main.cpp\<close> and the life cycle of the message
  handler and the dispatcher: what is constructed, which threads are started and joined, when the
  server accepts, and how the program ends. The bodies of the threads are the steps of
  \<open>Node_Steps\<close>; here a thread is only whether it can still be joined, and a loop ends when the
  flag it looks at is cleared.
\<close>

subsection \<open>Outcomes of a call\<close>

datatype lc_error =
    NotJoinable      \<comment> \<open>\<open>join\<close> of a thread that was joined already: \<open>std::system_error\<close>\<close>
  | Terminated       \<comment> \<open>a joinable thread is destroyed: \<open>std::terminate\<close>\<close>
  | NotInitialised   \<comment> \<open>a null pointer is dereferenced\<close>
  | AcceptorFailed   \<comment> \<open>\<open>open\<close> or \<open>bind\<close> of the acceptor throws\<close>
  | OutOfRange       \<comment> \<open>\<open>vector::at\<close> throws\<close>
  | NodeFailed crash

datatype 'a outcome =
    Returns 'a
  | WaitsForever
  | Throws lc_error

fun outcome_bind :: "'a outcome \<Rightarrow> ('a \<Rightarrow> 'b outcome) \<Rightarrow> 'b outcome" where
  "outcome_bind (Returns x) f = f x"
| "outcome_bind WaitsForever f = WaitsForever"
| "outcome_bind (Throws e) f = Throws e"

definition the_or_throw :: "lc_error \<Rightarrow> 'a option \<Rightarrow> 'a outcome" where
  "the_or_throw e x = (case x of None \<Rightarrow> Throws e | Some y \<Rightarrow> Returns y)"

text \<open>Joining the threads of a vector one after the other; \<open>over\<close> says whether their loops end. A
  thread that was joined is no longer joinable.\<close>

fun join_all :: "bool \<Rightarrow> bool list \<Rightarrow> bool list outcome" where
  "join_all over [] = Returns []"
| "join_all over (joinable # ts) =
     (if \<not> joinable then Throws NotJoinable
      else if \<not> over then WaitsForever
      else outcome_bind (join_all over ts) (\<lambda>ts'. Returns (False # ts')))"

lemma join_all_over [simp]:
  "join_all True ts = (if list_all id ts then Returns (replicate (length ts) False) else Throws NotJoinable)"
  by (induction ts) auto

lemma join_all_waits: "ts \<noteq> [] \<Longrightarrow> hd ts \<Longrightarrow> join_all False ts = WaitsForever"
  by (cases ts) simp_all

subsection \<open>The threads of the message handler\<close>

record handler_threads =
  ht_running :: bool
  ht_threads :: "bool list"

definition handler_threads_new :: handler_threads where
  "handler_threads_new = \<lparr>ht_running = True, ht_threads = []\<rparr>"

definition handler_run :: "handler_threads \<Rightarrow> handler_threads" where
  "handler_run h = h\<lparr>ht_threads := ht_threads h @ [True, True]\<rparr>"

definition handler_stop :: "handler_threads \<Rightarrow> handler_threads outcome" where
  "handler_stop h =
     (let h1 = h\<lparr>ht_running := False\<rparr> in
      outcome_bind (join_all (\<not> ht_running h1) (ht_threads h1))
        (\<lambda>ts. Returns (h1\<lparr>ht_threads := ts\<rparr>)))"

subsection \<open>The threads of the dispatcher\<close>

text \<open>The threads of \<open>asio_pool_\<close> run the \<open>io_context\<close>, which returns when it is stopped or has no
  work; \<open>io_idle\<close> stands for the second.\<close>

record MessageDispatcher =
  di_run :: bool
  di_io_stopped :: bool
  di_threads :: "bool list"
  di_asio_pool :: "bool list"

definition MessageDispatcher_new :: MessageDispatcher where
  "MessageDispatcher_new =
     \<lparr>di_run = True, di_io_stopped = False, di_threads = [], di_asio_pool = []\<rparr>"

definition dispatcher_run :: "MessageDispatcher \<Rightarrow> MessageDispatcher" where
  "dispatcher_run d =
     d\<lparr>di_threads := di_threads d @ [True] @ [True],
       di_asio_pool := di_asio_pool d @ replicate 4 True\<rparr>"

definition dispatcher_stop :: "MessageDispatcher \<Rightarrow> MessageDispatcher outcome" where
  "dispatcher_stop d =
     (let d1 = d\<lparr>di_run := False, di_io_stopped := True\<rparr> in
      outcome_bind (join_all (\<not> di_run d1) (di_threads d1)) (\<lambda>ts.
      outcome_bind (join_all (di_io_stopped d1) (di_asio_pool d1)) (\<lambda>as.
      Returns (d1\<lparr>di_threads := ts, di_asio_pool := as\<rparr>))))"

definition dispatcher_join :: "bool \<Rightarrow> MessageDispatcher \<Rightarrow> MessageDispatcher outcome" where
  "dispatcher_join io_idle d =
     outcome_bind (join_all (\<not> di_run d) (di_threads d)) (\<lambda>ts.
     outcome_bind (join_all (di_io_stopped d \<or> io_idle) (di_asio_pool d)) (\<lambda>as.
     Returns (d\<lparr>di_threads := ts, di_asio_pool := as\<rparr>)))"

definition send_routing_information :: "MessageDispatcher \<Rightarrow> MessageDispatcher" where
  "send_routing_information d = d\<lparr>di_threads := di_threads d @ [True]\<rparr>"

definition dispatcher_joinable :: "MessageDispatcher \<Rightarrow> bool" where
  "dispatcher_joinable d \<longleftrightarrow> True \<in> set (di_threads d) \<union> set (di_asio_pool d)"

subsection \<open>The server\<close>

text \<open>\<open>sv_pending\<close> counts the \<open>async_accept\<close> operations under way, \<open>sv_sessions\<close> are the accepted
  sessions. \<open>bindable\<close> says which ports the system gives.\<close>

record Server =
  sv_thread_count :: int
  sv_port :: int
  sv_open :: bool
  sv_listening :: "16 word option"
  sv_pending :: nat
  sv_sessions :: "session list"

definition Server_new :: "int \<Rightarrow> int \<Rightarrow> Server" where
  "Server_new thread_count port =
     \<lparr>sv_thread_count = thread_count, sv_port = port, sv_open = False, sv_listening = None,
      sv_pending = 0, sv_sessions = []\<rparr>"

definition start_listening :: "(16 word \<Rightarrow> bool) \<Rightarrow> 16 word \<Rightarrow> Server \<Rightarrow> Server outcome" where
  "start_listening bindable port sv =
     (if sv_open sv then Throws AcceptorFailed
      else if \<not> bindable port then Throws AcceptorFailed
      else Returns (sv\<lparr>sv_open := True, sv_listening := Some port\<rparr>))"

definition accept_connections :: "Server \<Rightarrow> Server" where
  "accept_connections sv = sv\<lparr>sv_pending := Suc (sv_pending sv)\<rparr>"

definition server_run :: "(16 word \<Rightarrow> bool) \<Rightarrow> Server \<Rightarrow> Server outcome" where
  "server_run bindable sv =
     outcome_bind (start_listening bindable (word_of_int (sv_port sv)) sv)
       (\<lambda>sv1. Returns (accept_connections sv1))"

text \<open>The completion of an accept: an error, or a closed acceptor, does not start another one.\<close>

definition handle_new_connection :: "bool \<Rightarrow> Server \<Rightarrow> Server" where
  "handle_new_connection ec sv =
     (let sv1 = sv\<lparr>sv_pending := sv_pending sv - 1\<rparr> in
      if ec then sv1
      else if \<not> sv_open sv1 then sv1
      else sv1\<lparr>sv_sessions := do_read_header session_new # sv_sessions sv1,
               sv_pending := Suc (sv_pending sv1)\<rparr>)"

definition server_stop :: "Server \<Rightarrow> Server" where
  "server_stop sv = sv\<lparr>sv_open := False, sv_listening := None\<rparr>"

subsection \<open>The thread pool\<close>

text \<open>A worker's turn takes a task from the queue, or sleeps; it ends when \<open>done_\<close> is set, whatever
  is left in the queue.\<close>

record 'task ThreadPool =
  tp_done :: bool
  tp_threads :: "bool list"
  tp_work_queue :: "'task queue"

definition ThreadPool_new :: "nat \<Rightarrow> nat \<Rightarrow> 'task ThreadPool" where
  "ThreadPool_new hardware_concurrency thread_count =
     (let n = (if thread_count \<noteq> 0 then thread_count else hardware_concurrency)
      in \<lparr>tp_done = False, tp_threads = replicate n True, tp_work_queue = queue_new\<rparr>)"

definition tp_submit :: "'task \<Rightarrow> 'task ThreadPool \<Rightarrow> 'task ThreadPool" where
  "tp_submit f tp = tp\<lparr>tp_work_queue := queue_push_new f (tp_work_queue tp)\<rparr>"

definition worker_turn :: "'task ThreadPool \<Rightarrow> 'task option \<times> 'task ThreadPool" where
  "worker_turn tp =
     (if tp_done tp then (None, tp)
      else
        let (task, q) = queue_try_pop (tp_work_queue tp)
        in (task, tp\<lparr>tp_work_queue := q\<rparr>))"

definition ThreadPool_destroy :: "'task ThreadPool \<Rightarrow> 'task ThreadPool outcome" where
  "ThreadPool_destroy tp =
     (let tp1 = tp\<lparr>tp_done := True\<rparr> in
      outcome_bind (join_all (tp_done tp1) (tp_threads tp1))
        (\<lambda>ts. Returns (tp1\<lparr>tp_threads := ts\<rparr>)))"

subsection \<open>The facade\<close>

text \<open>What the machine gives: the environment of the node, an uninitialised routing table, the
  database and the files found in the storage directory, the clock, the free ports.\<close>

record machine =
  ma_env :: Env
  ma_table :: RoutingTable
  ma_db :: "string \<Rightarrow> file_row option"
  ma_fs :: "string \<Rightarrow> byte list option"
  ma_can_open :: "string \<Rightarrow> bool"
  ma_entries :: "string list"
  ma_now :: nat
  ma_bindable :: "16 word \<Rightarrow> bool"
  ma_io_idle :: bool

record PeerPaste =
  pp_joined :: bool
  pp_create_ring :: bool
  pp_server :: "Server option"
  pp_dispatcher :: "MessageDispatcher option"
  pp_handler :: "(node \<times> handler_threads) option"

definition PeerPaste_new :: PeerPaste where
  "PeerPaste_new = \<lparr>pp_joined = False, pp_create_ring = False, pp_server = None,
     pp_dispatcher = None, pp_handler = None\<rparr>"

text \<open>The handler takes the port as a \<open>short\<close>, the server as an \<open>int\<close>. A second \<open>init\<close> destroys the
  dispatcher and the handler of the first, with their threads.\<close>

definition pp_init :: "machine \<Rightarrow> string \<Rightarrow> u32 \<Rightarrow> nat \<Rightarrow> PeerPaste \<Rightarrow> PeerPaste outcome" where
  "pp_init ma ip port thread_count pp =
     (if (case pp_handler pp of None \<Rightarrow> False | Some (nd, h) \<Rightarrow> True \<in> set (ht_threads h)) \<or>
         (case pp_dispatcher pp of None \<Rightarrow> False | Some d \<Rightarrow> dispatcher_joinable d)
      then Throws Terminated
      else
        let nd = MessageHandler_new (ma_env ma) ip (ucast port) (ma_table ma) (ma_db ma) (ma_fs ma)
                   (ma_can_open ma) (ma_entries ma) (ma_now ma)
        in Returns (pp\<lparr>pp_handler := Some (handler_init nd, handler_threads_new),
             pp_dispatcher := Some MessageDispatcher_new,
             pp_server := Some (Server_new (int thread_count) (sint port))\<rparr>))"

definition pp_run :: "machine \<Rightarrow> PeerPaste \<Rightarrow> PeerPaste outcome" where
  "pp_run ma pp =
     outcome_bind
       (if pp_joined pp \<or> pp_create_ring pp then
          outcome_bind (the_or_throw NotInitialised (pp_handler pp))
            (\<lambda>(nd, h). Returns (pp\<lparr>pp_handler := Some (nd, handler_run h)\<rparr>))
        else Returns pp)
       (\<lambda>pp1. outcome_bind (the_or_throw NotInitialised (pp_server pp1))
       (\<lambda>sv. outcome_bind (server_run (ma_bindable ma) sv)
       (\<lambda>sv'. outcome_bind (the_or_throw NotInitialised (pp_dispatcher pp1))
       (\<lambda>d. Returns (pp1\<lparr>pp_server := Some sv', pp_dispatcher := Some (dispatcher_run d)\<rparr>)))))"

definition pp_stop :: "PeerPaste \<Rightarrow> PeerPaste outcome" where
  "pp_stop pp =
     (let pp1 = pp\<lparr>pp_server := map_option server_stop (pp_server pp)\<rparr> in
      outcome_bind
        (case pp_handler pp1 of
           None \<Rightarrow> Returns pp1
         | Some (nd, h) \<Rightarrow>
             outcome_bind (handler_stop h) (\<lambda>h'. Returns (pp1\<lparr>pp_handler := Some (nd, h')\<rparr>)))
        (\<lambda>pp2.
           case pp_dispatcher pp2 of
             None \<Rightarrow> Returns pp2
           | Some d \<Rightarrow>
               outcome_bind (dispatcher_stop d) (\<lambda>d'. Returns (pp2\<lparr>pp_dispatcher := Some d'\<rparr>))))"

definition pp_join :: "machine \<Rightarrow> string \<Rightarrow> string \<Rightarrow> PeerPaste \<Rightarrow> PeerPaste outcome" where
  "pp_join ma ip port pp =
     outcome_bind (the_or_throw NotInitialised (pp_handler pp)) (\<lambda>(nd, h).
       case handler_join (ma_env ma) ip port nd of
         Inl e \<Rightarrow> Throws (NodeFailed e)
       | Inr nd' \<Rightarrow> Returns (pp\<lparr>pp_handler := Some (nd', h), pp_joined := True\<rparr>))"

definition pp_make_ring :: "PeerPaste \<Rightarrow> PeerPaste" where
  "pp_make_ring pp = pp\<lparr>pp_create_ring := True\<rparr>"

definition pp_debug :: "PeerPaste \<Rightarrow> PeerPaste outcome" where
  "pp_debug pp =
     outcome_bind (the_or_throw NotInitialised (pp_dispatcher pp))
       (\<lambda>d. Returns (pp\<lparr>pp_dispatcher := Some (send_routing_information d)\<rparr>))"

definition wait_till_finish :: "machine \<Rightarrow> PeerPaste \<Rightarrow> PeerPaste outcome" where
  "wait_till_finish ma pp =
     (case pp_dispatcher pp of
        None \<Rightarrow> Returns pp
      | Some d \<Rightarrow>
          outcome_bind (dispatcher_join (ma_io_idle ma) d)
            (\<lambda>d'. Returns (pp\<lparr>pp_dispatcher := Some d'\<rparr>)))"

text \<open>The destructor stops; an exception in it ends the program.\<close>

definition PeerPaste_destroy :: "PeerPaste \<Rightarrow> PeerPaste outcome" where
  "PeerPaste_destroy pp = (case pp_stop pp of Throws e \<Rightarrow> Throws Terminated | r \<Rightarrow> r)"

subsection \<open>The program\<close>

record arguments =
  ar_invalid :: bool
  ar_help :: bool
  ar_verbose :: bool
  ar_address :: "string option"
  ar_port :: "u32 option"
  ar_join :: "string list option"
  ar_create :: bool
  ar_log_messages :: bool
  ar_debug :: bool

text \<open>A sink of the log: where it writes, which records it takes and the line it makes of one. How
  Boost renders time stamps, uptimes and scopes is part of the record.\<close>

record log_record =
  lr_time_stamp :: "string \<Rightarrow> string"
  lr_uptime :: "string \<Rightarrow> string"
  lr_scope :: "string \<Rightarrow> string"
  lr_severity :: severity_level
  lr_message :: string

datatype log_target = Console | LogFile string

record log_sink =
  sk_target :: log_target
  sk_filter :: "severity_level \<Rightarrow> bool"
  sk_line :: "log_record \<Rightarrow> string"

definition newline :: string where
  "newline = [CHR 0x0A]"

text \<open>\<open>std::this_thread::get_id()\<close> is streamed into the format while it is built: every line names
  the thread that ran \<open>main\<close>.\<close>

definition console_sink :: "arguments \<Rightarrow> string \<Rightarrow> log_sink" where
  "console_sink ar main_thread_id =
     (if ar_verbose ar then
        \<lparr>sk_target = Console, sk_filter = (\<lambda>sev. sev \<le> sev_debug),
         sk_line = (\<lambda>r. lr_time_stamp r ''%m-%d, %H:%M:%S.%f'' @ ''['' @ main_thread_id @ ''] <'' @
           severity_name (lr_severity r) @ ''> '' @ lr_message r)\<rparr>
      else
        \<lparr>sk_target = Console, sk_filter = (\<lambda>sev. sev \<le> sev_info), sk_line = lr_message\<rparr>)"

definition message_log :: "string \<Rightarrow> severity_level \<Rightarrow> log_sink" where
  "message_log name sev =
     \<lparr>sk_target = LogFile name, sk_filter = (\<lambda>sev'. sev' = sev),
      sk_line = (\<lambda>r. lr_time_stamp r ''%Y-%m-%d, %H:%M:%S.%f'' @ '' ['' @ lr_uptime r ''%O:%M:%S'' @ ''] ['' @
        lr_scope r ''%n (%f:%l)'' @ ''] <'' @ severity_name (lr_severity r) @ ''>'' @ newline @ lr_message r)\<rparr>"

definition log_sinks :: "arguments \<Rightarrow> string \<Rightarrow> log_sink list" where
  "log_sinks ar main_thread_id =
     console_sink ar main_thread_id #
       (if ar_log_messages ar then
          [message_log ''outgoing_message.log'' sev_message_out, message_log ''ingoing_message.log'' sev_message_in]
        else [])"

definition logged :: "log_sink list \<Rightarrow> log_record \<Rightarrow> (log_target \<times> string) list" where
  "logged sinks r =
     map (\<lambda>k. (sk_target k, sk_line k r)) (filter (\<lambda>k. sk_filter k (lr_severity r)) sinks)"

text \<open>A record reaches at most one sink: messages only their file, the others only the console.\<close>

lemma logged_at_most_once: "length (logged (log_sinks ar t) r) \<le> 1"
  by (cases "lr_severity r")
    (auto simp: logged_def log_sinks_def console_sink_def message_log_def less_eq_severity_level_def)

lemma messages_not_on_console:
  "lr_severity r \<in> {sev_message_out, sev_message_in} \<Longrightarrow>
     (Console, l) \<notin> set (logged (log_sinks ar t) r) \<and>
     (\<not> ar_log_messages ar \<longrightarrow> logged (log_sinks ar t) r = [])"
  by (auto simp: logged_def log_sinks_def console_sink_def message_log_def less_eq_severity_level_def)

text \<open>From the construction of the facade to \<open>run\<close>.\<close>

definition start_program :: "machine \<Rightarrow> arguments \<Rightarrow> string \<Rightarrow> u32 \<Rightarrow> PeerPaste outcome" where
  "start_program ma ar address port =
     outcome_bind (pp_init ma address port 4 PeerPaste_new) (\<lambda>pp.
     outcome_bind
       (case ar_join ar of
          Some vec \<Rightarrow>
            if length vec \<le> 0 then Throws OutOfRange
            else if length vec \<le> 1 then Throws OutOfRange
            else pp_join ma (vec ! 0) (vec ! 1) pp
        | None \<Rightarrow> Returns (if ar_create ar then pp_make_ring pp else pp)) (\<lambda>pp1.
     outcome_bind (if ar_debug ar then pp_debug pp1 else Returns pp1) (\<lambda>pp2.
     pp_run ma pp2)))"

definition run_program :: "machine \<Rightarrow> arguments \<Rightarrow> int outcome" where
  "run_program ma ar =
     (case (ar_port ar, ar_address ar) of
        (Some port, Some address) \<Rightarrow>
          outcome_bind (start_program ma ar address port) (\<lambda>pp.
          outcome_bind (wait_till_finish ma pp) (\<lambda>pp1.
          outcome_bind (PeerPaste_destroy pp1) (\<lambda>_. Returns 0)))
      | _ \<Rightarrow>
          outcome_bind (wait_till_finish ma PeerPaste_new) (\<lambda>pp.
          outcome_bind (PeerPaste_destroy pp) (\<lambda>_. Returns 0)))"

text \<open>\<open>main\<close>: arguments that do not parse end in the handler of \<open>po::error\<close>.\<close>

definition main_program :: "machine \<Rightarrow> arguments \<Rightarrow> int outcome" where
  "main_program ma ar =
     (if ar_invalid ar then Returns (- 1)
      else if ar_help ar then Returns 0
      else run_program ma ar)"

subsection \<open>A node that joins\<close>

lemma handler_join_returns: "\<exists>nd'. handler_join env a p nd = Inr nd'"
  by (auto simp: handler_join_def with_new_oid_def Join_new_def new_oid_def run_object_def
      run_message_def join_create_request_def run_child_def qu_create_request_def
      send_with_handler_eq lift_step_def MessagingBase_new_def Join.defs MessagingBase.defs
      Query_new_def Query.defs Let_def split_def)

subsection \<open>What a started program looks like\<close>

lemma listening_port [simp]: "(scast port :: 16 word) = ucast port" for port :: u32
  by (rule bit_word_eqI) (simp add: bit_simps)

definition started :: "arguments \<Rightarrow> u32 \<Rightarrow> node \<Rightarrow> PeerPaste" where
  "started ar port nd =
     \<lparr>pp_joined = (ar_join ar \<noteq> None), pp_create_ring = (ar_join ar = None \<and> ar_create ar),
      pp_server = Some
        \<lparr>sv_thread_count = 4, sv_port = sint port, sv_open = True, sv_listening = Some (ucast port),
         sv_pending = 1, sv_sessions = []\<rparr>,
      pp_dispatcher = Some
        \<lparr>di_run = True, di_io_stopped = False,
         di_threads = (if ar_debug ar then [True] else []) @ [True, True],
         di_asio_pool = replicate 4 True\<rparr>,
      pp_handler = Some (nd,
        \<lparr>ht_running = True,
         ht_threads = (if ar_join ar \<noteq> None \<or> ar_create ar then [True, True] else [])\<rparr>)\<rparr>"

lemmas start_defs =
  start_program_def pp_init_def pp_run_def PeerPaste_new_def the_or_throw_def pp_make_ring_def
  pp_join_def pp_debug_def server_run_def start_listening_def accept_connections_def
  Server_new_def handler_threads_new_def handler_run_def MessageDispatcher_new_def
  dispatcher_run_def send_routing_information_def Let_def

lemma start_program_started:
  "start_program ma ar a port = Returns pp \<Longrightarrow> \<exists>nd. pp = started ar port nd"
  by (auto simp: start_defs started_def split: if_splits option.splits sum.splits)

lemma start_program_returns:
  assumes "ma_bindable ma (ucast port)" "\<And>vec. ar_join ar = Some vec \<Longrightarrow> 2 \<le> length vec"
  shows "\<exists>nd. start_program ma ar a port = Returns (started ar port nd) \<and>
    (let nd0 = handler_init (MessageHandler_new (ma_env ma) a (ucast port) (ma_table ma) (ma_db ma)
         (ma_fs ma) (ma_can_open ma) (ma_entries ma) (ma_now ma))
     in nd = nd0 \<or> (\<exists>h q. handler_join (ma_env ma) h q nd0 = Inr nd))"
proof (cases "ar_join ar")
  case None
  then show ?thesis using assms(1) by (simp add: start_defs started_def)
next
  case (Some vec)
  let ?nd = "handler_init (MessageHandler_new (ma_env ma) a (ucast port) (ma_table ma) (ma_db ma)
    (ma_fs ma) (ma_can_open ma) (ma_entries ma) (ma_now ma))"
  obtain nd where nd: "handler_join (ma_env ma) (vec ! 0) (vec ! 1) ?nd = Inr nd"
    using handler_join_returns by blast
  have "\<not> length vec \<le> 0" "\<not> length vec \<le> 1" using assms(2) [OF Some] by auto
  then have "start_program ma ar a port = Returns (started ar port nd)"
    using Some assms(1) nd by (simp add: start_defs started_def)
  then show ?thesis using nd by (auto simp: Let_def)
qed

subsection \<open>Running and stopping\<close>


text \<open>C30. \<open>stop\<close> of a started program ends and leaves no thread to join and no open acceptor; but a
  second call throws, and the destructor, which stops again, terminates the program.\<close>

theorem stop_works_once:
  assumes "start_program ma ar a port = Returns pp"
  shows "\<exists>pp' nd h d sv. pp_stop pp = Returns pp' \<and> pp_handler pp' = Some (nd, h) \<and>
    True \<notin> set (ht_threads h) \<and> pp_dispatcher pp' = Some d \<and> \<not> dispatcher_joinable d \<and>
    pp_server pp' = Some sv \<and> \<not> sv_open sv \<and>
    pp_stop pp' = Throws NotJoinable \<and> PeerPaste_destroy pp' = Throws Terminated"
proof -
  from start_program_started [OF assms] obtain nd where "pp = started ar port nd" ..
  then show ?thesis
    by (simp add: started_def pp_stop_def PeerPaste_destroy_def handler_stop_def dispatcher_stop_def
        server_stop_def dispatcher_joinable_def Let_def numeral_eq_Suc)
qed

text \<open>A \<open>--join\<close> with fewer than two values ends the program with an exception that \<open>main\<close> does
  not catch, after the node was set up.\<close>

lemma join_argument_missing:
  assumes "\<not> ar_invalid ar" "\<not> ar_help ar" "ar_address ar = Some a" "ar_port ar = Some port"
    "ar_join ar = Some vec" "length vec < 2"
  shows "main_program ma ar = Throws OutOfRange"
proof -
  have "length vec \<le> 0 \<or> length vec \<le> 1" using assms(6) by linarith
  then show ?thesis
    using assms(1-5) by (auto simp: main_program_def run_program_def start_program_def pp_init_def PeerPaste_new_def Let_def)
qed

subsection \<open>Accepting\<close>

text \<open>The accepts that complete while the server runs; without one under way nothing completes.\<close>

definition accepts :: "bool list \<Rightarrow> Server \<Rightarrow> Server" where
  "accepts ecs sv =
     fold (\<lambda>ec sv. if sv_pending sv = 0 then sv else handle_new_connection ec sv) ecs sv"

lemma accepts_simps [simp]:
  "accepts [] sv = sv"
  "accepts (ec # ecs) sv =
     accepts ecs (if sv_pending sv = 0 then sv else handle_new_connection ec sv)"
  by (simp_all add: accepts_def)

lemma accepts_none [simp]: "sv_pending sv = 0 \<Longrightarrow> accepts ecs sv = sv"
  by (induction ecs) simp_all

text \<open>C31. A running server accepts the connections that come before the first error, starts to read
  the header of each, and has exactly one accept under way; after the first error, which may be as
  passing as a connection that was aborted, it never accepts again.\<close>

theorem accept_error_ends_server:
  assumes "sv_open sv" "sv_pending sv = 1" "sv_sessions sv = []"
  shows "sv_sessions (accepts ecs sv) =
      replicate (length (takeWhile Not ecs)) (do_read_header session_new) \<and>
    sv_pending (accepts ecs sv) = (if True \<in> set ecs then 0 else 1)"
proof -
  have "sv_sessions (accepts ecs sv) =
      replicate (length (takeWhile Not ecs)) (do_read_header session_new) @ sv_sessions sv \<and>
    sv_pending (accepts ecs sv) = (if True \<in> set ecs then 0 else 1)"
    using assms(1,2)
    by (induction ecs arbitrary: sv)
      (simp_all add: handle_new_connection_def replicate_append_same)
  then show ?thesis using assms(3) by simp
qed

subsection \<open>The port\<close>

lemma to_string_digits: "c \<in> set (to_string n) \<Longrightarrow> \<exists>d < 10. c = dec_digit d"
proof (induction n rule: to_string.induct)
  case (1 n)
  have "n mod 10 < 10" by simp
  then have "\<exists>d < 10. dec_digit (n mod 10) = dec_digit d" by blast
  then show ?case
    using 1 by (auto simp: to_string.simps [of n] split: if_splits)
qed

lemma to_string_int_negative:
  assumes "z < 0"
  shows "to_string_int z \<noteq> to_string n"
proof
  assume "to_string_int z = to_string n"
  then have "CHR ''-'' \<in> set (to_string n)"
    using assms by (metis list.set_intros(1) append_Cons to_string_int_def)
  then obtain d where "d < 10" "CHR ''-'' = dec_digit d" using to_string_digits by blast
  then have "of_char CHR ''-'' = (of_char (char_of (48 + d) :: char) :: nat)" by (simp add: dec_digit_def)
  then show False using \<open>d < 10\<close> by (simp add: take_bit_nat_eq_self)
qed

lemma short_of_int:
  "(k + 32768) mod 65536 - 32768 = (if k < 32768 then k else k - 65536)"
  if "0 \<le> k" "k < 65536" for k :: int
proof (cases "k < 32768")
  case False
  have "(k + 32768) mod 65536 = ((k - 32768) + 65536) mod 65536"
    by (simp add: add.commute)
  also have "\<dots> = k - 32768" unfolding mod_add_self2 using False that by simp
  finally show ?thesis using False by simp
qed (use that in simp)

lemma sint_ucast_port:
  fixes port :: u32
  assumes "uint port < 2 ^ 16"
  shows "sint (ucast port :: 16 word) =
    (if uint port < 2 ^ 15 then uint port else uint port - 2 ^ 16)"
proof -
  have "(ucast port :: 16 word) = of_nat (unat port)" by simp
  then have "sint (ucast port :: 16 word) = signed_take_bit 15 (uint port)"
    using signed_of_nat [where 'a = int and 'b = 16, of "unat port"] by simp
  also have "\<dots> = (uint port + 2 ^ 15) mod 2 ^ 16 - 2 ^ 15"
    by (simp add: signed_take_bit_eq_take_bit_shift take_bit_eq_mod)
  finally show ?thesis using assms short_of_int [of "uint port"] by simp
qed

text \<open>C38. A node advertises the port it listens on only below 32768: the handler keeps the port as a
  \<open>short\<close> and puts a negative number into the node's own address, and into its identifier, for the
  upper half of the ports, on which the server listens nevertheless.\<close>

theorem upper_ports_misadvertised:
  assumes "uint port < 2 ^ 16"
  shows "\<exists>pp nd h self. pp_init ma ip port n PeerPaste_new = Returns pp \<and>
    pp_handler pp = Some (nd, h) \<and> rt_self (w_table (nd_world nd)) = Some self \<and>
    (peer_port self = to_string (unat (ucast port :: 16 word)) \<longleftrightarrow> uint port < 2 ^ 15)"
proof -
  have small: "unat port < 2 ^ 16"
    unfolding nat_uint_eq [symmetric] using assms by (simp only: nat_less_iff uint_ge_0) simp
  have u: "unat (ucast port :: 16 word) = unat port"
    unfolding unsigned_ucast_eq using small by (simp add: take_bit_nat_eq_self)
  have port: "to_string_int (sint (ucast port :: 16 word)) = to_string (unat port) \<longleftrightarrow>
      uint port < 2 ^ 15"
  proof (cases "uint port < 2 ^ 15")
    case True
    then show ?thesis by (simp add: sint_ucast_port [OF assms] to_string_int_def)
  next
    case False
    then have "sint (ucast port :: 16 word) < 0" using assms by (simp add: sint_ucast_port [OF assms])
    from to_string_int_negative [OF this] False show ?thesis by simp
  qed
  let ?nd = "handler_init (MessageHandler_new (ma_env ma) ip (ucast port) (ma_table ma) (ma_db ma)
    (ma_fs ma) (ma_can_open ma) (ma_entries ma) (ma_now ma))"
  have "\<exists>self. rt_self (w_table (nd_world ?nd)) = Some self \<and>
      peer_port self = to_string_int (sint (ucast port :: 16 word))"
    by (simp add: handler_init_def MessageHandler_new_def w_get_self_def rt_defs Peer_new_def
        Let_def split_def del: signed_ucast_eq)
  then show ?thesis
    unfolding u port [symmetric] by (auto simp: pp_init_def PeerPaste_new_def Let_def)
qed

subsection \<open>Examples\<close>

definition example_machine :: machine where
  "example_machine =
     \<lparr>ma_env = example_env, ma_table = rt_new False False False, ma_db = Map.empty,
      ma_fs = Map.empty, ma_can_open = (\<lambda>_. True), ma_entries = [], ma_now = 0,
      ma_bindable = (\<lambda>_. True), ma_io_idle = False\<rparr>"

definition example_arguments :: "string list option \<Rightarrow> arguments" where
  "example_arguments vec =
     \<lparr>ar_invalid = False, ar_help = False, ar_verbose = False, ar_address = Some ''10.0.0.1'',
      ar_port = Some 1337, ar_join = vec, ar_create = (vec = None), ar_log_messages = False, ar_debug = False\<rparr>"

lemmas example_start_defs = example_machine_def example_arguments_def


lemma stop_works_once_witness:
  "\<exists>pp pp'. start_program example_machine (example_arguments None) ''10.0.0.1'' 1337 = Returns pp \<and>
    pp_stop pp = Returns pp' \<and> pp_stop pp' = Throws NotJoinable"
proof -
  have "\<exists>nd. start_program example_machine (example_arguments None) ''10.0.0.1'' 1337 =
      Returns (started (example_arguments None) 1337 nd)"
    using start_program_returns [where ma = example_machine and ar = "example_arguments None"]
    by (auto simp: example_start_defs)
  then obtain nd where start: "start_program example_machine (example_arguments None) ''10.0.0.1'' 1337 =
      Returns (started (example_arguments None) 1337 nd)" ..
  from stop_works_once [OF this] start show ?thesis by blast
qed

lemma join_argument_missing_witness:
  "main_program example_machine (example_arguments (Some [''10.0.0.2''])) = Throws OutOfRange"
  by (rule join_argument_missing [where vec = "[''10.0.0.2'']"])
    (simp_all add: example_arguments_def numeral_2_eq_2)

lemma accept_error_ends_server_witness:
  "sv_pending (accepts [False, True, False]
     ((Server_new 4 1337)\<lparr>sv_open := True, sv_pending := 1\<rparr>)) = 0"
  using accept_error_ends_server [of "(Server_new 4 1337)\<lparr>sv_open := True, sv_pending := 1\<rparr>"
      "[False, True, False]"]
  by (simp add: Server_new_def)

lemma upper_ports_misadvertised_witness:
  "\<exists>pp nd h self. pp_init example_machine ''10.0.0.1'' 40000 4 PeerPaste_new = Returns pp \<and>
    pp_handler pp = Some (nd, h) \<and> rt_self (w_table (nd_world nd)) = Some self \<and>
    peer_port self \<noteq> to_string (unat (ucast (40000 :: u32) :: 16 word))"
  using upper_ports_misadvertised [of 40000 example_machine "''10.0.0.1''" 4] by auto

end
