(* ===== verification/Locking.thy ===== *)
theory Locking
  imports Prelude
begin

section \<open>The mutexes of the message objects\<close>

text \<open>
  The step relation of a node treats an operation that holds an object's mutex as one step. Here
  the steps are the lock operations themselves. Two threads meet at the message objects: the
  dispatcher delivers an answer to a dependency, which notifies its composite while it holds its
  own mutex; the maintenance thread cleans up, holding the mutex of the deque, then of the
  composite, then of each dependency in turn. \<open>Stabilize\<close> takes no lock when it is notified,
  \<open>Join\<close> takes its own. Mutexes under which no other is taken (queues, the routing table, the
  handler set, the storage) cannot take part in a deadlock and are left out.

  A thread is the sequence of what it still has to lock and unlock. Locks are numbers: the deque
  is 0, the object \<open>i\<close> is \<open>Suc i\<close>.
\<close>

subsection \<open>Interleavings\<close>

datatype lock_op = Acquire nat | Release nat

type_synonym lock_state = "lock_op list list \<times> (nat \<Rightarrow> nat option)"

inductive lock_step :: "lock_state \<Rightarrow> lock_state \<Rightarrow> bool" where
  acquire: "i < length ts \<Longrightarrow> ts ! i = Acquire l # p \<Longrightarrow> held l = None \<Longrightarrow>
    lock_step (ts, held) (ts[i := p], held(l \<mapsto> i))"
| release: "i < length ts \<Longrightarrow> ts ! i = Release l # p \<Longrightarrow> held l = Some i \<Longrightarrow>
    lock_step (ts, held) (ts[i := p], held(l := None))"

inductive_cases lock_stepE: "lock_step (ts, held) s'"

definition deadlocked :: "lock_state \<Rightarrow> bool" where
  "deadlocked s \<longleftrightarrow> (\<exists>p \<in> set (fst s). p \<noteq> []) \<and> (\<nexists>s'. lock_step s s')"

subsection \<open>What the code locks\<close>

definition deque_lock :: nat where
  "deque_lock = 0"

definition object_lock :: "nat \<Rightarrow> nat" where
  "object_lock i = Suc i"

text \<open>\<open>check_state\<close> of an object with the dependencies \<open>deps\<close>, which have none themselves.\<close>

definition check_state_locks :: "nat \<Rightarrow> nat list \<Rightarrow> lock_op list" where
  "check_state_locks i deps =
     Acquire (object_lock i) #
     concat (map (\<lambda>c. [Acquire (object_lock c), Release (object_lock c)]) deps) @
     [Release (object_lock i)]"

definition clean_locks :: "(nat \<times> nat list) list \<Rightarrow> lock_op list" where
  "clean_locks obs =
     Acquire deque_lock # concat (map (\<lambda>(i, deps). check_state_locks i deps) obs) @
     [Release deque_lock]"

definition push_back_locks :: "lock_op list" where
  "push_back_locks = [Acquire deque_lock, Release deque_lock]"

text \<open>\<open>create_request\<close> of a dependency, and the notifications of the composites, which may start
  the next dependency.\<close>

definition create_request_locks :: "nat \<Rightarrow> lock_op list" where
  "create_request_locks c = [Acquire (object_lock c), Release (object_lock c)]"

definition next_dependency_locks :: "nat option \<Rightarrow> lock_op list" where
  "next_dependency_locks c2 = (case c2 of None \<Rightarrow> [] | Some c \<Rightarrow> create_request_locks c)"

definition join_notification_locks :: "nat \<Rightarrow> nat option \<Rightarrow> lock_op list" where
  "join_notification_locks j c2 =
     Acquire (object_lock j) # next_dependency_locks c2 @ [Release (object_lock j)]"

definition stabilize_notification_locks :: "nat option \<Rightarrow> lock_op list" where
  "stabilize_notification_locks c2 = next_dependency_locks c2"

text \<open>\<open>handle_response\<close> of a dependency ends with \<open>RequestDestruction\<close> and so with the notification of
  its composite.\<close>

definition handle_response_locks :: "nat \<Rightarrow> lock_op list \<Rightarrow> lock_op list" where
  "handle_response_locks c notification =
     Acquire (object_lock c) # notification @ [Release (object_lock c)]"

lemmas lock_defs =
  check_state_locks_def clean_locks_def push_back_locks_def create_request_locks_def
  next_dependency_locks_def join_notification_locks_def stabilize_notification_locks_def
  handle_response_locks_def deque_lock_def object_lock_def

subsection \<open>Locks taken in order\<close>

text \<open>A thread that holds \<open>H\<close> only takes locks above those it holds, releases what it holds, and ends
  with nothing.\<close>

fun ordered :: "nat set \<Rightarrow> lock_op list \<Rightarrow> bool" where
  "ordered H [] \<longleftrightarrow> H = {}"
| "ordered H (Acquire l # p) \<longleftrightarrow> (\<forall>h \<in> H. h < l) \<and> ordered (insert l H) p"
| "ordered H (Release l # p) \<longleftrightarrow> l \<in> H \<and> ordered (H - {l}) p"

definition lock_inv :: "lock_state \<Rightarrow> bool" where
  "lock_inv s \<longleftrightarrow>
     (\<forall>i < length (fst s). ordered {l. snd s l = Some i} (fst s ! i)) \<and>
     (\<forall>l i. snd s l = Some i \<longrightarrow> i < length (fst s))"

lemma lock_inv_step:
  assumes "lock_step s s'" "lock_inv s"
  shows "lock_inv s'"
  using assms
proof (induction rule: lock_step.induct)
  case (acquire i ts l p held)
  have "{l'. (held(l \<mapsto> i)) l' = Some k} =
      (if k = i then insert l {l'. held l' = Some i} else {l'. held l' = Some k})" for k
    using acquire.hyps(3) by auto
  moreover have "ordered {l'. held l' = Some i} (Acquire l # p)"
    using acquire by (metis fst_conv lock_inv_def snd_conv)
  ultimately show ?case
    using acquire by (auto simp: lock_inv_def nth_list_update split: if_splits)
next
  case (release i ts l p held)
  have "{l'. (held(l := None)) l' = Some k} =
      (if k = i then {l'. held l' = Some i} - {l} else {l'. held l' = Some k})" for k
    using release.hyps(3) by auto
  moreover have "ordered {l'. held l' = Some i} (Release l # p)"
    using release by (metis fst_conv lock_inv_def snd_conv)
  ultimately show ?case
    using release by (auto simp: lock_inv_def nth_list_update split: if_splits)
qed

text \<open>The highest lock somebody waits for is held by a thread that does not wait for a lower one.\<close>

lemma lock_inv_progress:
  assumes "lock_inv s"
  shows "\<not> deadlocked s"
proof
  assume dead: "deadlocked s"
  obtain ts held where s: "s = (ts, held)" by (cases s)
  note ord = assms [unfolded lock_inv_def s fst_conv snd_conv]
  have waits: "\<exists>l p k. ts ! i = Acquire l # p \<and> held l = Some k"
    if w: "i < length ts" "ts ! i \<noteq> []" for i
  proof -
    obtain x p where x: "ts ! i = x # p" using w by (cases "ts ! i") auto
    have "ordered {l. held l = Some i} (ts ! i)" using ord w by blast
    moreover have "\<not> lock_step (ts, held) s'" for s'
      using dead unfolding deadlocked_def s by blast
    ultimately show ?thesis
      using x w lock_step.acquire [of i ts _ p held] lock_step.release [of i ts _ p held]
      by (cases x) auto
  qed
  define W where "W = {l. \<exists>i < length ts. \<exists>p. ts ! i = Acquire l # p}"
  have "finite W"
  proof (rule finite_subset)
    show "W \<subseteq> (\<lambda>p. case p of Acquire l # _ \<Rightarrow> l | _ \<Rightarrow> 0) ` set ts"
      by (force simp: W_def in_set_conv_nth)
  qed simp
  obtain i where "i < length ts" "ts ! i \<noteq> []"
    using dead by (auto simp: deadlocked_def s in_set_conv_nth)
  with waits have "W \<noteq> {}" by (fastforce simp: W_def)
  with \<open>finite W\<close> have "Max W \<in> W" by simp
  then obtain i p where i: "i < length ts" "ts ! i = Acquire (Max W) # p" by (auto simp: W_def)
  then obtain k where k: "held (Max W) = Some k" "k < length ts" using waits [of i] ord by auto
  then have "ordered {l. held l = Some k} (ts ! k)" using ord by blast
  with k have "ts ! k \<noteq> []" by (cases "ts ! k") auto
  then obtain l p' where l: "ts ! k = Acquire l # p'" using waits k(2) by blast
  with \<open>ordered {l. held l = Some k} (ts ! k)\<close> k(1) have "Max W < l" by simp
  moreover have "l \<in> W" using l k(2) by (auto simp: W_def)
  ultimately show False using \<open>finite W\<close> by (meson Max_ge not_le)
qed

definition unlocked :: "lock_op list list \<Rightarrow> lock_state" where
  "unlocked ts = (ts, Map.empty)"

lemma lock_inv_unlocked: "(\<forall>p \<in> set ts. ordered {} p) \<Longrightarrow> lock_inv (unlocked ts)"
  by (simp add: lock_inv_def unlocked_def)

lemma lock_inv_reachable: "lock_step\<^sup>*\<^sup>* s s' \<Longrightarrow> lock_inv s \<Longrightarrow> lock_inv s'"
  by (induction rule: rtranclp_induct) (auto intro: lock_inv_step)

subsection \<open>The programs of the threads\<close>

lemma ordered_visit:
  "\<forall>h \<in> H. h < l \<Longrightarrow> ordered H (Acquire l # Release l # q) = ordered H q"
  by (metis Diff_insert_absorb insertI1 less_irrefl ordered.simps(2,3))

lemma ordered_visits:
  "\<forall>h \<in> H. \<forall>c \<in> set deps. h < object_lock c \<Longrightarrow>
     ordered H (concat (map (\<lambda>c. [Acquire (object_lock c), Release (object_lock c)]) deps) @ q) =
     ordered H q"
  by (induction deps) (simp_all add: ordered_visit del: ordered.simps)

lemma ordered_check_state:
  assumes "\<forall>h \<in> H. h < object_lock i" "\<forall>c \<in> set deps. i < c"
  shows "ordered H (check_state_locks i deps @ q) = ordered H q"
proof -
  have "\<forall>h \<in> insert (object_lock i) H. \<forall>c \<in> set deps. h < object_lock c"
    using assms by (fastforce simp: object_lock_def)
  moreover have "insert (object_lock i) H - {object_lock i} = H" using assms(1) by auto
  ultimately show ?thesis using assms(1) by (simp add: check_state_locks_def ordered_visits)
qed

lemma ordered_clean:
  assumes "\<forall>(i, deps) \<in> set obs. \<forall>c \<in> set deps. i < c"
  shows "ordered {} (clean_locks obs)"
proof -
  have "ordered {deque_lock} (concat (map (\<lambda>(i, deps). check_state_locks i deps) obs) @ [Release deque_lock])"
    using assms
    by (induction obs) (auto simp: ordered_check_state object_lock_def deque_lock_def)
  then show ?thesis by (simp add: clean_locks_def)
qed

text \<open>Objects are numbered in the order they are made, so a dependency has a higher number than its
  composite and a later dependency a higher one than an earlier. The threads that only take
  locks in this order:\<close>

inductive stabilizing_thread :: "lock_op list \<Rightarrow> bool" where
  clean: "\<forall>(i, deps) \<in> set obs. \<forall>c \<in> set deps. i < c \<Longrightarrow> stabilizing_thread (clean_locks obs)"
| push: "stabilizing_thread push_back_locks"
| request: "stabilizing_thread (create_request_locks c)"
| response: "\<forall>c2 \<in> set_option next. c < c2 \<Longrightarrow>
    stabilizing_thread (handle_response_locks c (stabilize_notification_locks next))"

lemma stabilizing_thread_ordered: "stabilizing_thread p \<Longrightarrow> ordered {} p"
proof (induction rule: stabilizing_thread.induct)
  case (response c_next c)
  then show ?case by (cases c_next) (auto simp: lock_defs)
qed (simp_all add: ordered_clean push_back_locks_def create_request_locks_def)

text \<open>C20. Stabilisation cannot deadlock with the clean-up: whatever clean-ups, insertions, new requests
  and answers to the dependencies of a \<open>Stabilize\<close> run at the same time, in every interleaving some
  thread can go on until all are finished.\<close>

theorem stabilize_never_deadlocks:
  assumes "\<forall>p \<in> set ts. stabilizing_thread p" "lock_step\<^sup>*\<^sup>* (unlocked ts) s"
  shows "\<not> deadlocked s"
  using lock_inv_progress lock_inv_reachable [OF assms(2)] lock_inv_unlocked [of ts] assms(1)
    stabilizing_thread_ordered
  by blast

text \<open>C21. A \<open>Join\<close> can deadlock with the clean-up: \<open>check_state\<close> takes the mutex of the join and then the
  one of its dependency, an answer to the dependency takes them the other way round. Both threads
  then wait forever, and the deque stays locked.\<close>

theorem join_deadlocks_with_cleanup:
  assumes "j \<noteq> c"
  shows "\<exists>ts held. lock_step\<^sup>*\<^sup>* (unlocked [clean_locks [(j, [c])],
      handle_response_locks c (join_notification_locks j c2)]) (ts, held) \<and>
    deadlocked (ts, held) \<and> held deque_lock = Some 0"
proof -
  let ?T = "[Acquire (object_lock c), Release (object_lock c), Release (object_lock j), Release deque_lock]"
  let ?R = "Acquire (object_lock j) # next_dependency_locks c2 @
    [Release (object_lock j), Release (object_lock c)]"
  let ?s0 = "([Acquire deque_lock # Acquire (object_lock j) # ?T, Acquire (object_lock c) # ?R], Map.empty)"
  let ?h1 = "[deque_lock \<mapsto> 0 :: nat]"
  let ?h2 = "?h1(object_lock j \<mapsto> 0)"
  let ?h3 = "?h2(object_lock c \<mapsto> 1)"
  have start: "unlocked [clean_locks [(j, [c])],
      handle_response_locks c (join_notification_locks j c2)] = ?s0"
    by (simp add: unlocked_def clean_locks_def check_state_locks_def handle_response_locks_def
        join_notification_locks_def)
  have "lock_step ?s0 ([Acquire (object_lock j) # ?T, Acquire (object_lock c) # ?R], ?h1)"
    using lock_step.acquire [of 0 "fst ?s0" deque_lock "Acquire (object_lock j) # ?T" Map.empty]
    by simp
  moreover have "lock_step ([Acquire (object_lock j) # ?T, Acquire (object_lock c) # ?R], ?h1)
      ([?T, Acquire (object_lock c) # ?R], ?h2)"
    using lock_step.acquire [of 0 "[Acquire (object_lock j) # ?T, Acquire (object_lock c) # ?R]"
        "object_lock j" ?T ?h1]
    by (simp add: deque_lock_def object_lock_def)
  moreover have "lock_step ([?T, Acquire (object_lock c) # ?R], ?h2) ([?T, ?R], ?h3)"
    using lock_step.acquire [of 1 "[?T, Acquire (object_lock c) # ?R]" "object_lock c" ?R ?h2] assms
    by (simp add: deque_lock_def object_lock_def)
  ultimately have "lock_step\<^sup>*\<^sup>* ?s0 ([?T, ?R], ?h3)"
    by (meson rtranclp.rtrancl_into_rtrancl rtranclp.rtrancl_refl)
  moreover have "deadlocked ([?T, ?R], ?h3)"
    using assms
    by (auto simp: deadlocked_def object_lock_def less_Suc_eq elim!: lock_stepE)
  moreover have "?h3 deque_lock = Some 0" by (simp add: deque_lock_def object_lock_def)
  ultimately show ?thesis unfolding start by blast
qed

lemma stabilize_never_deadlocks_witness:
  "\<not> deadlocked (unlocked [clean_locks [(0, [1])],
    handle_response_locks 1 (stabilize_notification_locks (Some 2))])"
proof (rule stabilize_never_deadlocks)
  show "\<forall>p \<in> set [clean_locks [(0, [1])],
      handle_response_locks 1 (stabilize_notification_locks (Some 2))]. stabilizing_thread p"
    by (auto intro!: stabilizing_thread.intros)
qed simp

lemma join_deadlocks_with_cleanup_witness:
  "\<exists>s. lock_step\<^sup>*\<^sup>* (unlocked [clean_locks [(0, [1])],
    handle_response_locks 1 (join_notification_locks 0 (Some 2))]) s \<and> deadlocked s"
  using join_deadlocks_with_cleanup [of 0 1 "Some 2"] by auto

end
