(* ===== verification/Node_Liveness.thy ===== *)
theory Node_Liveness
  imports Node_Reachable
begin

section \<open>The maintenance flags come down again\<close>

text \<open>
  A node starts a round of stabilisation only when \<open>stabilize_flag_\<close> is down, and a check of its
  predecessor only when \<open>check_predecessor_flag_\<close> is: a flag that stayed up would end the
  maintenance for good. Here every flag that is up has an unfinished object that will lower it, in
  all reachable nodes, and every object that gets no more answers is cleaned up after its
  time-out, which lowers the flags.
\<close>

subsection \<open>Operations that do not touch the flags\<close>

text \<open>The operation keeps the flags and the clock, and sets the time point, if at all, to
  \<open>DURATION\<close> from now; the object stays the same one.\<close>

definition keeps_flags ::
  "'m MessagingBase_scheme \<Rightarrow> world \<Rightarrow> 'm MessagingBase_scheme step \<Rightarrow> bool" where
  "keeps_flags ob w r \<longleftrightarrow>
     (\<forall>ob' w' sigs. r = Inr (ob', w', sigs) \<longrightarrow>
        w_stabilize_flag w' = w_stabilize_flag w \<and>
        w_check_predecessor_flag w' = w_check_predecessor_flag w \<and> w_now w' = w_now w \<and>
        mb_oid ob' = mb_oid ob \<and>
        mb_time_point ob' \<in> {mb_time_point ob, w_now w + DURATION})"

lemma keeps_flags_Inl [simp]: "keeps_flags ob w (Inl e)"
  by (simp add: keeps_flags_def)

lemma keeps_flags_Inr [simp]:
  "keeps_flags ob w (Inr (ob', w', sigs)) \<longleftrightarrow>
     w_stabilize_flag w' = w_stabilize_flag w \<and>
     w_check_predecessor_flag w' = w_check_predecessor_flag w \<and> w_now w' = w_now w \<and>
     mb_oid ob' = mb_oid ob \<and>
     mb_time_point ob' \<in> {mb_time_point ob, w_now w + DURATION}"
  by (auto simp: keeps_flags_def)

lemma keeps_flags_bind:
  "(\<And>x. r = Inr x \<Longrightarrow> keeps_flags ob w (f x)) \<Longrightarrow> keeps_flags ob w (res_bind r f)"
  by (cases r) simp_all

lemmas flag_simps = finish_defs Let_def split_def send_with_handler_eq

lemma qu_keeps_flags:
  "keeps_flags q w (qu_create_request env q w)" "keeps_flags q w (qu_handle_request env q w)"
  "keeps_flags q w (qu_handle_response resp q w)"
  by (auto simp: qu_defs flag_simps split: option.split intro!: keeps_flags_bind)

lemma no_keeps_flags:
  "keeps_flags n w (no_create_request env n w)" "keeps_flags n w (no_handle_request env n w)"
  "keeps_flags n w (no_handle_response resp n w)"
  by (auto simp: no_defs flag_simps split: option.split list.split intro!: keeps_flags_bind)

lemma sl_keeps_flags:
  "keeps_flags l w (sl_create_request env l w)" "keeps_flags l w (sl_handle_request env l w)"
  "keeps_flags l w (sl_handle_response resp l w)"
  by (auto simp: sl_defs flag_simps split: option.split intro!: keeps_flags_bind)

lemma ss_keeps_flags:
  "keeps_flags l w (ss_create_request env l w)" "keeps_flags l w (ss_handle_request env l w)"
  "keeps_flags l w (ss_handle_response resp l w)"
  by (auto simp: ss_defs flag_simps split: option.split intro!: keeps_flags_bind)

lemma ps_keeps_flags:
  "keeps_flags l w (ps_create_request env l w)" "keeps_flags l w (ps_handle_request env l w)"
  "keeps_flags l w (ps_handle_response resp l w)"
  by (auto simp: ps_defs flag_simps split: option.split intro!: keeps_flags_bind)

lemma fs_keeps_flags:
  "keeps_flags fs w (fs_create_request env fs w)" "keeps_flags fs w (fs_handle_request env fs w)"
  "keeps_flags fs w (fs_handle_response resp fs w)"
  "keeps_flags fs w (fs_handle_forwarded_response env resp fs w)"
  by (auto simp: fs_create_request_def fs_handle_request_def fs_forward_request_def
      fs_handle_response_def fs_handle_forwarded_response_def flag_simps
      split: option.split intro!: keeps_flags_bind)

lemma gf_keeps_flags:
  "keeps_flags g w (gf_create_request env g w)" "keeps_flags g w (gf_handle_request env g w)"
  "keeps_flags g w (gf_handle_response env resp g w)" "keeps_flags g w (gf_write_file env b g w)"
  by (auto simp: gf_create_request_def gf_handle_request_def gf_handle_response_def
      gf_write_file_def gf_write_buffer_def flag_simps
      split: option.split bool.split intro!: keeps_flags_bind elim!: res_bind_InrE)

subsection \<open>Single messages\<close>

definition leaf_time :: "leaf \<Rightarrow> nat" where
  "leaf_time l = mb_time_point (leaf_base l)"

definition leaf_keeps_flags :: "leaf \<Rightarrow> world \<Rightarrow> leaf step \<Rightarrow> bool" where
  "leaf_keeps_flags l w r \<longleftrightarrow>
     (\<forall>l' w' sigs. r = Inr (l', w', sigs) \<longrightarrow>
        w_stabilize_flag w' = w_stabilize_flag w \<and>
        w_check_predecessor_flag w' = w_check_predecessor_flag w \<and> w_now w' = w_now w \<and>
        leaf_oid l' = leaf_oid l \<and> leaf_kind l' = leaf_kind l \<and>
        leaf_time l' \<in> {leaf_time l, w_now w + DURATION})"

lemma leaf_keeps_flags_Inr:
  "leaf_keeps_flags l w (Inr (l', w', sigs)) \<longleftrightarrow>
     w_stabilize_flag w' = w_stabilize_flag w \<and>
     w_check_predecessor_flag w' = w_check_predecessor_flag w \<and> w_now w' = w_now w \<and>
     leaf_oid l' = leaf_oid l \<and> leaf_kind l' = leaf_kind l \<and>
     leaf_time l' \<in> {leaf_time l, w_now w + DURATION}"
  by (auto simp: leaf_keeps_flags_def)

lemma leaf_keeps_flags_lift:
  assumes "keeps_flags m w r" "l = c m" "\<And>m'. leaf_base (c m') = MessagingBase.truncate m'"
    "\<And>m'. leaf_kind (c m') = leaf_kind (c m)"
  shows "leaf_keeps_flags l w (lift_step c r)"
  using assms
  by (cases r) (auto simp: leaf_keeps_flags_def lift_step_def leaf_oid_def leaf_time_def
      MessagingBase.defs)

lemma keeps_flags_run:
  "keeps_flags m w (f m w) \<Longrightarrow> keeps_flags m w (g m w) \<Longrightarrow> keeps_flags m w (run_message f g m w)"
  by (simp add: run_message_def)

lemma leaf_run_keeps_flags:
  "leaf_kind l \<noteq> CHECK_PREDECESSOR \<Longrightarrow> leaf_keeps_flags l w (leaf_run env l w)"
  by (cases l)
    (auto intro!: leaf_keeps_flags_lift keeps_flags_run qu_keeps_flags no_keeps_flags sl_keeps_flags
      ss_keeps_flags ps_keeps_flags fs_keeps_flags gf_keeps_flags)

lemma leaf_handle_keeps_flags:
  "leaf_kind l \<noteq> CHECK_PREDECESSOR \<Longrightarrow> leaf_keeps_flags l w (leaf_handle env h resp l w)"
  by (cases l; cases h)
    (auto intro!: leaf_keeps_flags_lift qu_keeps_flags no_keeps_flags sl_keeps_flags
      ss_keeps_flags ps_keeps_flags fs_keeps_flags gf_keeps_flags)

lemma leaf_on_write_keeps_flags: "leaf_keeps_flags l w (leaf_on_write env b l w)"
  by (cases l)
    (auto simp: leaf_keeps_flags_def [of _ _ "Inr _"] intro!: leaf_keeps_flags_lift gf_keeps_flags)

subsection \<open>Who holds a flag\<close>

text \<open>A \<open>Stabilize\<close> lowers the flag when it starts its notification; until then its first dependency
  is one of the two that ask for a list.\<close>

fun holds_stabilize_flag :: "message_obj \<Rightarrow> bool" where
  "holds_stabilize_flag (MStabilize s) \<longleftrightarrow>
     \<not> mb_is_done s \<and> sb_deps s \<noteq> [] \<and>
     leaf_kind (fst (hd (sb_deps s))) \<in> {GET_PRED_AND_SUCC_LIST, GET_SELF_AND_SUCC_LIST}"
| "holds_stabilize_flag ob \<longleftrightarrow> False"

fun holds_check_flag :: "message_obj \<Rightarrow> bool" where
  "holds_check_flag (MLeaf (LCheckPredecessor c)) \<longleftrightarrow> \<not> mb_is_done c \<and> cp_has_flag c"
| "holds_check_flag ob \<longleftrightarrow> False"

lemma holds_not_done:
  "holds_stabilize_flag ob \<Longrightarrow> \<not> obj_is_done ob" "holds_check_flag ob \<Longrightarrow> \<not> obj_is_done ob"
  by (cases ob rule: holds_stabilize_flag.cases; simp add: obj_is_done_def MessagingBase.defs)
    (cases ob rule: holds_check_flag.cases; simp add: obj_is_done_def MessagingBase.defs)

definition obj_time :: "message_obj \<Rightarrow> nat" where
  "obj_time ob = mb_time_point (obj_base ob)"

text \<open>A step of an object: a flag that is up afterwards was up before, and if the object held it, it
  still does.\<close>

definition flags_step :: "message_obj \<Rightarrow> world \<Rightarrow> message_obj step \<Rightarrow> bool" where
  "flags_step ob w r \<longleftrightarrow>
     (\<forall>ob' w' sigs. r = Inr (ob', w', sigs) \<longrightarrow>
        w_now w' = w_now w \<and> obj_time ob' \<le> max (obj_time ob) (w_now w + DURATION) \<and>
        (w_stabilize_flag w' \<longrightarrow>
           w_stabilize_flag w \<and> (holds_stabilize_flag ob \<longrightarrow> holds_stabilize_flag ob')) \<and>
        (w_check_predecessor_flag w' \<longrightarrow>
           w_check_predecessor_flag w \<and> (holds_check_flag ob \<longrightarrow> holds_check_flag ob')))"

lemma flags_step_leaf:
  "leaf_keeps_flags l w r \<Longrightarrow> leaf_kind l \<noteq> CHECK_PREDECESSOR \<Longrightarrow>
     flags_step (MLeaf l) w (lift_step MLeaf r)"
  by (cases r; cases l)
    (auto simp: flags_step_def lift_step_def leaf_keeps_flags_def obj_time_def leaf_time_def)

lemma flags_step_handle_leaf:
  "flags_step (MLeaf l) w (lift_step MLeaf (leaf_handle env h resp l w))"
proof (cases "leaf_kind l = CHECK_PREDECESSOR")
  case True
  then obtain c where "l = LCheckPredecessor c" by (cases l) auto
  then show ?thesis
    by (auto simp: flags_step_def lift_step_def cp_handle_response_def cp_set_flag_def finish_defs
        res_bind_def obj_time_def MessagingBase.defs split: sum.splits if_splits)
next
  case False
  then show ?thesis by (intro flags_step_leaf leaf_handle_keeps_flags)
qed

lemma flags_step_write_leaf:
  "flags_step (MLeaf l) w (lift_step MLeaf (leaf_on_write env b l w))"
proof (cases "leaf_kind l = CHECK_PREDECESSOR")
  case True
  then obtain c where "l = LCheckPredecessor c" by (cases l) auto
  then show ?thesis by (simp add: flags_step_def lift_step_def)
next
  case False
  then show ?thesis by (intro flags_step_leaf leaf_on_write_keeps_flags)
qed

subsection \<open>Composites\<close>

text \<open>Delivering the notifications of a dependency one after the other.\<close>

lemma keeps_flags_absorb:
  assumes "\<And>s m w. keeps_flags m w (on_signal s m w)"
  shows "keeps_flags m w (absorb on_signal sigs m w)"
proof (induction sigs arbitrary: m w)
  case (Cons s sigs)
  show ?case
    using assms [of m w s] Cons.IH
    by (fastforce simp: keeps_flags_def elim!: res_bind_InrE)
qed simp

lemma run_child_keeps_flags:
  "leaf_kind l \<noteq> CHECK_PREDECESSOR \<Longrightarrow> leaf_keeps_flags l w (run_child clash env l w)"
  using leaf_run_keeps_flags [of l w env]
  by (auto simp: run_child_def leaf_keeps_flags_def elim!: res_bind_InrE split: if_splits)

lemma keeps_flags_child:
  assumes "leaf_keeps_flags l w r"
    and "\<And>l' w' sigs. leaf_kind l' = leaf_kind l \<Longrightarrow> leaf_oid l' = leaf_oid l \<Longrightarrow>
      w_stabilize_flag w' = w_stabilize_flag w \<Longrightarrow>
      w_check_predecessor_flag w' = w_check_predecessor_flag w \<Longrightarrow> w_now w' = w_now w \<Longrightarrow>
      keeps_flags m w (f (l', w', sigs))"
  shows "keeps_flags m w (res_bind r f)"
  using assms by (cases r) (auto simp: leaf_keeps_flags_def)

lemma join_start_child_keeps_flags:
  "leaf_kind l \<noteq> CHECK_PREDECESSOR \<Longrightarrow> keeps_flags j w (join_start_child env l j w)"
  unfolding join_start_child_def by (rule keeps_flags_child [OF run_child_keeps_flags]) auto

lemma new_oid_flags [simp]:
  "w_stabilize_flag (snd (new_oid w)) = w_stabilize_flag w"
  "w_check_predecessor_flag (snd (new_oid w)) = w_check_predecessor_flag w"
  "w_now (snd (new_oid w)) = w_now w"
  by (simp_all add: new_oid_def)

lemma keeps_flags_world:
  assumes "keeps_flags m w' r" "w_stabilize_flag w' = w_stabilize_flag w"
    "w_check_predecessor_flag w' = w_check_predecessor_flag w" "w_now w' = w_now w"
  shows "keeps_flags m w r"
  using assms(1) unfolding keeps_flags_def assms(2-4) .

lemma deps_keeps_flags:
  "keeps_flags (j\<lparr>jo_deps := ds\<rparr>) w r = keeps_flags j w r"
  "keeps_flags (b\<lparr>bf_deps := ds\<rparr>) w r' = keeps_flags b w r'"
  "keeps_flags (b\<lparr>bf_flag := x\<rparr>) w r' = keeps_flags b w r'"
  by (simp_all add: keeps_flags_def)

lemma join_notify_keeps_flags: "keeps_flags j w (join_notify env j w)"
  unfolding join_notify_def handle_query_notify_def handle_find_successor_notify_def
    handle_get_successor_list_notify_def
  by (auto simp: flag_simps split: leaf.split 
      intro!: keeps_flags_bind keeps_flags_world [OF join_start_child_keeps_flags])

lemma join_on_signal_keeps_flags: "keeps_flags j w (join_on_signal env s j w)"
  by (simp add: join_on_signal_def join_notify_keeps_flags)

lemma join_create_request_keeps_flags:
  "jo_deps j = [(l, e)] \<Longrightarrow> leaf_kind l \<noteq> CHECK_PREDECESSOR \<Longrightarrow>
     keeps_flags j w (join_create_request env j w)"
  unfolding join_create_request_def
  by (simp, rule keeps_flags_child [OF run_child_keeps_flags]) auto

lemma join_child_keeps_flags:
  assumes "leaf_keeps_flags l w r"
  shows "keeps_flags j w (join_child env r j)"
  unfolding join_child_def
proof (rule keeps_flags_child [OF assms])
  fix l' and w' :: world and sigs
  assume w': "w_stabilize_flag w' = w_stabilize_flag w"
    "w_check_predecessor_flag w' = w_check_predecessor_flag w" "w_now w' = w_now w"
  have "keeps_flags (j\<lparr>jo_deps := set_child l' (jo_deps j)\<rparr>) w'
    (absorb (join_on_signal env) sigs (j\<lparr>jo_deps := set_child l' (jo_deps j)\<rparr>) w')"
    by (rule keeps_flags_absorb) (rule join_on_signal_keeps_flags)
  from keeps_flags_world [OF this w'] show "keeps_flags j w (case (l', w', sigs) of (l, w, sigs) \<Rightarrow>
      absorb (join_on_signal env) sigs (j\<lparr>jo_deps := set_child l (jo_deps j)\<rparr>) w)"
    by (simp only: deps_keeps_flags split_conv)
qed

subsection \<open>BroadcastFilelist\<close>

lemma bf_on_signal_keeps_flags: "keeps_flags b w (bf_on_signal s b w)"
  by (auto simp: bf_on_signal_def bf_notify_def flag_simps split: signal.split)

lemma bf_child_keeps_flags:
  assumes "leaf_keeps_flags l w r"
  shows "keeps_flags b w (bf_child r b)"
  unfolding bf_child_def
proof (rule keeps_flags_child [OF assms])
  fix l' and w' :: world and sigs
  assume w': "w_stabilize_flag w' = w_stabilize_flag w"
    "w_check_predecessor_flag w' = w_check_predecessor_flag w" "w_now w' = w_now w"
  have "keeps_flags (b\<lparr>bf_deps := set_child l' (bf_deps b)\<rparr>) w'
    (absorb bf_on_signal sigs (b\<lparr>bf_deps := set_child l' (bf_deps b)\<rparr>) w')"
    by (rule keeps_flags_absorb) (rule bf_on_signal_keeps_flags)
  from keeps_flags_world [OF this w'] show "keeps_flags b w (case (l', w', sigs) of (l, w, sigs) \<Rightarrow>
      absorb bf_on_signal sigs (b\<lparr>bf_deps := set_child l (bf_deps b)\<rparr>) w)"
    by (simp only: deps_keeps_flags split_conv)
qed

lemma keeps_flags_trans:
  assumes "keeps_flags m w r"
    and "\<And>m' w' sigs. r = Inr (m', w', sigs) \<Longrightarrow> keeps_flags m' w' (f (m', w', sigs))"
  shows "keeps_flags m w (res_bind r f)"
proof (cases r)
  case (Inr x)
  obtain m' w' sigs where x: "x = (m', w', sigs)" by (cases x)
  show ?thesis
  proof (cases "f x")
    case Inr': (Inr y)
    obtain m'' w'' sigs'' where "y = (m'', w'', sigs'')" by (cases y)
    then show ?thesis using assms(1) assms(2) [OF Inr [unfolded x]] Inr Inr' x by auto
  qed (simp add: Inr)
qed simp

lemma bf_fetch_keeps_flags: "keeps_flags b w (bf_fetch env owner fs b w)"
proof (induction env owner fs b w rule: bf_fetch.induct)
  case (2 env owner f files b w)
  show ?case
  proof (cases "file_exists (file_name f) (w_storage w)")
    case True
    with 2(1) show ?thesis by simp
  next
    case False
    let ?l = "LGetFile (GetFile_new (w_next_oid w) owner f (w_now w))"
    let ?w = "w\<lparr>w_next_oid := Suc (w_next_oid w)\<rparr>"
    have new: "new_oid w = (w_next_oid w, ?w)" by (simp add: new_oid_def)
    have l: "leaf_keeps_flags ?l ?w (leaf_run env ?l ?w)" by (rule leaf_run_keeps_flags) simp
    have rest: "keeps_flags b w'
      (res_bind (absorb bf_on_signal sigs (b\<lparr>bf_deps := bf_deps b @ [(l, False)]\<rparr>) w')
        (\<lambda>(b3, w3, out3). res_bind (bf_fetch env owner files b3 w3)
          (\<lambda>(b4, w4, out4). Inr (b4, w4, out3 @ out4))))"
      if run: "leaf_run env ?l ?w = Inr (l, w', sigs)" for l w' sigs
    proof (rule keeps_flags_trans)
      show "keeps_flags b w' (absorb bf_on_signal sigs (b\<lparr>bf_deps := bf_deps b @ [(l, False)]\<rparr>) w')"
        using keeps_flags_absorb [where m = "b\<lparr>bf_deps := bf_deps b @ [(l, False)]\<rparr>" and w = w'
            and sigs = sigs, OF bf_on_signal_keeps_flags]
        by (simp only: deps_keeps_flags)
      fix b3 w3 out3
      assume "absorb bf_on_signal sigs (b\<lparr>bf_deps := bf_deps b @ [(l, False)]\<rparr>) w' = Inr (b3, w3, out3)"
      with 2(2) [OF False new [symmetric] refl] have "keeps_flags b3 w3 (bf_fetch env owner files b3 w3)" by simp
      then show "keeps_flags b3 w3 (case (b3, w3, out3) of (b3, w3, out3) \<Rightarrow>
          res_bind (bf_fetch env owner files b3 w3) (\<lambda>(b4, w4, out4). Inr (b4, w4, out3 @ out4)))"
        by (auto intro: keeps_flags_trans)
    qed
    show ?thesis
    proof (cases "leaf_run env ?l ?w")
      case Inl: (Inl e)
      then show ?thesis using False new by simp
    next
      case run: (Inr x)
      obtain l' w' sigs where x: "x = (l', w', sigs)" by (cases x)
      have w': "w_stabilize_flag w' = w_stabilize_flag w"
        "w_check_predecessor_flag w' = w_check_predecessor_flag w" "w_now w' = w_now w"
        using l run x by (simp_all add: leaf_keeps_flags_def)
      have "bf_fetch env owner (f # files) b w =
        (res_bind (absorb bf_on_signal sigs (b\<lparr>bf_deps := bf_deps b @ [(l', False)]\<rparr>) w')
          (\<lambda>(b3, w3, out3). res_bind (bf_fetch env owner files b3 w3)
            (\<lambda>(b4, w4, out4). Inr (b4, w4, out3 @ out4))))"
        using False new run x by simp
      then show ?thesis using keeps_flags_world [OF rest [OF run [unfolded x]] w'] by simp
    qed
  qed
qed simp

lemma bf_run_keeps_flags:
  "keeps_flags b w (bf_create_request env b w)" "keeps_flags b w (bf_handle_request env b w)"
proof -
  show "keeps_flags b w (bf_create_request env b w)"
    by (auto simp: bf_create_request_def bf_send_def flag_simps split: option.split list.split)
  show "keeps_flags b w (bf_handle_request env b w)"
  proof (cases "mb_request b")
    case (Some req)
    have fetch: "w_stabilize_flag w2 = w_stabilize_flag v \<and>
        w_check_predecessor_flag w2 = w_check_predecessor_flag v \<and> w_now w2 = w_now v \<and>
        mb_oid b2 = mb_oid b \<and> mb_time_point b2 \<in> {mb_time_point b, w_now v + DURATION}"
      if "bf_fetch env owner files (b\<lparr>bf_flag := False\<rparr>) v = Inr (b2, w2, sigs)"
      for owner files b2 w2 sigs and v :: world
      using bf_fetch_keeps_flags [of "b\<lparr>bf_flag := False\<rparr>" v env owner files] that by auto
    show ?thesis
      unfolding bf_handle_request_def Some
      by (auto simp: flag_simps bf_send_def split: option.split list.split
          intro!: keeps_flags_bind dest!: fetch)
  qed (simp add: bf_handle_request_def)
qed

subsection \<open>Stabilize\<close>

definition sb_step :: "Stabilize \<Rightarrow> world \<Rightarrow> Stabilize step \<Rightarrow> bool" where
  "sb_step s w r \<longleftrightarrow>
     (\<forall>s' w' sigs. r = Inr (s', w', sigs) \<longrightarrow>
        w_now w' = w_now w \<and> mb_time_point s' \<in> {mb_time_point s, w_now w + DURATION} \<and>
        w_check_predecessor_flag w' = w_check_predecessor_flag w \<and>
        (w_stabilize_flag w' \<longrightarrow> w_stabilize_flag w \<and>
           (holds_stabilize_flag (MStabilize s) \<longrightarrow> holds_stabilize_flag (MStabilize s'))))"

lemma sb_step_Inl [simp]: "sb_step s w (Inl e)"
  by (simp add: sb_step_def)

lemma sb_step_Inr [simp]:
  "sb_step s w (Inr (s', w', sigs)) \<longleftrightarrow>
     w_now w' = w_now w \<and> mb_time_point s' \<in> {mb_time_point s, w_now w + DURATION} \<and>
     w_check_predecessor_flag w' = w_check_predecessor_flag w \<and>
     (w_stabilize_flag w' \<longrightarrow> w_stabilize_flag w \<and>
        (holds_stabilize_flag (MStabilize s) \<longrightarrow> holds_stabilize_flag (MStabilize s')))"
  by (auto simp: sb_step_def)

lemma sb_step_bind:
  "(\<And>x. r = Inr x \<Longrightarrow> sb_step s w (f x)) \<Longrightarrow> sb_step s w (res_bind r f)"
  by (cases r) simp_all

lemma sb_step_trans:
  assumes "sb_step s w r"
    and "\<And>s' w' sigs. r = Inr (s', w', sigs) \<Longrightarrow> sb_step s' w' (f (s', w', sigs))"
  shows "sb_step s w (res_bind r f)"
proof (cases r)
  case (Inr x)
  obtain s' w' sigs where x: "x = (s', w', sigs)" by (cases x)
  show ?thesis
  proof (cases "f x")
    case Inr': (Inr y)
    obtain s'' w'' sigs'' where "y = (s'', w'', sigs'')" by (cases y)
    then show ?thesis using assms(1) assms(2) [OF Inr [unfolded x]] Inr Inr' x by auto
  qed (simp add: Inr)
qed simp

lemma sb_clear_flag_Inr:
  "sb_clear_flag s w = Inr w' \<Longrightarrow> w' = w\<lparr>w_stabilize_flag := False\<rparr>"
  by (auto simp: sb_clear_flag_def split: if_splits)

lemma sb_start_child_Inr:
  assumes "sb_start_child env l s w = Inr (s', w', sigs)" "leaf_kind l \<noteq> CHECK_PREDECESSOR"
  shows "\<exists>l'. s' = s\<lparr>sb_deps := (l', True) # sb_deps s\<rparr> \<and> leaf_kind l' = leaf_kind l \<and>
    w_stabilize_flag w' = w_stabilize_flag w \<and>
    w_check_predecessor_flag w' = w_check_predecessor_flag w \<and> w_now w' = w_now w"
  using assms run_child_keeps_flags [OF assms(2), of w Reentrant env]
  by (fastforce simp: sb_start_child_def leaf_keeps_flags_def elim!: res_bind_InrE)

lemma create_notification_Inr:
  assumes "create_notification env s w = Inr (s', w', sigs)"
  shows "mb_time_point s' = mb_time_point s \<and> w_stabilize_flag w' = w_stabilize_flag w \<and>
    w_check_predecessor_flag w' = w_check_predecessor_flag w \<and> w_now w' = w_now w"
  using assms
  by (auto simp: create_notification_def split_def dest!: sb_start_child_Inr)

lemma sb_failed_step: "sb_step s w (sb_failed s w)"
  by (auto simp: sb_failed_def finish_defs dest!: sb_clear_flag_Inr intro!: sb_step_bind)

lemma create_notification_step:
  assumes "\<not> w_stabilize_flag v" "w_check_predecessor_flag v = w_check_predecessor_flag w"
    "w_now v = w_now w" "mb_time_point s1 \<in> {mb_time_point s, w_now w + DURATION}"
  shows "sb_step s w (create_notification env s1 v)"
  using assms
  by (cases "create_notification env s1 v") (auto dest!: create_notification_Inr)

lemma sb_start_child_step:
  assumes "leaf_kind l \<in> {GET_PRED_AND_SUCC_LIST, GET_SELF_AND_SUCC_LIST}"
    and "mb_is_done s1 = mb_is_done s" "w_stabilize_flag v = w_stabilize_flag w"
    "w_check_predecessor_flag v = w_check_predecessor_flag w" "w_now v = w_now w"
    "mb_time_point s1 \<in> {mb_time_point s, w_now w + DURATION}"
  shows "sb_step s w (sb_start_child env l s1 v)"
proof (cases "sb_start_child env l s1 v")
  case (Inr x)
  then show ?thesis using assms by (cases x) (auto dest!: sb_start_child_Inr)
qed simp

lemma sb_pred_list_step: "sb_step s w (handle_get_pred_and_succ_list_notify env m s w)"
  unfolding handle_get_pred_and_succ_list_notify_def sb_failed_def
  by (auto simp: finish_defs Let_def split_def split: list.split option.split
      dest!: sb_clear_flag_Inr create_notification_Inr
      intro!: sb_step_bind create_notification_step sb_start_child_step)

lemma sb_self_list_step: "sb_step s w (handle_get_self_and_succ_list_notify env m s w)"
  unfolding handle_get_self_and_succ_list_notify_def
  by (auto simp: Let_def dest!: sb_clear_flag_Inr intro!: sb_step_bind create_notification_step)

lemma leaf_kind_mark_retrieved [simp]: "leaf_kind (mark_retrieved l) = leaf_kind l"
  by (cases l) (simp_all add: mark_retrieved_def)

lemma sb_step_holds:
  assumes "sb_step s1 w r" "mb_time_point s1 = mb_time_point s"
    "holds_stabilize_flag (MStabilize s) \<longrightarrow> holds_stabilize_flag (MStabilize s1)"
  shows "sb_step s w r"
  using assms by (cases r) (auto simp del: holds_stabilize_flag.simps)

lemma sb_notify_step: "sb_step s w (sb_notify env s w)"
proof (cases "sb_deps s")
  case (Cons d ds)
  obtain l e where d: "d = (l, e)" by (cases d)
  let ?s = "s\<lparr>sb_deps := (mark_retrieved l, e) # ds\<rparr>"
  have s: "holds_stabilize_flag (MStabilize s) \<longrightarrow> holds_stabilize_flag (MStabilize ?s)"
    by (simp add: Cons d)
  have "sb_step s w (handle_get_pred_and_succ_list_notify env m ?s w)"
    "sb_step s w (handle_get_self_and_succ_list_notify env m' ?s w)" for m m'
    using sb_step_holds [OF sb_pred_list_step _ s] sb_step_holds [OF sb_self_list_step _ s] by simp_all
  then show ?thesis
    by (cases l) (auto simp: sb_notify_def Let_def Cons d handle_notification_notify_def finish_defs
        sb_failed_step)
qed (simp add: sb_notify_def)

lemma sb_absorb_step: "sb_step s w (absorb (sb_on_signal env) sigs s w)"
proof (induction sigs arbitrary: s w)
  case (Cons sg sigs)
  have "sb_step s w (sb_on_signal env sg s w)" by (simp add: sb_on_signal_def sb_notify_step)
  then show ?case
    unfolding absorb.simps
    by (rule sb_step_trans) (auto intro!: sb_step_trans [OF Cons.IH])
qed simp

lemma set_child_kinds:
  assumes "find_child i ds = Some l" "leaf_oid l' = leaf_oid l" "leaf_kind l' = leaf_kind l"
  shows "ds \<noteq> [] \<and> set_child l' ds \<noteq> [] \<and>
    leaf_kind (fst (hd (set_child l' ds))) = leaf_kind (fst (hd ds))"
proof (cases ds)
  case (Cons d ds')
  obtain m e where "d = (m, e)" by (cases d)
  moreover from this have "leaf_oid m = i \<longrightarrow> m = l"
    using assms(1) by (auto simp: find_child_def Cons)
  moreover have "leaf_oid l = i"
    using assms(1) by (auto simp: find_child_def find_Some_iff)
  ultimately show ?thesis using assms(2,3) by (auto simp: set_child_def Cons)
qed (use assms in \<open>simp add: find_child_def\<close>)

lemma sb_child_step:
  assumes "leaf_keeps_flags l w r" "find_child i (sb_deps s) = Some l"
  shows "sb_step s w (sb_child env r s)"
proof (cases r)
  case (Inr x)
  obtain l' w' sigs where x: "x = (l', w', sigs)" by (cases x)
  have l': "leaf_oid l' = leaf_oid l" "leaf_kind l' = leaf_kind l"
    "w_stabilize_flag w' = w_stabilize_flag w"
    "w_check_predecessor_flag w' = w_check_predecessor_flag w" "w_now w' = w_now w"
    using assms(1) unfolding Inr x leaf_keeps_flags_Inr by simp_all
  let ?s = "s\<lparr>sb_deps := set_child l' (sb_deps s)\<rparr>"
  have "holds_stabilize_flag (MStabilize s) \<longrightarrow> holds_stabilize_flag (MStabilize ?s)"
    using set_child_kinds [OF assms(2) l'(1,2)] by simp
  then have step: "sb_step s w' (absorb (sb_on_signal env) sigs ?s w')"
    by (intro sb_step_holds [OF sb_absorb_step]) simp_all
  show ?thesis
  proof (cases "absorb (sb_on_signal env) sigs ?s w'")
    case Inr': (Inr y)
    obtain s' v sigs' where "y = (s', v, sigs')" by (cases y)
    then show ?thesis
      using step l'(3-5) by (simp add: sb_child_def Inr x Inr' del: holds_stabilize_flag.simps)
  qed (simp add: sb_child_def Inr x)
qed (simp add: sb_child_def)

text \<open>Starting a round: if the flag is still up afterwards, the new object holds it.\<close>

lemma sb_create_request_flags:
  assumes "sb_create_request env s w = Inr (s', w', sigs)" "\<not> mb_is_done s"
  shows "w_now w' = w_now w \<and> mb_time_point s' = mb_time_point s \<and>
    w_check_predecessor_flag w' = w_check_predecessor_flag w \<and>
    (w_stabilize_flag w' \<longrightarrow> holds_stabilize_flag (MStabilize s'))"
  using assms
  by (auto simp: sb_create_request_def split_def sb_failed_def finish_defs
      dest!: sb_start_child_Inr sb_clear_flag_Inr elim!: res_bind_InrE split: option.splits list.splits)

subsection \<open>Objects\<close>

lemma flags_step_Inl [simp]: "flags_step ob w (Inl e)"
  by (simp add: flags_step_def)

lemma flags_step_Inr:
  "flags_step ob w (Inr (ob', w', sigs)) \<longleftrightarrow>
     w_now w' = w_now w \<and> obj_time ob' \<le> max (obj_time ob) (w_now w + DURATION) \<and>
     (w_stabilize_flag w' \<longrightarrow>
        w_stabilize_flag w \<and> (holds_stabilize_flag ob \<longrightarrow> holds_stabilize_flag ob')) \<and>
     (w_check_predecessor_flag w' \<longrightarrow>
        w_check_predecessor_flag w \<and> (holds_check_flag ob \<longrightarrow> holds_check_flag ob'))"
  by (auto simp: flags_step_def)

lemma flags_step_join: "keeps_flags j w r \<Longrightarrow> flags_step (MJoin j) w (lift_step MJoin r)"
proof (cases r)
  case (Inr x)
  assume "keeps_flags j w r"
  then show ?thesis
    using Inr by (cases x) (auto simp: lift_step_def flags_step_Inr obj_time_def MessagingBase.defs)
qed (simp add: lift_step_def)

lemma flags_step_broadcast:
  "keeps_flags b w r \<Longrightarrow> flags_step (MBroadcast b) w (lift_step MBroadcast r)"
proof (cases r)
  case (Inr x)
  assume "keeps_flags b w r"
  then show ?thesis
    using Inr by (cases x) (auto simp: lift_step_def flags_step_Inr obj_time_def MessagingBase.defs)
qed (simp add: lift_step_def)

lemma flags_step_stabilize:
  "sb_step s w r \<Longrightarrow> flags_step (MStabilize s) w (lift_step MStabilize r)"
proof (cases r)
  case (Inr x)
  assume "sb_step s w r"
  then show ?thesis
    using Inr by (cases x) (auto simp: lift_step_def flags_step_Inr obj_time_def MessagingBase.defs)
qed (simp add: lift_step_def)

lemma child_kind:
  "child_kinds ks ds \<Longrightarrow> find_child i ds = Some l \<Longrightarrow> leaf_kind l \<in> ks"
proof -
  assume ks: "child_kinds ks ds" and "find_child i ds = Some l"
  then have "l \<in> set (map fst ds)" unfolding find_child_def find_Some_iff by (metis nth_mem)
  with ks show ?thesis by (auto simp: child_kinds_def)
qed

text \<open>What is delivered to an object: an answer or the result of a write.\<close>

definition delivery :: "(leaf \<Rightarrow> world \<Rightarrow> leaf step) \<Rightarrow> bool" where
  "delivery f \<longleftrightarrow>
     (\<forall>l w. flags_step (MLeaf l) w (lift_step MLeaf (f l w))) \<and>
     (\<forall>l w. leaf_kind l \<noteq> CHECK_PREDECESSOR \<longrightarrow> leaf_keeps_flags l w (f l w))"

lemma deliveries: "delivery (leaf_handle env h resp)" "delivery (leaf_on_write env b)"
  by (simp_all add: delivery_def flags_step_handle_leaf flags_step_write_leaf
      leaf_handle_keeps_flags leaf_on_write_keeps_flags)

lemma flags_step_same: "flags_step ob w (Inr (ob, w, []))"
  by (simp add: flags_step_Inr)

lemma obj_deliver_flags:
  assumes inv: "obj_inv ob" and f: "delivery f"
  shows "flags_step ob w (obj_deliver env i f ob w)"
proof (cases ob)
  case (MLeaf l)
  then show ?thesis using f by (simp add: delivery_def)
next
  case (MJoin j)
  show ?thesis
  proof (cases "find_child i (jo_deps j)")
    case (Some l)
    with inv MJoin have "leaf_kind l \<noteq> CHECK_PREDECESSOR" by (auto dest: child_kind)
    with f have "leaf_keeps_flags l w (f l w)" by (simp add: delivery_def)
    from flags_step_join [OF join_child_keeps_flags [OF this]] show ?thesis by (simp add: MJoin Some)
  qed (simp add: MJoin flags_step_same)
next
  case (MStabilize s)
  show ?thesis
  proof (cases "find_child i (sb_deps s)")
    case (Some l)
    with inv MStabilize have "leaf_kind l \<noteq> CHECK_PREDECESSOR" by (auto dest: child_kind)
    then have "sb_step s w (sb_child env (f l w) s)"
      using f Some by (intro sb_child_step [where l = l and i = i]) (simp_all add: delivery_def)
    then show ?thesis by (simp add: MStabilize Some flags_step_stabilize)
  qed (simp add: MStabilize flags_step_same)
next
  case (MBroadcast b)
  show ?thesis
  proof (cases "find_child i (bf_deps b)")
    case (Some l)
    with inv MBroadcast have "leaf_kind l \<noteq> CHECK_PREDECESSOR" by (auto dest: child_kind)
    with f have "leaf_keeps_flags l w (f l w)" by (simp add: delivery_def)
    from flags_step_broadcast [OF bf_child_keeps_flags [OF this]] show ?thesis
      by (simp add: MBroadcast Some)
  qed (simp add: MBroadcast flags_step_same)
qed

subsection \<open>The invariant of the node\<close>

definition held :: "message_obj list \<Rightarrow> world \<Rightarrow> bool" where
  "held obs w \<longleftrightarrow>
     (w_stabilize_flag w \<longrightarrow> (\<exists>ob \<in> set obs. holds_stabilize_flag ob)) \<and>
     (w_check_predecessor_flag w \<longrightarrow> (\<exists>ob \<in> set obs. holds_check_flag ob)) \<and>
     (\<forall>ob \<in> set obs. obj_time ob \<le> w_now w + DURATION)"

lemma deliver_now:
  assumes "\<forall>ob \<in> set obs. obj_inv ob" "delivery f" "deliver env i f obs w = Inr (obs', w', sigs)"
  shows "w_now w' = w_now w \<and>
    (w_stabilize_flag w' \<longrightarrow> w_stabilize_flag w) \<and>
    (w_check_predecessor_flag w' \<longrightarrow> w_check_predecessor_flag w) \<and>
    ((\<forall>ob \<in> set obs. obj_time ob \<le> w_now w + DURATION) \<longrightarrow>
       (\<forall>ob \<in> set obs'. obj_time ob \<le> w_now w + DURATION)) \<and>
    (w_stabilize_flag w' \<longrightarrow> (\<exists>ob \<in> set obs. holds_stabilize_flag ob) \<longrightarrow>
       (\<exists>ob \<in> set obs'. holds_stabilize_flag ob)) \<and>
    (w_check_predecessor_flag w' \<longrightarrow> (\<exists>ob \<in> set obs. holds_check_flag ob) \<longrightarrow>
       (\<exists>ob \<in> set obs'. holds_check_flag ob))"
  using assms
proof (induction obs arbitrary: obs' w' sigs)
  case (Cons ob obs)
  show ?case
  proof (cases "List.member (obj_oids ob) i")
    case True
    with Cons.prems(3) obtain ob' where o: "obj_deliver env i f ob w = Inr (ob', w', sigs)"
      "obs' = ob' # obs" by (auto elim!: res_bind_InrE)
    have "flags_step ob w (Inr (ob', w', sigs))"
      using obj_deliver_flags [of ob f w env i] Cons.prems(1,2) o(1) by simp
    then show ?thesis unfolding flags_step_Inr o(2) by auto
  next
    case False
    with Cons.prems(3) obtain obs'' where o: "deliver env i f obs w = Inr (obs'', w', sigs)"
      "obs' = ob # obs''" by (auto elim!: res_bind_InrE)
    show ?thesis using Cons.IH [OF _ Cons.prems(2) o(1)] Cons.prems(1) unfolding o(2) by auto
  qed
qed simp

lemma held_deliver:
  assumes "\<forall>ob \<in> set obs. obj_inv ob" "delivery f" "deliver env i f obs w = Inr (obs', w', sigs)"
    "held obs w"
  shows "held obs' w'"
  using deliver_now [OF assms(1-3)] assms(4) by (auto simp: held_def)

subsection \<open>New objects\<close>

text \<open>Running a new object in a node whose world was \<open>w\<close>.\<close>

definition run_flags :: "world \<Rightarrow> message_obj step \<Rightarrow> bool" where
  "run_flags w r \<longleftrightarrow>
     (\<forall>ob' w' sigs. r = Inr (ob', w', sigs) \<longrightarrow>
        w_now w' = w_now w \<and> obj_time ob' \<le> w_now w + DURATION \<and>
        (w_stabilize_flag w' \<longrightarrow> w_stabilize_flag w \<or> holds_stabilize_flag ob') \<and>
        (w_check_predecessor_flag w' \<longrightarrow> w_check_predecessor_flag w \<or> holds_check_flag ob'))"

lemma run_flags_Inl [simp]: "run_flags w (Inl e)"
  by (simp add: run_flags_def)

lemma run_flags_Inr:
  "run_flags w (Inr (ob', w', sigs)) \<longleftrightarrow>
     w_now w' = w_now w \<and> obj_time ob' \<le> w_now w + DURATION \<and>
     (w_stabilize_flag w' \<longrightarrow> w_stabilize_flag w \<or> holds_stabilize_flag ob') \<and>
     (w_check_predecessor_flag w' \<longrightarrow> w_check_predecessor_flag w \<or> holds_check_flag ob')"
  by (auto simp: run_flags_def)

lemma run_flags_step:
  "flags_step ob v r \<Longrightarrow> obj_time ob \<le> w_now w + DURATION \<Longrightarrow> w_now v = w_now w \<Longrightarrow>
     w_stabilize_flag v = w_stabilize_flag w \<Longrightarrow>
     w_check_predecessor_flag v = w_check_predecessor_flag w \<Longrightarrow> run_flags w r"
  by (cases r) (auto simp: run_flags_Inr flags_step_Inr)

abbreviation node_held :: "node \<Rightarrow> bool" where
  "node_held nd \<equiv> held (nd_active nd) (nd_world nd)"

lemma held_push:
  "held obs w \<Longrightarrow> run_flags w (Inr (ob', w', sigs)) \<Longrightarrow> held (obs @ [ob']) w'"
  by (auto simp: held_def run_flags_Inr)

lemma held_run_object:
  assumes "node_held nd" "run_flags (nd_world nd) (obj_run env ob w)"
    "run_object env ob (nd\<lparr>nd_world := w\<rparr>) = Inr nd'"
  shows "node_held nd'"
proof -
  obtain ob' w' sigs where r: "obj_run env ob w = Inr (ob', w', sigs)"
    using assms(3) by (auto simp: run_object_def elim!: res_bind_InrE)
  then have "nd_active nd' = nd_active nd @ [ob']" "nd_world nd' = w'"
    using assms(3) by (auto simp: run_object_def Let_def deque_push_back_def)
  then show ?thesis using held_push [of "nd_active nd" "nd_world nd" ob' w' sigs] assms(1,2) r by simp
qed

text \<open>The objects that the node makes.\<close>

lemma leaf_run_flags:
  assumes "leaf_kind l \<noteq> CHECK_PREDECESSOR" "leaf_time l \<le> w_now w + DURATION"
    "w_now v = w_now w" "w_stabilize_flag v = w_stabilize_flag w"
    "w_check_predecessor_flag v = w_check_predecessor_flag w"
  shows "run_flags w (obj_run env (MLeaf l) v)"
  using flags_step_leaf [OF leaf_run_keeps_flags [OF assms(1)] assms(1), of v env] assms
  by (auto intro!: run_flags_step [of "MLeaf l" v] simp: obj_time_def leaf_time_def)

lemma check_request_run_flags:
  assumes "mb_is_request_handler c" "mb_time_point c \<le> w_now w + DURATION"
    "w_now v = w_now w" "w_stabilize_flag v = w_stabilize_flag w"
    "w_check_predecessor_flag v = w_check_predecessor_flag w"
  shows "run_flags w (obj_run env (MLeaf (LCheckPredecessor c)) v)"
  using assms
  by (auto simp: run_message_def cp_handle_request_def lift_step_def finish_defs run_flags_def
      obj_time_def split_def res_bind_def split: option.splits sum.splits)

lemma check_run_flags:
  assumes "\<not> mb_is_request_handler c" "\<not> mb_is_done c" "mb_time_point c \<le> w_now w + DURATION"
    "w_now v = w_now w" "w_stabilize_flag v = w_stabilize_flag w"
    "w_check_predecessor_flag v = w_check_predecessor_flag w"
  shows "run_flags w (obj_run env (MLeaf (LCheckPredecessor c)) v)"
  using assms
  by (auto simp: run_message_def cp_create_request_def cp_set_flag_def lift_step_def finish_defs
      send_with_handler_eq Let_def run_flags_def obj_time_def split_def res_bind_def
      split: option.splits sum.splits if_splits)

lemma stabilize_run_flags:
  assumes "\<not> mb_is_request_handler s" "\<not> mb_is_done s" "mb_time_point s \<le> w_now w + DURATION"
    "w_now v = w_now w" "w_check_predecessor_flag v = w_check_predecessor_flag w"
  shows "run_flags w (obj_run env (MStabilize s) v)"
proof (cases "sb_create_request env s v")
  case (Inr x)
  obtain s' w' sigs where x: "x = (s', w', sigs)" by (cases x)
  show ?thesis
    using sb_create_request_flags [OF Inr [unfolded x] assms(2)] assms
    by (simp add: run_message_def lift_step_def Inr x run_flags_Inr obj_time_def)
qed (simp add: run_message_def lift_step_def assms(1))

lemma broadcast_run_flags:
  assumes "mb_time_point b \<le> w_now w + DURATION" "w_now v = w_now w"
    "w_stabilize_flag v = w_stabilize_flag w"
    "w_check_predecessor_flag v = w_check_predecessor_flag w"
  shows "run_flags w (obj_run env (MBroadcast b) v)"
proof -
  have "keeps_flags b v (run_message (bf_handle_request env) (bf_create_request env) b v)"
    by (intro keeps_flags_run bf_run_keeps_flags)
  from flags_step_broadcast [OF this] show ?thesis
    using assms by (auto intro!: run_flags_step [of "MBroadcast b" v] simp: obj_time_def)
qed

lemma join_run_flags:
  assumes "\<not> mb_is_request_handler j" "jo_deps j = [(LQuery q, e)]"
    "mb_time_point j \<le> w_now w + DURATION" "w_now v = w_now w"
    "w_stabilize_flag v = w_stabilize_flag w"
    "w_check_predecessor_flag v = w_check_predecessor_flag w"
  shows "run_flags w (obj_run env (MJoin j) v)"
  using flags_step_join [OF join_create_request_keeps_flags [OF assms(2)], of v env] assms
  by (auto intro!: run_flags_step [of "MJoin j" v] simp: obj_time_def run_message_def)

subsection \<open>The clean-up\<close>

lemma leaf_check_flags:
  assumes "leaf_check_state l w = Inr (st, l', w')"
  shows "w_now w' = w_now w \<and> leaf_time l' = leaf_time l \<and> leaf_kind l' = leaf_kind l \<and>
    w_stabilize_flag w' = w_stabilize_flag w \<and>
    (w_check_predecessor_flag w' \<longrightarrow> w_check_predecessor_flag w \<and>
       (holds_check_flag (MLeaf l) \<longrightarrow> holds_check_flag (MLeaf l')))"
  using assms
  by (cases l)
    (auto simp: lift_state_def check_state_def no_dependencies_def leaf_time_def MessagingBase.defs
      qu_handle_failed_def fs_handle_failed_def no_handle_failed_def cp_handle_failed_def
      cp_set_flag_def sl_handle_failed_def ss_handle_failed_def ps_handle_failed_def
      gf_handle_failed_def elim!: res_bind_InrE split: if_splits)

lemma any_expired_flags:
  "any_expired ds w = Inr (b, ds', w') \<Longrightarrow>
     w_now w' = w_now w \<and> w_stabilize_flag w' = w_stabilize_flag w \<and>
     (w_check_predecessor_flag w' \<longrightarrow> w_check_predecessor_flag w) \<and>
     map (leaf_kind \<circ> fst) ds' = map (leaf_kind \<circ> fst) ds"
proof (induction ds w arbitrary: b ds' w' rule: any_expired.induct)
  case (2 l e ds w)
  from "2.prems" obtain st l' v where c: "leaf_check_state l w = Inr (st, l', v)"
    by (auto elim!: res_bind_InrE)
  note l' = leaf_check_flags [OF c]
  show ?case
  proof (cases "(st = FAILED \<or> st = TIMEDOUT) \<and> e")
    case True
    with "2.prems" c l' show ?thesis by auto
  next
    case False
    with "2.prems" c obtain ds'' where r: "any_expired ds v = Inr (b, ds'', w')" "ds' = (l', e) # ds''"
      by (auto elim!: res_bind_InrE)
    from "2.IH" [OF False r(1)] l' r(2) show ?thesis by auto
  qed
qed simp

lemma sb_handle_failed_Inr:
  "sb_handle_failed s w = Inr (s', w') \<Longrightarrow>
     w_now w' = w_now w \<and> mb_time_point s' = mb_time_point s \<and> \<not> w_stabilize_flag w' \<and>
     w_check_predecessor_flag w' = w_check_predecessor_flag w"
  by (auto simp: sb_handle_failed_def Let_def dest!: sb_clear_flag_Inr elim!: res_bind_InrE split: if_splits)

lemma obj_check_flags:
  assumes "obj_check_state ob w = Inr (st, ob', w')"
  shows "flags_step ob w (Inr (ob', w', [])) \<and> obj_time ob' = obj_time ob"
proof (cases ob)
  case (MLeaf l)
  with assms obtain l' where "leaf_check_state l w = Inr (st, l', w')" "ob' = MLeaf l'"
    by (auto simp: lift_state_def elim!: res_bind_InrE)
  with leaf_check_flags [of l w st l' w'] show ?thesis
    by (auto simp: MLeaf flags_step_Inr obj_time_def leaf_time_def)
next
  case (MJoin j)
  with assms show ?thesis
    by (auto simp: lift_state_def check_state_def join_handle_failed_def join_any_expired_def
        flags_step_Inr obj_time_def MessagingBase.defs dest!: any_expired_flags
        elim!: res_bind_InrE split: if_splits)
next
  case (MBroadcast b)
  with assms show ?thesis
    by (auto simp: lift_state_def check_state_def bf_handle_failed_def bf_any_expired_def
        flags_step_Inr obj_time_def MessagingBase.defs dest!: any_expired_flags
        elim!: res_bind_InrE split: if_splits)
next
  case (MStabilize s)
  have front: "ds' \<noteq> [] \<and> leaf_kind (fst (hd ds')) = leaf_kind (fst (hd ds))"
    if "map (leaf_kind \<circ> fst) ds' = map (leaf_kind \<circ> fst) ds" "ds \<noteq> []"
    for ds ds' :: dependencies
    using that by (cases ds; cases ds') auto
  from MStabilize assms show ?thesis
    by (auto simp: lift_state_def check_state_def sb_any_expired_def flags_step_Inr obj_time_def
        MessagingBase.defs dest!: any_expired_flags sb_handle_failed_Inr dest: front
        elim!: res_bind_InrE split: if_splits)
qed

text \<open>What the clean-up removes is finished and holds no flag.\<close>

lemma obj_destroy_flags [simp]:
  "w_stabilize_flag (obj_destroy ob w) = w_stabilize_flag w"
  "w_check_predecessor_flag (obj_destroy ob w) = w_check_predecessor_flag w"
  "w_now (obj_destroy ob w) = w_now w"
proof -
  have "w_stabilize_flag (leaf_destroy l v) = w_stabilize_flag v \<and>
      w_check_predecessor_flag (leaf_destroy l v) = w_check_predecessor_flag v \<and>
      w_now (leaf_destroy l v) = w_now v" for l v
    by (cases l) (simp_all add: GetFile_destroy_def split: option.split)
  moreover from this have "w_stabilize_flag (fold (\<lambda>(l, e). leaf_destroy l) ds v) = w_stabilize_flag v \<and>
      w_check_predecessor_flag (fold (\<lambda>(l, e). leaf_destroy l) ds v) = w_check_predecessor_flag v \<and>
      w_now (fold (\<lambda>(l, e). leaf_destroy l) ds v) = w_now v" for v and ds :: dependencies
    by (induction ds arbitrary: v) auto
  ultimately show "w_stabilize_flag (obj_destroy ob w) = w_stabilize_flag w"
    "w_check_predecessor_flag (obj_destroy ob w) = w_check_predecessor_flag w"
    "w_now (obj_destroy ob w) = w_now w"
    by (simp_all add: obj_destroy_def split: message_obj.split)
qed

text \<open>The loop of the clean-up keeps the holders of the flags.\<close>

lemma check_object_flags:
  assumes "check_object (w, c) ob = (ob', w', c')"
  shows "flags_step ob w (Inr (ob', w', [])) \<and> obj_time ob' = obj_time ob"
proof (cases c)
  case (Some e)
  with assms show ?thesis by (simp add: check_object_def flags_step_Inr)
next
  case None
  show ?thesis
  proof (cases "obj_check_state ob w")
    case (Inl e)
    with None assms show ?thesis by (simp add: check_object_def flags_step_Inr)
  next
    case (Inr x)
    with None assms have "x = (fst x, ob', w')"
      by (cases x) (simp add: check_object_def)
    with Inr obj_check_flags [of ob w "fst x" ob' w'] show ?thesis by simp
  qed
qed

lemma set_swap_remove_other:
  assumes "i < length xs" "y \<in> set xs" "y \<noteq> xs ! i"
  shows "y \<in> set (butlast (xs[i := last xs]))"
proof -
  have "y \<in># mset xs - {#xs ! i#}" using assms(2,3) by (auto simp: in_diff_count)
  then show ?thesis using mset_swap_remove [OF assms(1)] by (metis set_mset_mset)
qed

lemma set_update_cases:
  assumes "i < length xs" "y \<in> set xs"
  shows "y = xs ! i \<or> y \<in> set (xs[i := x])"
proof -
  from assms(2) obtain k where "k < length xs" "y = xs ! k" by (auto simp: in_set_conv_nth)
  then show ?thesis by (cases "k = i") (auto simp: set_conv_nth intro: exI [of _ k])
qed

lemma destroy_object_pair [simp]: "destroy_object ob (w, c) = (obj_destroy ob w, c)"
  by (simp add: destroy_object_def)

lemma held_world:
  "held obs (obj_destroy ob w) = held obs w"
  by (simp add: held_def)

lemma held_update:
  assumes "flags_step (xs ! i) w (Inr (x, w', [])) \<and> obj_time x = obj_time (xs ! i)"
    "i < length xs" "held xs w"
  shows "held (xs[i := x]) w'"
proof -
  note f = assms(1) [unfolded flags_step_Inr]
  have x: "x \<in> set (xs[i := x])" using assms(2) by (rule set_update_memI)
  have "\<exists>ob \<in> set (xs[i := x]). holds_stabilize_flag ob" if "w_stabilize_flag w'"
    using that f assms(3) x set_update_cases [OF assms(2), of _ x] unfolding held_def by metis
  moreover have "\<exists>ob \<in> set (xs[i := x]). holds_check_flag ob" if "w_check_predecessor_flag w'"
    using that f assms(3) x set_update_cases [OF assms(2), of _ x] unfolding held_def by metis
  moreover have "obj_time ob \<le> w_now w' + DURATION" if "ob \<in> set (xs[i := x])" for ob
  proof -
    from that set_update_subset_insert [of xs i x] have "ob = x \<or> ob \<in> set xs" by auto
    then show ?thesis using f assms(2,3) by (auto simp: held_def)
  qed
  ultimately show ?thesis by (simp add: held_def)
qed

lemma held_remove:
  assumes "i < length xs" "obj_is_done (xs ! i)" "held xs w"
  shows "held (butlast (xs[i := last xs])) w"
proof -
  have "ob \<in> set (butlast (xs[i := last xs]))" if "ob \<in> set xs" "\<not> obj_is_done ob" for ob
    using that assms(2) by (intro set_swap_remove_other [OF assms(1)]) auto
  then have "\<exists>ob \<in> set (butlast (xs[i := last xs])). P ob"
    if "\<exists>ob \<in> set xs. P ob" "\<And>ob. P ob \<Longrightarrow> \<not> obj_is_done ob" for P
    using that by blast
  moreover have "set (butlast (xs[i := last xs])) \<subseteq> set xs"
  proof
    fix ob assume "ob \<in> set (butlast (xs[i := last xs]))"
    then have "ob \<in> insert (last xs) (set xs)"
      using set_update_subset_insert [of xs i "last xs"] by (blast dest: in_set_butlastD)
    moreover have "last xs \<in> set xs" using assms(1) by (intro last_in_set) auto
    ultimately show "ob \<in> set xs" by auto
  qed
  ultimately show ?thesis
    using assms(3) holds_not_done unfolding held_def by blast
qed

lemma clean_loop_held:
  "held xs (fst s) \<Longrightarrow>
     held (fst (clean_loop check_object obj_is_done destroy_object i xs s))
       (fst (snd (clean_loop check_object obj_is_done destroy_object i xs s))) \<and>
     w_now (fst (snd (clean_loop check_object obj_is_done destroy_object i xs s))) = w_now (fst s)"
proof (induction i xs s rule: clean_loop_induct
    [where check = check_object and fin = obj_is_done and gone = destroy_object])
  case (stop i xs s)
  then show ?case by (simp add: clean_loop_end)
next
  case (keep i xs s x s')
  obtain w c where s: "s = (w, c)" by (cases s)
  obtain w' c' where s': "s' = (w', c')" by (cases s')
  note f = check_object_flags [OF keep.hyps(2) [unfolded s s'], unfolded flags_step_Inr]
  have "held (xs[i := x]) (fst s')"
    using held_update [OF check_object_flags [OF keep.hyps(2) [unfolded s s']] keep.hyps(1)] keep.prems
    by (simp add: s s')
  from keep.IH [OF this] f show ?case
    unfolding clean_loop_keep
        [where check = check_object and fin = obj_is_done and gone = destroy_object and s = s and s' = s' and x = x and i = i and xs = xs, OF keep.hyps] by (simp add: s s')
next
  case (drop i xs s x s')
  obtain w c where s: "s = (w, c)" by (cases s)
  obtain w' c' where s': "s' = (w', c')" by (cases s')
  note f = check_object_flags [OF drop.hyps(2) [unfolded s s'], unfolded flags_step_Inr]
  have "held (xs[i := x]) w'"
    using held_update [OF check_object_flags [OF drop.hyps(2) [unfolded s s']] drop.hyps(1)] drop.prems
    by (simp add: s)
  then have "held (butlast (xs[i := last (xs[i := x])])) (fst (destroy_object x s'))"
    using held_remove [of i "xs[i := x]" w'] drop.hyps(1,3)
    by (simp add: s' held_world)
  from drop.IH [OF this] f show ?case
    unfolding clean_loop_drop
        [where check = check_object and fin = obj_is_done and gone = destroy_object and s = s and s' = s' and x = x and i = i and xs = xs, OF drop.hyps] by (simp add: s s')
qed

lemma node_clean_held:
  assumes "node_held nd" "node_clean nd = Inr nd'"
  shows "node_held nd'"
proof -
  obtain obs w c where d: "deque_clean check_object obj_is_done destroy_object (nd_active nd)
      (nd_world nd, None :: crash option) = (obs, w, c)"
    by (cases "deque_clean check_object obj_is_done destroy_object (nd_active nd)
      (nd_world nd, None :: crash option)")
  then have "nd_active nd' = obs" "nd_world nd' = w"
    using assms(2) by (auto simp: node_clean_def split: option.splits)
  then show ?thesis
    using clean_loop_held [of "nd_active nd" "(nd_world nd, None)" 0] assms(1) d
    by (simp add: deque_clean_def)
qed

subsection \<open>All steps\<close>

lemma node_deliver_held:
  assumes inv: "\<forall>ob \<in> set (nd_active nd). obj_inv ob" and "delivery f" "node_held nd" "node_deliver env i f nd = Inr nd'"
  shows "node_held nd'"
proof -
  obtain obs w sigs where d: "deliver env i f (nd_active nd) (nd_world nd) = Inr (obs, w, sigs)"
    "nd_active nd' = obs" "nd_world nd' = w"
    using assms(4) by (auto simp: node_deliver_def elim!: res_bind_InrE)
  from held_deliver [OF inv assms(2) d(1) assms(3)] d(2,3) show ?thesis by simp
qed

lemma handle_response_held:
  assumes inv: "\<forall>ob \<in> set (nd_active nd). obj_inv ob" and h: "node_held nd"
    and r: "handle_response env resp nd = Inr nd'"
  shows "node_held nd'"
proof -
  obtain cid where cid: "ro_get_correlational_id resp = Inr cid"
    using r by (auto simp: handle_response_def elim!: res_bind_InrE)
  obtain x hs where g:
    "get_and_erase_if ho_correlation_id (\<lambda>h. \<not> ho_is_persistent h) cid (nd_handlers nd) = (x, hs)"
    by (cases "get_and_erase_if ho_correlation_id (\<lambda>h. \<not> ho_is_persistent h) cid (nd_handlers nd)")
  let ?nd = "nd\<lparr>nd_handlers := hs\<rparr>"
  have r': "(case x of None \<Rightarrow> Inr ?nd
    | Some k \<Rightarrow> if handler_is_valid (alive_oids (nd_active ?nd)) k
        then node_deliver env (ho_parent k) (leaf_handle env (ho_handler k) resp) ?nd
        else Inr ?nd) = Inr nd'"
    using r by (simp only: handle_response_def cid res_bind_simps g Let_def split_conv)
  have active: "nd_active ?nd = nd_active nd" and hs_world: "nd_world ?nd = nd_world nd" by simp_all
  have same: "node_held nd'" if "nd' = ?nd" using that h by simp
  show ?thesis
  proof (cases x)
    case None
    with r' same show ?thesis by simp
  next
    case (Some k)
    show ?thesis
    proof (cases "handler_is_valid (alive_oids (nd_active ?nd)) k")
      case True
      have d: "node_deliver env (ho_parent k) (leaf_handle env (ho_handler k) resp) ?nd = Inr nd'"
        using r' unfolding Some option.case if_P [OF True] .
      show ?thesis
        by (rule node_deliver_held [OF _ deliveries(1) _ d], unfold active hs_world, rule inv, rule h)
    next
      case False
      show ?thesis
        using r' unfolding Some option.case if_not_P [OF False] by (simp add: same)
    qed
  qed
qed

lemma on_write_held:
  assumes "\<forall>ob \<in> set (nd_active nd). obj_inv ob" "node_held nd" "on_write env i failed nd = Inr nd'"
  shows "node_held nd'"
  using assms node_deliver_held [OF assms(1) deliveries(2) assms(2)]
  by (auto simp: on_write_def split: if_splits)

lemmas request_new_defs =
  Notification_new_request_def CheckPredecessor_new_request_def Query_new_request_def
  FindSuccessor_new_request_def GetSuccessorList_new_request_def
  GetPredAndSuccList_new_request_def GetSelfAndSuccList_new_request_def GetFile_new_request_def
  BroadcastFilelist_new_request_def MessagingBase_new_request_def MessagingBase.defs
  Notification.defs CheckPredecessor.defs Query.defs FindSuccessor.defs GetSuccessorList.defs
  GetPredAndSuccList.defs GetSelfAndSuccList.defs GetFile.defs BroadcastFilelist.defs

lemma create_from_request_world:
  assumes "create_from_request r w = Inr (ob, v)"
  shows "w_now v = w_now w \<and> w_stabilize_flag v = w_stabilize_flag w \<and>
    w_check_predecessor_flag v = w_check_predecessor_flag w"
  using assms
  by (auto simp: create_from_request_def Let_def split_def elim!: res_bind_InrE split: if_splits)

lemma create_from_request_run:
  assumes "create_from_request r w = Inr (Some m, v)"
  shows "run_flags w (obj_run env m v)"
proof -
  note v = create_from_request_world [OF assms]
  consider (check) "m = MLeaf (LCheckPredecessor (CheckPredecessor_new_request (w_next_oid w) r (w_now w)))"
    | (bc) "m = MBroadcast (BroadcastFilelist_new_request (w_next_oid w) r (w_now w))"
    | (leaf) l where "m = MLeaf l" "leaf_kind l \<noteq> CHECK_PREDECESSOR" "leaf_time l = w_now w + DURATION"
    using assms
    by (auto simp: create_from_request_def Let_def split_def leaf_time_def request_new_defs
        elim!: res_bind_InrE split: if_splits)
  then show ?thesis
  proof cases
    case check
    show ?thesis
      unfolding check using v by (intro check_request_run_flags) (simp_all add: request_new_defs)
  next
    case bc
    show ?thesis
      unfolding bc using v by (intro broadcast_run_flags) (simp_all add: request_new_defs)
  next
    case leaf
    show ?thesis
      unfolding leaf(1) using v leaf(2,3) by (intro leaf_run_flags) simp_all
  qed
qed

lemma handle_request_held:
  assumes "node_held nd" "handle_request env r nd = Inr nd'"
  shows "node_held nd'"
proof -
  obtain ob v where c: "create_from_request r (nd_world nd) = Inr (ob, v)"
    using assms(2) by (auto simp: handle_request_def elim!: res_bind_InrE)
  show ?thesis
  proof (cases ob)
    case None
    then have "nd' = nd\<lparr>nd_world := v\<rparr>" using assms(2) c by (simp add: handle_request_def)
    then show ?thesis using create_from_request_world [OF c] assms(1) by (simp add: held_def)
  next
    case (Some m)
    have "run_object env m (nd\<lparr>nd_world := v\<rparr>) = Inr nd'"
      using assms(2) c by (simp add: handle_request_def Some Let_def)
    with assms(1) create_from_request_run [OF c [unfolded Some]] show ?thesis
      by (rule held_run_object)
  qed
qed

text \<open>The local requests.\<close>

lemma handler_stabilize_held:
  assumes "node_held nd" "handler_stabilize env nd = Inr nd'"
  shows "node_held nd'"
proof -
  let ?N = "w_next_oid (nd_world nd)"
  let ?w = "(nd_world nd)\<lparr>w_stabilize_flag := True, w_next_oid := Suc ?N\<rparr>"
  let ?s = "Stabilize_new ?N (w_now (nd_world nd))"
  have "run_flags (nd_world nd) (obj_run env (MStabilize ?s) ?w)"
    by (rule stabilize_run_flags)
      (simp_all add: Stabilize_new_def MessagingBase.defs MessagingBase_new_def Stabilize.defs)
  moreover have "run_object env (MStabilize ?s) (nd\<lparr>nd_world := ?w\<rparr>) = Inr nd'"
    using assms(2) by (simp add: handler_stabilize_def with_new_oid_def split_def)
  ultimately show ?thesis by (rule held_run_object [OF assms(1)])
qed

lemma handler_check_predecessor_held:
  assumes "node_held nd" "handler_check_predecessor env nd = Inr nd'"
  shows "node_held nd'"
proof -
  let ?N = "w_next_oid (nd_world nd)"
  let ?w = "(nd_world nd)\<lparr>w_next_oid := Suc ?N\<rparr>"
  let ?c = "CheckPredecessor_new ?N (w_now (nd_world nd))"
  have "run_flags (nd_world nd) (obj_run env (MLeaf (LCheckPredecessor ?c)) ?w)"
    by (rule check_run_flags) (simp_all add: leaf_new_defs)
  moreover have "run_object env (MLeaf (LCheckPredecessor ?c)) (nd\<lparr>nd_world := ?w\<rparr>) = Inr nd'"
    using assms(2) by (simp add: handler_check_predecessor_def with_new_oid_def split_def)
  ultimately show ?thesis by (rule held_run_object [OF assms(1)])
qed

lemma handler_broadcast_held:
  assumes "node_held nd" "handler_broadcast env nd = Inr nd'"
  shows "node_held nd'"
proof -
  let ?N = "w_next_oid (nd_world nd)"
  let ?w = "(nd_world nd)\<lparr>w_next_oid := Suc ?N\<rparr>"
  let ?b = "BroadcastFilelist_new ?N (w_now (nd_world nd))"
  have "run_flags (nd_world nd) (obj_run env (MBroadcast ?b) ?w)"
    by (rule broadcast_run_flags)
      (simp_all add: BroadcastFilelist_new_def MessagingBase.defs MessagingBase_new_def
        BroadcastFilelist.defs)
  moreover have "run_object env (MBroadcast ?b) (nd\<lparr>nd_world := ?w\<rparr>) = Inr nd'"
    using assms(2) by (simp add: handler_broadcast_def with_new_oid_def split_def)
  ultimately show ?thesis by (rule held_run_object [OF assms(1)])
qed

lemma handler_join_held:
  assumes "node_held nd" "handler_join env a p nd = Inr nd'"
  shows "node_held nd'"
proof -
  let ?N = "w_next_oid (nd_world nd)"
  let ?w = "(nd_world nd)\<lparr>w_next_oid := Suc ?N\<rparr>"
  let ?j = "fst (Join_new ?N a p ?w)" and ?v = "snd (Join_new ?N a p ?w)"
  have "run_flags (nd_world nd) (obj_run env (MJoin ?j) ?v)"
    by (rule join_run_flags [where e = True])
      (simp_all add: Join_new_def split_def Let_def MessagingBase.defs MessagingBase_new_def Join.defs)
  moreover have "run_object env (MJoin ?j) (nd\<lparr>nd_world := ?v\<rparr>) = Inr nd'"
    using assms(2) by (simp add: handler_join_def with_new_oid_def split_def Let_def)
  ultimately show ?thesis by (rule held_run_object [OF assms(1)])
qed

lemma run_chord_round_held:
  assumes "node_held nd" "run_chord_round env nd = Inr nd'"
  shows "node_held nd'"
proof -
  obtain nd1 where 1: "(if \<not> w_stabilize_flag (nd_world nd) then handler_stabilize env nd else Inr nd) = Inr nd1"
    using assms(2) by (auto simp: run_chord_round_def elim!: res_bind_InrE)
  then have h1: "node_held nd1" using assms(1) handler_stabilize_held by (auto split: if_splits)
  obtain nd2 where 2: "(if \<not> w_check_predecessor_flag (nd_world nd1)
      then handler_check_predecessor env nd1 else Inr nd1) = Inr nd2" "node_clean nd2 = Inr nd'"
    using assms(2) 1 by (auto simp: run_chord_round_def elim!: res_bind_InrE)
  then have "node_held nd2" using h1 handler_check_predecessor_held by (auto split: if_splits)
  then show ?thesis using 2(2) by (rule node_clean_held)
qed

lemma receive_held:
  assumes inv: "\<forall>ob \<in> set (nd_active nd). obj_inv ob" and h: "node_held nd"
    and "receive env parse buf s nd = Inr nd'"
  shows "node_held nd'"
proof -
  obtain r where "dispatch env r nd = Inr nd'"
    using assms(3) by (auto simp: receive_def elim!: res_bind_InrE)
  then show ?thesis
    using handle_request_held [OF h] handle_response_held [OF inv h]
    by (auto simp: dispatch_def elim!: res_bind_InrE split: if_splits)
qed

lemma node_step_held:
  assumes "node_inv nd" "node_held nd" "node_step env parse ser resolves ev nd = Inr nd'"
  shows "node_held nd'"
proof -
  have inv: "\<forall>ob \<in> set (nd_active nd). obj_inv ob" using assms(1) by (auto simp: node_inv_def)
  show ?thesis
  proof (cases ev)
    case (EvReceive buf s)
    then show ?thesis using assms(3) receive_held [OF inv assms(2)] by simp
  next
    case (EvWritten i failed)
    then show ?thesis using assms(3) on_write_held [OF inv assms(2)] by simp
  next
    case EvChord
    then show ?thesis using assms(3) run_chord_round_held [OF assms(2)] by simp
  next
    case EvPaste
    then show ?thesis using assms(3) handler_broadcast_held [OF assms(2)] by (simp add: run_paste_round_def)
  next
    case (EvJoin a p)
    then show ?thesis using assms(3) handler_join_held [OF assms(2)] by simp
  next
    case EvSend
    then have "nd_active nd' = nd_active nd \<and> nd_world nd' = nd_world nd"
      using assms(3) by (auto simp: run_send_def Let_def split_def elim!: res_bind_InrE split: option.splits)
    then show ?thesis using assms(2) by simp
  next
    case (EvTick ms)
    then show ?thesis using assms(2,3) by (fastforce simp: held_def)
  qed
qed

lemma node_reachable_held:
  "node_reachable env parse ser resolves nd \<Longrightarrow> node_held nd"
proof (induction rule: node_reachable.induct)
  case (started entries ip port s p t db fs can now)
  show ?case
    by (simp add: held_def handler_init_def MessageHandler_new_def split_def Let_def rt_simps
        split: option.split)
next
  case (stepped nd ev nd')
  then show ?case using node_step_held node_reachable_inv by blast
qed


subsection \<open>When everything has expired\<close>

lemma check_state_expired:
  "check_state f e ob w = Inr (st, ob', w') \<Longrightarrow> mb_time_point ob < w_now w \<Longrightarrow>
     (\<And>x y x' y'. f x y = Inr (x', y') \<Longrightarrow> mb_is_done x \<Longrightarrow> mb_is_done x') \<Longrightarrow> mb_is_done ob'"
  by (auto simp: check_state_def elim!: res_bind_InrE split: if_splits)

lemma obj_check_expired:
  assumes "obj_check_state ob w = Inr (st, ob', w')" "obj_time ob < w_now w"
  shows "obj_is_done ob'"
proof (cases ob)
  case (MLeaf l)
  with assms show ?thesis
    by (cases l)
      (auto simp: lift_state_def obj_time_def leaf_is_done_def MessagingBase.defs cp_set_flag_def
        qu_handle_failed_def fs_handle_failed_def no_handle_failed_def cp_handle_failed_def
        sl_handle_failed_def ss_handle_failed_def ps_handle_failed_def gf_handle_failed_def
        elim!: res_bind_InrE dest!: check_state_expired)
next
  case (MJoin j)
  with assms show ?thesis
    by (auto simp: lift_state_def obj_time_def MessagingBase.defs join_handle_failed_def
        elim!: res_bind_InrE dest!: check_state_expired)
next
  case (MStabilize s)
  with assms show ?thesis
    by (auto simp: lift_state_def obj_time_def MessagingBase.defs sb_handle_failed_def
        elim!: res_bind_InrE dest!: check_state_expired)
next
  case (MBroadcast b)
  with assms show ?thesis
    by (auto simp: lift_state_def obj_time_def MessagingBase.defs bf_handle_failed_def
        elim!: res_bind_InrE dest!: check_state_expired)
qed

lemma check_object_expired:
  assumes "obj_inv ob \<and> obj_time ob < T" "world_inv w" "w_now w = T"
  shows "\<exists>ob' w'. check_object (w, None) ob = (ob', w', None) \<and> obj_is_done ob' \<and>
    world_inv w' \<and> w_now w' = T \<and> obj_inv ob' \<and> obj_time ob' < T"
proof -
  obtain st ob' w' where c: "obj_check_state ob w = Inr (st, ob', w')" "obj_inv ob'" "world_inv w'"
    using obj_check_ok [of ob w] assms by (auto simp: obj_checked_def)
  have "w_now w' = w_now w" "obj_time ob' = obj_time ob"
    using obj_check_flags [OF c(1)] by (simp_all add: flags_step_Inr)
  with c assms show ?thesis using obj_check_expired [OF c(1)] by (simp add: check_object_def)
qed

lemma node_clean_expired:
  assumes inv: "node_inv nd" and old: "\<forall>ob \<in> set (nd_active nd). obj_time ob < w_now (nd_world nd)"
  shows "\<exists>nd'. node_clean nd = Inr nd' \<and> nd_active nd' = []"
proof -
  obtain nd' where c: "node_clean nd = Inr nd'" using node_clean_ok [OF inv] by auto
  let ?T = "w_now (nd_world nd)"
  have "fst (clean_loop check_object obj_is_done destroy_object 0 (nd_active nd) (nd_world nd, None)) = []"
  proof (rule clean_loop_empty [where I = "\<lambda>(w, c). world_inv w \<and> w_now w = ?T \<and> c = None"
        and Q = "\<lambda>ob. obj_inv ob \<and> obj_time ob < ?T"])
    fix s :: "world \<times> crash option" and ob
    assume I: "case s of (w, c) \<Rightarrow> world_inv w \<and> w_now w = ?T \<and> c = None" and Q: "obj_inv ob \<and> obj_time ob < ?T"
    then obtain w where s: "s = (w, None)" "world_inv w" "w_now w = ?T" by auto
    obtain ob' w' where c: "check_object (w, None) ob = (ob', w', None)" "obj_is_done ob'"
      "world_inv w'" "w_now w' = ?T" "obj_inv ob'" using check_object_expired [OF Q s(2,3)] by blast
    have "world_inv (obj_destroy ob' w')"
      using c(3) by (simp add: obj_destroy_ok)
    then show "obj_is_done (fst (check_object s ob)) \<and>
      (case destroy_object (fst (check_object s ob)) (snd (check_object s ob)) of
         (w, c) \<Rightarrow> world_inv w \<and> w_now w = ?T \<and> c = None)"
      using c s(1) by simp
  next
    show "case (nd_world nd, None :: crash option) of (w, c) \<Rightarrow> world_inv w \<and> w_now w = ?T \<and> c = None"
      using inv by (simp add: node_inv_def)
    show "\<forall>ob \<in> set (nd_active nd). obj_inv ob \<and> obj_time ob < ?T"
      using inv old by (auto simp: node_inv_def)
  qed
  then have "nd_active nd' = []"
    using c by (auto simp: node_clean_def deque_clean_def split_def Let_def split: option.splits)
  with c show ?thesis by blast
qed

subsection \<open>Properties\<close>

text \<open>C18. In every reachable node a raised \<open>stabilize_flag_\<close> belongs to an unfinished \<open>Stabilize\<close> that
  still waits for its first list and a raised \<open>check_predecessor_flag_\<close> to an unfinished
  \<open>CheckPredecessor\<close>, and every object is cleaned up at most \<open>DURATION\<close> from now unless it hears
  from its peer before.\<close>

theorem flags_have_holder:
  assumes "node_reachable env parse ser resolves nd"
  shows "(w_stabilize_flag (nd_world nd) \<longrightarrow>
       (\<exists>ob \<in> set (nd_active nd). holds_stabilize_flag ob \<and> \<not> obj_is_done ob)) \<and>
    (w_check_predecessor_flag (nd_world nd) \<longrightarrow>
       (\<exists>ob \<in> set (nd_active nd). holds_check_flag ob \<and> \<not> obj_is_done ob)) \<and>
    (\<forall>ob \<in> set (nd_active nd). obj_time ob \<le> w_now (nd_world nd) + DURATION)"
  using node_reachable_held [OF assms] holds_not_done unfolding held_def by blast

lemma flags_have_holder_witness:
  "\<exists>nd. handler_join example_env ''10.0.0.2'' ''1337'' example_node = Inr nd \<and>
    length (nd_active nd) = 1 \<and> obj_time (hd (nd_active nd)) \<le> w_now (nd_world nd) + DURATION"
proof -
  obtain nd where nd: "handler_join example_env ''10.0.0.2'' ''1337'' example_node = Inr nd"
    "length (nd_active nd) = 1" using example_join by blast
  then have "node_step example_env undefined undefined undefined (EvJoin ''10.0.0.2'' ''1337'')
    example_node = Inr nd" by simp
  from flags_have_holder [OF node_reachable.stepped [OF example_node_reachable this]] nd
  show ?thesis by (cases "nd_active nd") auto
qed

text \<open>C7. After more than \<open>DURATION\<close> without a message, the clean-up of any reachable node succeeds,
  leaves no object behind and finds both flags down, so that the next round starts a new
  stabilisation and a new check of the predecessor: no lost answer stops the maintenance.\<close>

theorem flags_always_released:
  assumes "node_reachable env parse ser resolves nd"
  shows "\<exists>nd1 nd'. node_step env parse ser resolves (EvTick (DURATION + 1)) nd = Inr nd1 \<and>
    node_clean nd1 = Inr nd' \<and> nd_active nd' = [] \<and>
    \<not> w_stabilize_flag (nd_world nd') \<and> \<not> w_check_predecessor_flag (nd_world nd')"
proof -
  let ?nd = "nd\<lparr>nd_world := (nd_world nd)\<lparr>w_now := w_now (nd_world nd) + (DURATION + 1)\<rparr>\<rparr>"
  have step: "node_step env parse ser resolves (EvTick (DURATION + 1)) nd = Inr ?nd" by simp
  then have r: "node_reachable env parse ser resolves ?nd"
    using node_reachable.stepped [OF assms] by blast
  have "\<forall>ob \<in> set (nd_active ?nd). obj_time ob < w_now (nd_world ?nd)"
    using node_reachable_held [OF assms] by (fastforce simp: held_def)
  then obtain nd' where c: "node_clean ?nd = Inr nd'" "nd_active nd' = []"
    using node_clean_expired [OF node_reachable_inv [OF r]] by blast
  have "node_held nd'" using node_clean_held [OF node_reachable_held [OF r] c(1)] .
  with c step show ?thesis by (auto simp: held_def)
qed

lemma flags_always_released_witness:
  "\<exists>nd nd1 nd'. handler_join example_env ''10.0.0.2'' ''1337'' example_node = Inr nd \<and>
    length (nd_active nd) = 1 \<and>
    node_step example_env undefined undefined undefined (EvTick (DURATION + 1)) nd = Inr nd1 \<and>
    node_clean nd1 = Inr nd' \<and> nd_active nd' = []"
proof -
  obtain nd where nd: "handler_join example_env ''10.0.0.2'' ''1337'' example_node = Inr nd"
    "length (nd_active nd) = 1" using example_join by blast
  then have "node_step example_env undefined undefined undefined (EvJoin ''10.0.0.2'' ''1337'')
    example_node = Inr nd" by simp
  from flags_always_released [OF node_reachable.stepped [OF example_node_reachable this]] nd
  show ?thesis by blast
qed

end
