(* ===== verification/Session_Writes.thy ===== *)
theory Session_Writes
  imports Framing Request
begin

section \<open>The ways to write on a session\<close>

text \<open>
  \<open>write\<close>, \<open>write_direct\<close> and \<open>write_to\<close> of \<open>boost_session.cpp\<close>. \<open>write\<close> posts \<open>queue_message\<close> to the
  write strand; \<open>write_direct\<close> posts a write of its own that does not look at the queue and calls a
  handler when it ends; \<open>write_to\<close> connects first and then calls \<open>write\<close>.

  The record \<open>asio_session\<close> adds to a \<open>session\<close> what Boost.Asio holds for these functions: what is
  posted to the strand, the connect in progress, and the direct writes in progress with the bytes
  that are still to go out. A write in progress goes out in pieces of any size.
\<close>

datatype posted =
    PostQueue "byte list"
  | PostDirect "byte list" oid

record asio_session =
  cn_session :: session
  cn_connecting :: "byte list option"
  cn_strand :: "posted list"
  cn_direct :: "(byte list \<times> oid) list"
  cn_called :: "(oid \<times> bool) list"

definition connection_new :: asio_session where
  "connection_new =
     \<lparr>cn_session = session_new, cn_connecting = None, cn_strand = [], cn_direct = [], cn_called = []\<rparr>"

definition session_write :: "byte list \<Rightarrow> asio_session \<Rightarrow> asio_session" where
  "session_write encoded_message c = c\<lparr>cn_strand := cn_strand c @ [PostQueue encoded_message]\<rparr>"

definition session_write_direct :: "byte list \<Rightarrow> oid \<Rightarrow> asio_session \<Rightarrow> asio_session" where
  "session_write_direct encoded_message handler c =
     c\<lparr>cn_strand := cn_strand c @ [PostDirect encoded_message handler]\<rparr>"

text \<open>The strand runs what was posted.\<close>

fun run_posted :: "posted \<Rightarrow> asio_session \<Rightarrow> asio_session" where
  "run_posted (PostQueue m) c = c\<lparr>cn_session := queue_message m (cn_session c)\<rparr>"
| "run_posted (PostDirect m h) c = c\<lparr>cn_direct := cn_direct c @ [(m, h)]\<rparr>"

text \<open>The completion of a direct write: the handler learns whether there was an error.\<close>

definition direct_done :: "ec \<Rightarrow> oid \<Rightarrow> asio_session \<Rightarrow> asio_session" where
  "direct_done err handler c = c\<lparr>cn_called := cn_called c @ [(handler, err \<noteq> NoError)]\<rparr>"

text \<open>\<open>resolves\<close> is whether the resolver finds the address.\<close>

definition session_write_to :: "bool \<Rightarrow> byte list \<Rightarrow> asio_session \<Rightarrow> asio_session res" where
  "session_write_to resolves encoded_message c =
     (if \<not> resolves then Inl SystemError
      else Inr (c\<lparr>cn_connecting := Some encoded_message\<rparr>))"

definition connect_done :: "ec \<Rightarrow> byte list \<Rightarrow> asio_session \<Rightarrow> asio_session" where
  "connect_done err encoded_message c =
     (if err = NoError then session_write encoded_message c else c)"

text \<open>The calls of the dispatcher and the completions of Asio.\<close>

datatype conn_event =
    CnWrite "byte list"
  | CnDirect "byte list" oid
  | CnConnect "byte list"
  | CnConnected "byte list" ec
  | CnPosted
  | CnSent nat
  | CnWritten ec
  | CnDirectSent nat nat
  | CnDirectDone nat ec

inductive connection_step :: "asio_session \<Rightarrow> conn_event \<Rightarrow> asio_session \<Rightarrow> bool" where
  write_called: "connection_step c (CnWrite m) (session_write m c)"
| direct_called: "connection_step c (CnDirect m h) (session_write_direct m h c)"
| connect_called: "cn_connecting c = None \<Longrightarrow> session_write_to True m c = Inr d \<Longrightarrow>
    connection_step c (CnConnect m) d"
| connected: "cn_connecting c = Some m \<Longrightarrow>
    connection_step c (CnConnected m e) (connect_done e m (c\<lparr>cn_connecting := None\<rparr>))"
| posted: "cn_strand c = p # ps \<Longrightarrow>
    connection_step c CnPosted (run_posted p (c\<lparr>cn_strand := ps\<rparr>))"
| sent: "ss_writing (cn_session c) = Some b \<Longrightarrow> k \<le> length b \<Longrightarrow>
    connection_step c (CnSent k)
      (c\<lparr>cn_session := (cn_session c)\<lparr>ss_wire := ss_wire (cn_session c) @ take k b,
                                     ss_writing := Some (drop k b)\<rparr>\<rparr>)"
| written: "ss_writing (cn_session c) = Some b \<Longrightarrow> e = NoError \<longrightarrow> b = [] \<Longrightarrow>
    connection_step c (CnWritten e)
      (c\<lparr>cn_session := packet_send_done e ((cn_session c)\<lparr>ss_writing := None\<rparr>)\<rparr>)"
| direct_sent: "i < length (cn_direct c) \<Longrightarrow> cn_direct c ! i = (b, h) \<Longrightarrow> k \<le> length b \<Longrightarrow>
    connection_step c (CnDirectSent i k)
      (c\<lparr>cn_session := (cn_session c)\<lparr>ss_wire := ss_wire (cn_session c) @ take k b\<rparr>,
         cn_direct := (cn_direct c)[i := (drop k b, h)]\<rparr>)"
| direct_ended: "i < length (cn_direct c) \<Longrightarrow> cn_direct c ! i = (b, h) \<Longrightarrow> e = NoError \<longrightarrow> b = [] \<Longrightarrow>
    connection_step c (CnDirectDone i e)
      (direct_done e h (c\<lparr>cn_direct := take i (cn_direct c) @ drop (Suc i) (cn_direct c)\<rparr>))"

inductive_simps connection_step_simps:
  "connection_step c (CnWrite m) d" "connection_step c (CnDirect m h) d" "connection_step c CnPosted d"
  "connection_step c (CnSent k) d" "connection_step c (CnWritten e) d"
  "connection_step c (CnDirectSent i k) d" "connection_step c (CnDirectDone i e) d"

inductive connection_run :: "conn_event list \<Rightarrow> asio_session \<Rightarrow> bool" where
  fresh: "connection_run [] connection_new"
| next_event: "connection_run es c \<Longrightarrow> connection_step c e d \<Longrightarrow> connection_run (es @ [e]) d"

lemmas connection_defs =
  session_write_def session_write_direct_def session_write_to_def connect_done_def direct_done_def

subsection \<open>The handlers of direct writes\<close>

fun direct_handlers :: "conn_event list \<Rightarrow> oid list" where
  "direct_handlers [] = []"
| "direct_handlers (CnDirect m h # es) = h # direct_handlers es"
| "direct_handlers (_ # es) = direct_handlers es"

fun posted_handlers :: "posted list \<Rightarrow> oid list" where
  "posted_handlers [] = []"
| "posted_handlers (PostDirect m h # ps) = h # posted_handlers ps"
| "posted_handlers (_ # ps) = posted_handlers ps"

lemma direct_handlers_append [simp]:
  "direct_handlers (es @ fs) = direct_handlers es @ direct_handlers fs"
  by (induction es rule: direct_handlers.induct) simp_all

lemma posted_handlers_append [simp]:
  "posted_handlers (ps @ qs) = posted_handlers ps @ posted_handlers qs"
  by (induction ps rule: posted_handlers.induct) simp_all

definition handlers_owed :: "asio_session \<Rightarrow> oid multiset" where
  "handlers_owed c = mset (map snd (cn_direct c)) + mset (posted_handlers (cn_strand c))"

lemma mset_remove_nth:
  "i < length xs \<Longrightarrow> mset xs = add_mset (xs ! i) (mset (take i xs @ drop (Suc i) xs))"
  by (subst id_take_nth_drop [of i xs]) simp_all

lemma handlers_step:
  assumes "connection_step c e d"
  shows "handlers_owed d + mset (map fst (cn_called d)) =
    handlers_owed c + mset (map fst (cn_called c)) + mset (direct_handlers [e])"
  using assms
proof (cases rule: connection_step.cases)
  case (posted p ps)
  then show ?thesis by (cases p) (simp_all add: handlers_owed_def)
next
  case (direct_sent i b h k)
  have "map snd ((cn_direct c)[i := (drop k b, h)]) = map snd (cn_direct c)"
    using direct_sent by (simp add: map_update) (metis list_update_id nth_map snd_conv)
  with direct_sent show ?thesis by (simp add: handlers_owed_def)
next
  case (direct_ended i b h e)
  have "mset (map snd (cn_direct c)) =
    add_mset h (mset (map snd (take i (cn_direct c) @ drop (Suc i) (cn_direct c))))"
    using mset_remove_nth [of i "map snd (cn_direct c)"] direct_ended by (simp add: take_map drop_map)
  with direct_ended show ?thesis by (simp add: handlers_owed_def direct_done_def)
qed (auto simp: handlers_owed_def connection_defs split: if_splits)

lemma handlers_run:
  "connection_run es c \<Longrightarrow>
     handlers_owed c + mset (map fst (cn_called c)) = mset (direct_handlers es)"
proof (induction rule: connection_run.induct)
  case fresh
  then show ?case by (simp add: handlers_owed_def connection_new_def)
next
  case (next_event es c e d)
  then show ?case using handlers_step [OF next_event(2)] by simp
qed

subsection \<open>Whole messages on the wire\<close>

fun submitted :: "conn_event list \<Rightarrow> byte list list" where
  "submitted [] = []"
| "submitted (CnWrite m # es) = m # submitted es"
| "submitted (CnDirect m h # es) = m # submitted es"
| "submitted (CnConnected m e # es) = (if e = NoError then m # submitted es else submitted es)"
| "submitted (_ # es) = submitted es"

lemma submitted_append [simp]: "submitted (es @ fs) = submitted es @ submitted fs"
  by (induction es rule: submitted.induct) simp_all

fun posted_message :: "posted \<Rightarrow> byte list" where
  "posted_message (PostQueue m) = m"
| "posted_message (PostDirect m h) = m"

definition no_direct :: "asio_session \<Rightarrow> bool" where
  "no_direct c \<longleftrightarrow> cn_direct c = [] \<and> (\<forall>p \<in> set (cn_strand c). \<exists>m. p = PostQueue m)"

definition write_idle :: "asio_session \<Rightarrow> bool" where
  "write_idle c \<longleftrightarrow>
     cn_direct c = [] \<and> cn_strand c = [] \<and> ss_send_queue (cn_session c) = []"

text \<open>A direct write is called only when no write is left, the others only when no direct write is
  left, and no direct write fails. The chunks of a file are written this way: the next one is
  called by the handler of the one before.\<close>

fun orderly :: "asio_session \<Rightarrow> conn_event \<Rightarrow> bool" where
  "orderly c (CnDirect m h) \<longleftrightarrow> write_idle c"
| "orderly c (CnWrite m) \<longleftrightarrow> no_direct c"
| "orderly c (CnConnected m e) \<longleftrightarrow> no_direct c"
| "orderly c (CnDirectDone i e) \<longleftrightarrow> e = NoError"
| "orderly c e \<longleftrightarrow> True"

inductive orderly_run :: "conn_event list \<Rightarrow> asio_session \<Rightarrow> bool" where
  fresh: "orderly_run [] connection_new"
| next_event: "orderly_run es c \<Longrightarrow> connection_step c e d \<Longrightarrow> orderly c e \<Longrightarrow>
    orderly_run (es @ [e]) d"

definition queue_mode :: "byte list list \<Rightarrow> asio_session \<Rightarrow> bool" where
  "queue_mode ms c \<longleftrightarrow>
     (let s = cn_session c; posted = concat (map posted_message (cn_strand c)) in
      no_direct c \<and>
      (case ss_writing s of
         Some b \<Rightarrow> \<exists>m q. ss_send_queue s = m # q \<and> ss_wire s @ b @ concat q @ posted = concat ms
       | None \<Rightarrow> if ss_send_queue s = [] then ss_wire s @ posted = concat ms
                 else prefix (ss_wire s) (concat ms)))"

definition direct_mode :: "byte list list \<Rightarrow> asio_session \<Rightarrow> bool" where
  "direct_mode ms c \<longleftrightarrow>
     ss_send_queue (cn_session c) = [] \<and> ss_writing (cn_session c) = None \<and>
     (\<exists>b h. (cn_strand c = [PostDirect b h] \<and> cn_direct c = [] \<or>
              cn_strand c = [] \<and> cn_direct c = [(b, h)]) \<and>
            ss_wire (cn_session c) @ b = concat ms)"

lemma queue_mode_queue: "queue_mode ms c \<Longrightarrow> cn_strand c = PostQueue m # ps \<Longrightarrow>
    queue_mode ms (run_posted (PostQueue m) (c\<lparr>cn_strand := ps\<rparr>))"
  by (auto simp: queue_mode_def no_direct_def session_defs Let_def split: option.splits if_splits)

lemma queue_mode_write:
  assumes "queue_mode ms c" "cn_strand d = cn_strand c @ [PostQueue m]" "cn_session d = cn_session c"
    "cn_direct d = cn_direct c"
  shows "queue_mode (ms @ [m]) d"
  using assms by (auto simp: queue_mode_def no_direct_def Let_def split: option.splits if_splits)

lemma queue_mode_same:
  assumes "queue_mode ms c" "cn_strand d = cn_strand c" "cn_session d = cn_session c"
    "cn_direct d = cn_direct c"
  shows "queue_mode ms d"
  using assms by (simp add: queue_mode_def no_direct_def)

lemma queue_mode_written:
  assumes q: "queue_mode ms c" and b: "ss_writing (cn_session c) = Some b" and e: "e = NoError \<longrightarrow> b = []"
  shows "queue_mode ms (c\<lparr>cn_session := packet_send_done e ((cn_session c)\<lparr>ss_writing := None\<rparr>)\<rparr>)"
proof -
  obtain m q' where m: "ss_send_queue (cn_session c) = m # q'" "no_direct c"
    "ss_wire (cn_session c) @ b @ concat q' @ concat (map posted_message (cn_strand c)) = concat ms"
    using q b by (auto simp: queue_mode_def Let_def)
  then have "prefix (ss_wire (cn_session c)) (concat ms)" by (metis prefixI)
  with m e show ?thesis
    by (cases q') (auto simp: queue_mode_def no_direct_def session_defs Let_def)
qed

lemma whole_step:
  assumes "connection_step c e d" "orderly c e" "queue_mode ms c \<or> direct_mode ms c"
  shows "queue_mode (ms @ submitted [e]) d \<or> direct_mode (ms @ submitted [e]) d"
  using assms(1)
proof (cases rule: connection_step.cases)
  case (write_called m)
  then have "\<not> direct_mode ms c" using assms(2) by (auto simp: direct_mode_def no_direct_def)
  then have "queue_mode (ms @ [m]) d"
    using assms(3) write_called by (intro queue_mode_write) (auto simp: session_write_def)
  with write_called show ?thesis by simp
next
  case (direct_called m h)
  then have idle: "write_idle c" using assms(2) by simp
  with assms(3) have "ss_writing (cn_session c) = None" "ss_wire (cn_session c) = concat ms"
    by (auto simp: queue_mode_def direct_mode_def write_idle_def Let_def split: option.splits)
  with direct_called idle show ?thesis
    by (simp add: direct_mode_def write_idle_def session_write_direct_def)
next
  case (connect_called m)
  then show ?thesis
    using assms(3) queue_mode_same [of ms c d] by (auto simp: session_write_to_def direct_mode_def)
next
  case (connected m e)
  then have "\<not> direct_mode ms c" using assms(2) by (auto simp: direct_mode_def no_direct_def)
  then have "queue_mode ms c" using assms(3) by simp
  then show ?thesis
    using connected queue_mode_write [of ms c d m] queue_mode_same [of ms c d]
    by (auto simp: connect_done_def session_write_def)
next
  case (posted p ps)
  show ?thesis
  proof (cases "queue_mode ms c")
    case True
    then obtain m where "p = PostQueue m" using posted by (auto simp: queue_mode_def no_direct_def Let_def)
    with True posted queue_mode_queue [of ms c m ps] show ?thesis by simp
  next
    case False
    with assms(3) posted show ?thesis by (auto simp: direct_mode_def)
  qed
next
  case (sent b k)
  with assms(3) obtain m q where "ss_send_queue (cn_session c) = m # q" "no_direct c"
    "ss_wire (cn_session c) @ b @ concat q @ concat (map posted_message (cn_strand c)) = concat ms"
    by (auto simp: queue_mode_def direct_mode_def Let_def)
  with sent show ?thesis
    by (simp add: queue_mode_def no_direct_def) (metis append.assoc append_take_drop_id)
next
  case (written b x)
  with assms(3) have "queue_mode ms c" by (auto simp: direct_mode_def)
  with written queue_mode_written show ?thesis by simp
next
  case (direct_sent i b h k)
  with assms(3) have "direct_mode ms c" by (auto simp: queue_mode_def no_direct_def Let_def)
  with direct_sent show ?thesis by (auto simp: direct_mode_def)
next
  case (direct_ended i b h x)
  with assms(3) have "direct_mode ms c" by (auto simp: queue_mode_def no_direct_def Let_def)
  with direct_ended assms(2) show ?thesis
    by (auto simp: direct_mode_def queue_mode_def no_direct_def direct_done_def)
qed

lemma whole_run: "orderly_run es c \<Longrightarrow> queue_mode (submitted es) c \<or> direct_mode (submitted es) c"
proof (induction rule: orderly_run.induct)
  case fresh
  then show ?case by (simp add: queue_mode_def no_direct_def connection_new_def session_new_def)
next
  case (next_event es c e d)
  then show ?case using whole_step [OF next_event(2,3)] by simp
qed

lemma orderly_wire:
  assumes "orderly_run es c"
  shows "prefix (ss_wire (cn_session c)) (concat (submitted es)) \<and>
    (write_idle c \<longrightarrow> ss_wire (cn_session c) = concat (submitted es))"
  using whole_run [OF assms]
proof
  assume "queue_mode (submitted es) c"
  then show ?thesis
    by (auto simp: queue_mode_def write_idle_def Let_def intro: prefixI [OF sym]
        split: option.splits if_splits)
next
  assume "direct_mode (submitted es) c"
  then show ?thesis by (auto simp: direct_mode_def write_idle_def intro: prefixI [OF sym])
qed

text \<open>Runs, one event at a time.\<close>

lemma connection_run_snoc:
  "connection_run es c \<Longrightarrow> connection_step c e d \<Longrightarrow> fs = es @ [e] \<Longrightarrow> connection_run fs d"
  by (simp add: connection_run.next_event)

lemma orderly_run_snoc:
  "orderly_run es c \<Longrightarrow> connection_step c e d \<Longrightarrow> orderly c e \<Longrightarrow> fs = es @ [e] \<Longrightarrow> orderly_run fs d"
  by (simp add: orderly_run.next_event)

lemma orderly_run_run: "orderly_run es c \<Longrightarrow> connection_run es c"
  by (induction rule: orderly_run.induct) (auto intro: connection_run.intros)

text \<open>One chunk, written in two pieces.\<close>

definition chunk_events :: "conn_event list" where
  "chunk_events = [CnDirect [1, 2] 7, CnPosted, CnDirectSent 0 1, CnDirectSent 0 1, CnDirectDone 0 NoError]"

definition chunk_written :: asio_session where
  "chunk_written = connection_new
     \<lparr>cn_session := session_new\<lparr>ss_wire := [1, 2]\<rparr>, cn_called := [(7, False)]\<rparr>"

lemma chunk_run: "orderly_run chunk_events chunk_written"
proof -
  note simps = connection_step_simps connection_new_def session_new_def session_write_direct_def
    direct_done_def write_idle_def
  let ?c1 = "connection_new\<lparr>cn_strand := [PostDirect [1, 2] 7]\<rparr>"
  let ?c2 = "connection_new\<lparr>cn_direct := [([1, 2], 7)]\<rparr>"
  let ?c3 = "connection_new\<lparr>cn_session := session_new\<lparr>ss_wire := [1]\<rparr>, cn_direct := [([2], 7)]\<rparr>"
  let ?c4 = "connection_new\<lparr>cn_session := session_new\<lparr>ss_wire := [1, 2]\<rparr>, cn_direct := [([], 7)]\<rparr>"
  have "orderly_run [CnDirect [1, 2] 7] ?c1"
    by (rule orderly_run_snoc [OF orderly_run.fresh, of "CnDirect [1, 2] 7"]) (simp_all add: simps)
  then have "orderly_run [CnDirect [1, 2] 7, CnPosted] ?c2"
    by (rule orderly_run_snoc [where e = CnPosted]) (simp_all add: simps)
  then have "orderly_run [CnDirect [1, 2] 7, CnPosted, CnDirectSent 0 1] ?c3"
    by (rule orderly_run_snoc [where e = "CnDirectSent 0 1"]) (simp_all add: simps)
  then have "orderly_run [CnDirect [1, 2] 7, CnPosted, CnDirectSent 0 1, CnDirectSent 0 1] ?c4"
    by (rule orderly_run_snoc [where e = "CnDirectSent 0 1"]) (simp_all add: simps)
  then show ?thesis unfolding chunk_events_def chunk_written_def
    by (rule orderly_run_snoc [where e = "CnDirectDone 0 NoError"]) (simp_all add: simps)
qed

subsection \<open>Properties\<close>

text \<open>C26. The handler of every \<open>write_direct\<close> is called exactly once, or the write is still in
  progress or on the strand, whatever else happens on the session: no completion is lost and none
  is reported twice, so that the chain of chunk writes neither stops nor forks.\<close>

theorem direct_handlers_called_once:
  assumes "connection_run es c"
  shows "mset (map fst (cn_called c)) + mset (map snd (cn_direct c)) +
    mset (posted_handlers (cn_strand c)) = mset (direct_handlers es)"
  using handlers_run [OF assms] by (simp add: handlers_owed_def ac_simps)

lemma direct_handlers_called_once_witness:
  "mset (map fst (cn_called chunk_written)) = {#7#}"
  using direct_handlers_called_once [OF orderly_run_run [OF chunk_run]]
  by (simp add: chunk_written_def chunk_events_def connection_new_def)

text \<open>C15. On a session where a direct write is only called when nothing else is left to be written,
  and the other writes only when no direct write is left, the wire carries the messages whole and
  in the order in which they were handed over, however the kernel cuts the writes; a connection
  that fails loses its message and nothing else.\<close>

theorem orderly_writes_whole:
  assumes "orderly_run es c"
  shows "prefix (ss_wire (cn_session c)) (concat (submitted es)) \<and>
    (write_idle c \<longrightarrow> ss_wire (cn_session c) = concat (submitted es))"
  using assms by (rule orderly_wire)

lemma orderly_writes_whole_witness: "ss_wire (cn_session chunk_written) = [1, 2]"
  using orderly_writes_whole [OF chunk_run]
  by (simp add: chunk_written_def chunk_events_def connection_new_def session_new_def write_idle_def)

text \<open>\<open>write_direct\<close> does not wait for a queued write: called while one is in progress, its
  buffer can end up behind any byte of the message that is being written, with every write
  successful and the handler told so.\<close>

lemma direct_write_splits_message:
  "\<exists>es c. connection_run es c \<and> submitted es = [a, b] \<and> write_idle c \<and>
     cn_called c = [(h, False)] \<and> ss_wire (cn_session c) = take k a @ b @ drop k a"
proof -
  note simps = connection_step_simps connection_new_def session_new_def session_write_def
    session_write_direct_def direct_done_def session_defs Let_def
  define n where "n = min k (length a)"
  have n: "n \<le> length a" "take k a = take n a" "drop k a = drop n a" by (simp_all add: n_def min_def)
  let ?s = "session_new\<lparr>ss_send_queue := [a], ss_writing := Some a\<rparr>"
  let ?t = "\<lambda>w. session_new\<lparr>ss_send_queue := [a], ss_writing := Some (drop n a), ss_wire := w\<rparr>"
  let ?es = "[CnWrite a, CnPosted, CnSent n, CnDirect b h, CnPosted]"
  have "connection_run [CnWrite a] (connection_new\<lparr>cn_strand := [PostQueue a]\<rparr>)"
    by (rule connection_run_snoc [OF connection_run.fresh, of "CnWrite a"]) (simp_all add: simps)
  then have "connection_run [CnWrite a, CnPosted] (connection_new\<lparr>cn_session := ?s\<rparr>)"
    by (rule connection_run_snoc [where e = CnPosted]) (simp_all add: simps)
  then have "connection_run [CnWrite a, CnPosted, CnSent n]
      (connection_new\<lparr>cn_session := ?t (take n a)\<rparr>)"
    by (rule connection_run_snoc [where e = "CnSent n"]) (simp_all add: simps n(1))
  then have "connection_run [CnWrite a, CnPosted, CnSent n, CnDirect b h]
      (connection_new\<lparr>cn_session := ?t (take n a), cn_strand := [PostDirect b h]\<rparr>)"
    by (rule connection_run_snoc [where e = "CnDirect b h"]) (simp_all add: simps)
  then have "connection_run ?es (connection_new\<lparr>cn_session := ?t (take n a), cn_direct := [(b, h)]\<rparr>)"
    by (rule connection_run_snoc [where e = CnPosted]) (simp_all add: simps)
  then have "connection_run (?es @ [CnDirectSent 0 (length b)])
      (connection_new\<lparr>cn_session := ?t (take n a @ b), cn_direct := [([], h)]\<rparr>)"
    by (rule connection_run_snoc [where e = "CnDirectSent 0 (length b)"]) (simp_all add: simps)
  then have "connection_run (?es @ [CnDirectSent 0 (length b), CnDirectDone 0 NoError])
      (connection_new\<lparr>cn_session := ?t (take n a @ b), cn_called := [(h, False)]\<rparr>)"
    by (rule connection_run_snoc [where e = "CnDirectDone 0 NoError"]) (simp_all add: simps)
  then have "connection_run (?es @ [CnDirectSent 0 (length b), CnDirectDone 0 NoError, CnSent (length a - n)])
      (connection_new\<lparr>cn_session := session_new\<lparr>ss_send_queue := [a], ss_writing := Some [],
        ss_wire := take n a @ b @ drop n a\<rparr>, cn_called := [(h, False)]\<rparr>)"
    by (rule connection_run_snoc [where e = "CnSent (length a - n)"]) (simp_all add: simps)
  then have "connection_run (?es @ [CnDirectSent 0 (length b), CnDirectDone 0 NoError,
        CnSent (length a - n), CnWritten NoError])
      (connection_new\<lparr>cn_session := session_new\<lparr>ss_wire := take n a @ b @ drop n a\<rparr>,
        cn_called := [(h, False)]\<rparr>)"
    by (rule connection_run_snoc [where e = "CnWritten NoError"]) (simp_all add: simps)
  then show ?thesis
    by (intro exI conjI, assumption) (simp_all add: n(2,3) write_idle_def connection_new_def session_new_def)
qed

end
