(* ===== verification/Transport.thy ===== *)
theory Transport
  imports Session_Writes Converter
begin

section \<open>From a message object to the peer's dispatcher\<close>

text \<open>
  The way of a message through both ends: \<open>run_send_internal\<close> of \<open>consumer.hpp\<close> serializes and
  frames it, the session of the sender writes it, TCP hands the bytes on in pieces of any size,
  the session of the receiver cuts them into messages again and \<open>run_internal\<close> parses them.
\<close>

text \<open>What \<open>run_send_internal\<close> gives to the session.\<close>

definition encode_message :: "(pb_Request \<Rightarrow> byte list) \<Rightarrow> Message \<Rightarrow> byte list res" where
  "encode_message pb_ser m = res_bind (SerializedFromMessage pb_ser m) frame_message"

text \<open>Two sessions and the bytes of the first that TCP has delivered to the second.\<close>

record link =
  lk_from :: asio_session
  lk_to :: session
  lk_moved :: nat

inductive link_run :: "conn_event list \<Rightarrow> link \<Rightarrow> bool" where
  fresh: "link_run [] \<lparr>lk_from = connection_new, lk_to = session_new, lk_moved = 0\<rparr>"
| sender: "link_run es l \<Longrightarrow> connection_step (lk_from l) e c \<Longrightarrow> orderly (lk_from l) e \<Longrightarrow>
    link_run (es @ [e]) (l\<lparr>lk_from := c\<rparr>)"
| delivery: "link_run es l \<Longrightarrow> n \<le> length (ss_wire (cn_session (lk_from l))) \<Longrightarrow> lk_moved l \<le> n \<Longrightarrow>
    session_step (lk_to l) (Arrived (take (n - lk_moved l) (drop (lk_moved l) (ss_wire (cn_session (lk_from l)))))) s \<Longrightarrow>
    link_run es (l\<lparr>lk_to := s, lk_moved := n\<rparr>)"
| receiver: "link_run es l \<Longrightarrow> session_step (lk_to l) e s \<Longrightarrow> e = Read \<or> e = ReadDone \<Longrightarrow>
    link_run es (l\<lparr>lk_to := s\<rparr>)"

text \<open>Everything that was handed over has been written and delivered, and the receiver waits for
  the next byte.\<close>

definition link_settled :: "link \<Rightarrow> bool" where
  "link_settled l \<longleftrightarrow>
     write_idle (lk_from l) \<and> lk_moved l = length (ss_wire (cn_session (lk_from l))) \<and>
     ss_reading (lk_to l) \<noteq> None \<and> (\<nexists>s. session_step (lk_to l) ReadDone s)"

text \<open>The wire only grows.\<close>

lemma packet_send_done_wire [simp]: "ss_wire (packet_send_done e s) = ss_wire s"
  by (simp add: session_defs Let_def)

lemma queue_message_wire [simp]: "ss_wire (queue_message m s) = ss_wire s"
  by (simp add: session_defs Let_def)

lemma wire_grows:
  assumes "connection_step c e d"
  shows "prefix (ss_wire (cn_session c)) (ss_wire (cn_session d))"
  using assms
proof (cases rule: connection_step.cases)
  case (posted p ps)
  then show ?thesis by (cases p) simp_all
qed (auto simp: connection_defs split: if_splits)

lemma take_more: "m \<le> n \<Longrightarrow> take m xs @ take (n - m) (drop m xs) = take n xs"
  by (metis le_add_diff_inverse take_add)

lemma link_invariant:
  "link_run es l \<Longrightarrow>
     orderly_run es (lk_from l) \<and> lk_moved l \<le> length (ss_wire (cn_session (lk_from l))) \<and>
     (\<exists>fs. session_run session_new fs (lk_to l) \<and> (\<forall>k x. ReadFailed k x \<notin> set fs) \<and>
        arrived_bytes fs = take (lk_moved l) (ss_wire (cn_session (lk_from l))))"
proof (induction rule: link_run.induct)
  case fresh
  have "session_run session_new [] session_new" by (rule session_run.none)
  then show ?case by (auto intro: orderly_run.fresh exI [of _ "[]"])
next
  case (sender es l e c)
  obtain z where z: "ss_wire (cn_session c) = ss_wire (cn_session (lk_from l)) @ z"
    using wire_grows [OF sender(2)] by (auto elim: prefixE)
  with sender show ?case by (auto intro: orderly_run.next_event)
next
  case (delivery es l n s)
  then obtain fs where fs: "session_run session_new fs (lk_to l)" "\<forall>k x. ReadFailed k x \<notin> set fs"
    "arrived_bytes fs = take (lk_moved l) (ss_wire (cn_session (lk_from l)))" by blast
  note step = session_run.more [OF fs(1) delivery(4)]
  show ?case
    using delivery fs(2,3) step take_more [OF delivery(3), of "ss_wire (cn_session (lk_from l))"]
    by (auto intro!: exI [of _ "fs @ [_]"])
next
  case (receiver es l e s)
  then obtain fs where fs: "session_run session_new fs (lk_to l)" "\<forall>k x. ReadFailed k x \<notin> set fs"
    "arrived_bytes fs = take (lk_moved l) (ss_wire (cn_session (lk_from l)))" by blast
  have "arrived_bytes [e] = []" using receiver(3) by auto
  with receiver fs session_run.more [OF fs(1) receiver(2)] show ?case
    by (auto intro!: exI [of _ "fs @ [e]"])
qed

text \<open>C12. Messages arrive as they were sent: whatever pieces the kernels write and deliver and
  whenever the receiver reads, what its dispatcher parses are the messages that were handed over,
  in order and each once, and all of them when the link is settled. Protobuf is assumed to parse
  what it serialized, and a serialized message to be shorter than four gigabytes.\<close>

theorem messages_arrive:
  assumes "link_run es l" "map (encode_message pb_ser) ms = map Inr (submitted es)"
    and "\<forall>m \<in> set ms. message_wf m"
    and "\<And>m r. m \<in> set ms \<Longrightarrow> message_to_pb m = Inr r \<Longrightarrow>
      pb_parse (pb_ser r) = r \<and> length (pb_ser r) < 2 ^ 32"
  shows "prefix (map (MessageFromSerialized pb_parse) (ss_received (lk_to l))) (map Inr ms) \<and>
    (link_settled l \<longrightarrow> map (MessageFromSerialized pb_parse) (ss_received (lk_to l)) = map Inr ms)"
proof -
  let ?wire = "ss_wire (cn_session (lk_from l))" and ?got = "ss_received (lk_to l)"
  obtain rs where rs: "map message_to_pb ms = map Inr rs" "map message_from_pb rs = map Inr ms"
    using message_codec.enc_list [OF assms(3)] by blast
  have good: "pb_parse (pb_ser r) = r \<and> length (pb_ser r) < 2 ^ 32" if "r \<in> set rs" for r
  proof -
    have "Inr r \<in> set (map message_to_pb ms)" using that unfolding rs(1) by simp
    then show ?thesis using assms(4) by force
  qed
  have "encode_message pb_ser m = res_bind (message_to_pb m) (\<lambda>r. Inr (frame (pb_ser r)))" for m
    by (cases "message_to_pb m") (simp_all add: encode_message_def SerializedFromMessage_def frame_message_eq)
  then have "map (encode_message pb_ser) ms =
      map (\<lambda>x. res_bind x (\<lambda>r. Inr (frame (pb_ser r)))) (map message_to_pb ms)" by simp
  then have "map (Inr :: _ \<Rightarrow> byte list res) (submitted es) = map Inr (map frame (map pb_ser rs))"
    unfolding rs(1) assms(2) by (simp add: comp_def)
  then have sub: "submitted es = map frame (map pb_ser rs)" by (rule map_injective) simp
  obtain fs where inv: "orderly_run es (lk_from l)" "session_run session_new fs (lk_to l)"
    "\<forall>k x. ReadFailed k x \<notin> set fs" "arrived_bytes fs = take (lk_moved l) ?wire"
    using link_invariant [OF assms(1)] by blast
  note wire = orderly_wire [OF inv(1), unfolded sub]
  have lens: "\<forall>b \<in> set (map pb_ser rs). length b < 2 ^ 32" using good by simp
  note got = received_frames [OF inv(2,3) lens]
  have "prefix (arrived_bytes fs) ?wire" unfolding inv(4) by (rule take_is_prefix)
  then have "prefix (arrived_bytes fs) (concat (map frame (map pb_ser rs)))"
    using wire prefix_order.trans by blast
  with got have pre: "prefix ?got (map pb_ser rs)" by blast
  have parse: "map (MessageFromSerialized pb_parse) (map pb_ser rs) = map Inr ms"
    unfolding rs(2) [symmetric] using good by (simp add: MessageFromSerialized_def)
  from pre have "prefix (map (MessageFromSerialized pb_parse) ?got) (map Inr ms)"
    unfolding parse [symmetric] by (rule map_mono_prefix)
  moreover have "map (MessageFromSerialized pb_parse) ?got = map Inr ms" if "link_settled l"
  proof -
    from that have "arrived_bytes fs = concat (map frame (map pb_ser rs))"
      using inv(4) wire by (simp add: link_settled_def)
    with got that have "?got = map pb_ser rs" unfolding link_settled_def by blast
    with parse show ?thesis by simp
  qed
  ultimately show ?thesis by blast
qed

text \<open>A queued message of one byte, delivered in two pieces.\<close>

lemma link_run_sender:
  "orderly_run es c \<Longrightarrow> link_run es \<lparr>lk_from = c, lk_to = session_new, lk_moved = 0\<rparr>"
proof (induction rule: orderly_run.induct)
  case fresh
  show ?case by (rule link_run.fresh)
next
  case (next_event es c e d)
  from link_run.sender [OF next_event(4), of e d] next_event(2,3) show ?case by simp
qed

definition byte_events :: "conn_event list" where
  "byte_events = [CnWrite [0, 0, 0, 1, 7], CnPosted, CnSent 5, CnWritten NoError]"

definition byte_written :: asio_session where
  "byte_written = connection_new\<lparr>cn_session := session_new\<lparr>ss_wire := [0, 0, 0, 1, 7]\<rparr>\<rparr>"

lemma byte_run: "orderly_run byte_events byte_written"
proof -
  let ?m = "[0, 0, 0, 1, 7] :: byte list"
  note simps = connection_step_simps connection_new_def session_new_def session_write_def
    no_direct_def session_defs Let_def
  let ?s = "session_new\<lparr>ss_send_queue := [?m], ss_writing := Some ?m\<rparr>"
  let ?t = "session_new\<lparr>ss_send_queue := [?m], ss_writing := Some [], ss_wire := ?m\<rparr>"
  have "orderly_run [CnWrite ?m] (connection_new\<lparr>cn_strand := [PostQueue ?m]\<rparr>)"
    by (rule orderly_run_snoc [OF orderly_run.fresh, of "CnWrite ?m"]) (simp_all add: simps)
  then have "orderly_run [CnWrite ?m, CnPosted] (connection_new\<lparr>cn_session := ?s\<rparr>)"
    by (rule orderly_run_snoc [where e = CnPosted]) (simp_all add: simps)
  then have "orderly_run [CnWrite ?m, CnPosted, CnSent 5] (connection_new\<lparr>cn_session := ?t\<rparr>)"
    by (rule orderly_run_snoc [where e = "CnSent 5"]) (simp_all add: simps)
  then show ?thesis unfolding byte_events_def byte_written_def
    by (rule orderly_run_snoc [where e = "CnWritten NoError"]) (simp_all add: simps)
qed

definition byte_received :: session where
  "byte_received = session_new\<lparr>ss_readbuf := [0, 0, 0, 1, 7], ss_received := [[7]]\<rparr>"

lemma byte_link: "link_run byte_events \<lparr>lk_from = byte_written, lk_to = byte_received, lk_moved = 5\<rparr>"
proof -
  define s1 where "s1 = session_new\<lparr>ss_inbox := [0, 0, 0]\<rparr>"
  define s2 where "s2 = do_read_header s1"
  define s3 where "s3 = s2\<lparr>ss_inbox := [0, 0, 0, 1, 7]\<rparr>"
  define s4 where "s4 = handle_read_header NoError
    (s3\<lparr>ss_readbuf := [0, 0, 0, 1], ss_inbox := [7], ss_reading := None\<rparr>)"
  let ?l = "\<lambda>s n. \<lparr>lk_from = byte_written, lk_to = s, lk_moved = n\<rparr>"
  note ds = s1_def s2_def s3_def s4_def session_new_def session_defs header_size_def byte_received_def
    resize_def
  have wire: "ss_wire (cn_session byte_written) = [0, 0, 0, 1, 7]" by (simp add: byte_written_def)
  have d: "decode_header [0, 0, 0, 1] = 1" by (simp add: decode_header_4)
  note del = link_run.delivery [where n = 3] link_run.delivery [where n = 5]
  have "link_run byte_events (?l session_new 0)" by (rule link_run_sender [OF byte_run])
  from link_run.delivery [OF this, of 3 s1] have "link_run byte_events (?l s1 3)"
    using session_step.arrived [of session_new "[0, 0, 0]"] by (simp add: wire ds)
  from link_run.receiver [OF this, of Read s2] have "link_run byte_events (?l s2 3)"
    using session_step.read [of s1] by (simp add: s2_def, simp add: ds)
  from link_run.delivery [OF this, of 5 s3] have "link_run byte_events (?l s3 5)"
    using session_step.arrived [of s2 "[1, 7]"] by (simp add: wire s3_def, simp add: ds)
  from link_run.receiver [OF this, of ReadDone s4] have "link_run byte_events (?l s4 5)"
    using session_step.header_read [of s3] by (simp add: ds)
  from link_run.receiver [OF this, of ReadDone byte_received] show ?thesis
    using session_step.body_read [of s4 1] by (simp add: ds d)
qed

lemma messages_arrive_witness:
  "map (MessageFromSerialized (\<lambda>_. projr (message_to_pb example_message))) [[7]] = [Inr example_message]"
proof -
  let ?p = "projr (message_to_pb example_message)"
  have "message_wf example_message"
    by (simp add: example_message_def message_wf_def chunk_wf_def FileChunk_new_def)
  moreover from this obtain r where "message_to_pb example_message = Inr r"
    using message_codec.enc_total by blast
  moreover have "frame [7] = [0, 0, 0, 1, 7]" by (simp add: frame_def header_bytes_def)
  ultimately have "prefix (map (MessageFromSerialized (\<lambda>_. ?p)) (ss_received byte_received))
      (map Inr [example_message])"
    using messages_arrive [OF byte_link, of "\<lambda>_. [7]" "[example_message]" "\<lambda>_. ?p"]
    by (simp add: encode_message_def SerializedFromMessage_def frame_message_eq byte_events_def)
  then show ?thesis by (simp add: byte_received_def)
qed

end
