(* ===== verification/Routing_Report.thy ===== *)
theory Routing_Report
  imports Node_Reachable
begin

section \<open>The routing report\<close>

text \<open>
  The body of \<open>send_routing_information_internal\<close> of \<open>consumer.hpp\<close>, which the option \<open>--debug\<close> starts
  on a thread: it posts predecessor and successor to a local web server, sleeps five seconds and
  calls itself. \<open>write_json\<close> of Boost is an argument.
\<close>

text \<open>The JSON tree: the children of the root, each with its fields.\<close>

type_synonym report_tree = "(string \<times> (string \<times> string) list) list"

definition routing_tree :: "Peer \<Rightarrow> Peer \<Rightarrow> Peer \<Rightarrow> report_tree" where
  "routing_tree pre self succ =
     [(peer_id self, [(''successor'', peer_id succ), (''predecessor'', peer_id pre)])]"

definition crlf :: string where
  "crlf = [CHR 0x0D, CHR 0x0A]"

definition report_request :: "string \<Rightarrow> string" where
  "report_request json =
     ''POST / HTTP/1.1 '' @ crlf @
     ''Host:'' @ ''lol'' @ crlf @
     ''User-Agent: C/1.0'' @
     ''Content-Type: application/json; charset=utf-8 '' @ crlf @
     ''Accept: */*'' @ crlf @
     ''Content-Length: '' @ to_string (length json) @ crlf @
     ''Connection: close'' @ crlf @ crlf @
     json"

text \<open>
  The recursion. Each element of the list is what one call finds: the flag \<open>run_\<close>, whether the
  server accepts, the node. The calls that wait hold \<open>k\<close> sockets and \<open>limit\<close> is how many of them the
  process can have; opening one more throws. A call that returns or throws closes the sockets of all calls that
  are waiting for it. The result is what was posted, the number of open sockets and how the
  thread ended; \<open>None\<close> is a thread that sleeps.
\<close>

datatype report_end = Returned | Threw

fun report_rounds ::
  "(report_tree \<Rightarrow> string) \<Rightarrow> nat \<Rightarrow> nat \<Rightarrow> (bool \<times> bool \<times> node) list \<Rightarrow>
   string list \<times> nat \<times> report_end option" where
  "report_rounds write_json limit k [] = ([], k, None)"
| "report_rounds write_json limit k ((run, up, nd) # views) =
     (if \<not> run then ([], 0, Some Returned)
      else
        let ((pre, self, succ), nd') = get_routing_information nd in
        if \<not> Peer_is_valid self then ([], 0, Some Returned)
        else if limit \<le> k \<or> \<not> up then ([], 0, Some Threw)
        else
          let (posts, k', e) = report_rounds write_json limit (Suc k) views
          in (report_request (write_json (routing_tree pre self succ)) # posts, k', e))"

text \<open>The lines of a text that ends its lines with CR LF.\<close>

fun crlf_lines :: "string \<Rightarrow> string list" where
  "crlf_lines [] = [[]]"
| "crlf_lines [c] = [[c]]"
| "crlf_lines (c # d # cs) =
     (if c = CHR 0x0D \<and> d = CHR 0x0A then [] # crlf_lines cs
      else (case crlf_lines (d # cs) of [] \<Rightarrow> [[c]] | l # ls \<Rightarrow> (c # l) # ls))"

lemma crlf_lines_not_Nil [simp]: "crlf_lines cs \<noteq> []"
  by (induction cs rule: crlf_lines.induct) (auto split: list.split)

lemma crlf_lines_line:
  "CHR 0x0D \<notin> set l \<Longrightarrow> crlf_lines (l @ crlf @ rest) = l # crlf_lines rest"
proof (induction l)
  case (Cons c l)
  then have "crlf_lines (l @ crlf @ rest) = l # crlf_lines rest" by simp
  with Cons.prems show ?case by (cases l) (auto simp: crlf_def)
qed (simp add: crlf_def)

lemma dec_digit_no_cr: "n < 10 \<Longrightarrow> dec_digit n \<noteq> CHR 0x0D"
proof
  assume n: "n < 10" and "dec_digit n = CHR 0x0D"
  then have "(of_char (dec_digit n) :: nat) = of_char CHR 0x0D" by simp
  then have "(48 + n) mod 256 = 13" by (simp add: dec_digit_def)
  with n show False by simp
qed

lemma to_string_no_cr: "CHR 0x0D \<notin> set (to_string n)"
proof (induction n rule: to_string.induct)
  case (1 n)
  have "CHR 0x0D \<noteq> dec_digit (n mod 10)" using dec_digit_no_cr [of "n mod 10"] by simp
  moreover have "n < 10 \<Longrightarrow> n mod 10 = n" by simp
  ultimately show ?case using 1 by (subst to_string.simps) auto
qed

lemma report_lines:
  "crlf_lines (report_request json) =
     [''POST / HTTP/1.1 '', ''Host:lol'',
      ''User-Agent: C/1.0Content-Type: application/json; charset=utf-8 '', ''Accept: */*'',
      ''Content-Length: '' @ to_string (length json), ''Connection: close'', ''''] @ crlf_lines json"
proof -
  have r: "report_request json =
    ''POST / HTTP/1.1 '' @ crlf @ ''Host:lol'' @ crlf @
    ''User-Agent: C/1.0Content-Type: application/json; charset=utf-8 '' @ crlf @ ''Accept: */*'' @ crlf @
    (''Content-Length: '' @ to_string (length json)) @ crlf @ ''Connection: close'' @ crlf @ [] @ crlf @ json"
    by (simp add: report_request_def)
  have n: "CHR 0x0D \<notin> set (''Content-Length: '' @ to_string (length json))"
    using to_string_no_cr by simp
  show ?thesis
    unfolding r
    by (subst crlf_lines_line, (rule n | simp))+ simp
qed

text \<open>The report has no \<open>Content-Type\<close> header: the line of \<open>User-Agent\<close> does not end, so the
  header that follows becomes part of its value. The headers are the five lines between the
  request line and the blank line, and the announced length is that of what follows it.\<close>

lemma report_without_content_type:
  "\<exists>headers. crlf_lines (report_request json) = ''POST / HTTP/1.1 '' # headers @ '''' # crlf_lines json \<and>
     '''' \<notin> set headers \<and>
     ''Content-Length: '' @ to_string (length json) \<in> set headers \<and>
     \<not> (\<exists>l \<in> set headers. take 13 l = ''Content-Type:'')"
  unfolding report_lines
  by (rule exI [of _ "[''Host:lol'', ''User-Agent: C/1.0Content-Type: application/json; charset=utf-8 '',
      ''Accept: */*'', ''Content-Length: '' @ to_string (length json), ''Connection: close'']"]) simp

lemma report_rounds_exhaust:
  assumes "k \<le> limit" "limit - k < length views"
    and "\<forall>(run, up, nd) \<in> set views. run \<and> up \<and> Peer_is_valid (fst (snd (fst (get_routing_information nd))))"
  shows "\<exists>posts. report_rounds write_json limit k views = (posts, 0, Some Threw) \<and> length posts = limit - k"
  using assms
proof (induction views arbitrary: k)
  case (Cons v views)
  obtain run up nd where v: "v = (run, up, nd)" by (cases v)
  obtain pre self succ nd' where g: "get_routing_information nd = ((pre, self, succ), nd')"
    by (cases "get_routing_information nd") auto
  show ?case
  proof (cases "limit \<le> k")
    case True
    with Cons.prems v g show ?thesis by auto
  next
    case False
    then have "limit - Suc k < length views" "Suc k \<le> limit" using Cons.prems(2) by simp_all
    with Cons.prems(3) v obtain posts where
      "report_rounds write_json limit (Suc k) views = (posts, 0, Some Threw)" "length posts = limit - Suc k"
      using Cons.IH [of "Suc k"] by auto
    with False Cons.prems v g show ?thesis by auto
  qed
qed simp

text \<open>C39. The reports of a node end the process: every call keeps its socket open while the next one
  runs, so with a valid own address, a server that accepts and no \<open>stop\<close>, the thread posts as
  often as sockets may be open and then throws.\<close>

theorem reports_exhaust_sockets:
  assumes "limit < length views"
    and "\<forall>(run, up, nd) \<in> set views. run \<and> up \<and> Peer_is_valid (fst (snd (fst (get_routing_information nd))))"
  shows "\<exists>posts. report_rounds write_json limit 0 views = (posts, 0, Some Threw) \<and> length posts = limit"
  using report_rounds_exhaust [of 0 limit views write_json] assms by simp

lemma reports_exhaust_sockets_witness:
  "\<exists>p q. report_rounds (\<lambda>_. ''{}'') 2 0 (replicate 3 (True, True, example_node)) = ([p, q], 0, Some Threw)"
proof -
  have "Peer_is_valid (fst (snd (fst (get_routing_information example_node))))"
    by (simp add: get_routing_information_def example_node_def handler_init_def MessageHandler_new_def
        Let_def split_def rt_simps Peer_is_valid_def example_env_def to_string_int_def
        generate_sha256_addr_def)
  then show ?thesis
    using reports_exhaust_sockets [of 2 "replicate 3 (True, True, example_node)" "\<lambda>_. ''{}''"]
    by (auto simp: numeral_2_eq_2 length_Suc_conv)
qed

end
