(* ===== verification/Crash_Causes.thy ===== *)
theory Crash_Causes
  imports Node_Reachable
begin

section \<open>What makes a node crash\<close>

text \<open>
  \<open>node_crashes\<close> names the kinds of crashes a running node can have; here is what each of them
  takes: which message, in which state. What the node starts itself never crashes, neither do the
  clean-up and the steps of the composites; a crash is always the work of a message from the
  network, or of an address that cannot be resolved.
\<close>

subsection \<open>Single messages\<close>

lemma res_bind_Inl: "res_bind r f = Inl e \<longleftrightarrow> r = Inl e \<or> (\<exists>x. r = Inr x \<and> f x = Inl e)"
  by (cases r) auto

lemma find_successor_total: "find_successor i rt \<noteq> Inl e"
  using find_successor_ok [of i rt] by auto

lemma leaf_start_total:
  assumes "leaf_fresh l" "\<not> leaf_is_handler l"
  shows "leaf_run env l w \<noteq> Inl e"
proof -
  note defs = leaf_fresh_def leaf_is_done_def leaf_is_handler_def run_message_def lift_step_Inl
    finish_defs Let_def split_def find_successor_total send_with_handler_eq pending_set res_bind_Inl
  show ?thesis
    using assms
    by (cases l)
      (auto simp: defs qu_create_request_def fs_create_request_def no_create_request_def
        cp_create_request_def cp_set_flag_def sl_create_request_def sl_fail_def
        ss_create_request_def ss_fail_def ps_create_request_def ps_fail_def gf_create_request_def
        split: option.splits if_splits)
qed

text \<open>A request of another node: the first peer or the first file is taken without looking, and
  the address of a session is asked for that may be closed.\<close>

definition leaf_request_cause :: "Env \<Rightarrow> MessageType \<Rightarrow> session_id \<Rightarrow> Message \<Rightarrow> crash \<Rightarrow> bool" where
  "leaf_request_cause env k s m e \<longleftrightarrow>
     e = FrontOfEmpty \<and>
       (k \<in> {QUERY, FIND_SUCCESSOR} \<and> msg_peers m = [] \<or> k = GET_FILE \<and> msg_files m = []) \<or>
     e = SystemError \<and> k = QUERY \<and> en_remote_ip env s = None"

lemma front_Inl: "front xs = Inl e \<longleftrightarrow> xs = [] \<and> e = FrontOfEmpty"
  by (cases xs) auto

lemma gf_write_file_total: "mb_request g = Some r \<Longrightarrow> ro_message r = Some m \<Longrightarrow> gf_write_file env failed g w \<noteq> Inl e"
  by (auto simp: gf_write_file_def gf_write_buffer_def finish_defs Let_def split_def find_successor_total res_bind_Inl
      get_message_def split: if_splits sum.splits)

lemma leaf_request_causes:
  assumes "leaf_fresh l" "leaf_is_handler l" "mb_request (leaf_base l) = Some r" "ro_message r = Some m"
    "ro_connection r = ConnSession s" "leaf_run env l w = Inl e"
  shows "leaf_request_cause env (leaf_kind l) s m e"
proof -
  have m: "get_message r = Inr m" using assms(4) by (simp add: get_message_def)
  note defs = leaf_fresh_def leaf_is_done_def leaf_is_handler_def run_message_def lift_step_Inl
    finish_defs Let_def split_def find_successor_total send_with_handler_eq pending_set leaf_request_cause_def
  show ?thesis
  proof (cases l)
    case (LQuery q)
    then show ?thesis
      using assms m
      by (auto simp: defs qu_handle_request_def get_client_ip_def is_session_def get_session_def
          front_Inl res_bind_Inl split: option.splits sum.splits)
  next
    case (LFindSuccessor f)
    then show ?thesis
      using assms m
      by (auto simp: defs fs_handle_request_def fs_forward_request_def front_Inl res_bind_Inl
          split: option.splits sum.splits)
  next
    case (LGetFile g)
    then show ?thesis
      using assms m gf_write_file_total [of "g\<lparr>gf_source := x\<rparr>" for x]
      by (auto simp: defs gf_handle_request_def front_Inl res_bind_Inl
          split: option.splits if_splits sum.splits)
  qed (use assms m in \<open>auto simp: defs no_handle_request_def cp_handle_request_def
      sl_handle_request_def ss_handle_request_def ps_handle_request_def front_Inl res_bind_Inl
      split: option.splits if_splits sum.splits\<close>)
qed

text \<open>An answer: the first peer, or the chunk, is taken without looking.\<close>

definition response_cause :: "MessageType \<Rightarrow> Message \<Rightarrow> crash \<Rightarrow> bool" where
  "response_cause k m e \<longleftrightarrow>
     e = FrontOfEmpty \<and> k = FIND_SUCCESSOR \<and> msg_peers m = [] \<or>
     e = BadOptionalAccess \<and> k = GET_FILE \<and> msg_file_chunk m = None \<or>
     e = ReadPastEnd \<and> k = GET_FILE \<and>
       (\<exists>c. msg_file_chunk m = Some c \<and> length (chunk_data c) < unat (chunk_size c))"

lemma leaf_response_causes:
  assumes "leaf_inv l" "leaf_ready l" "ro_message r = Some m" "ro_connection r = ConnSession s"
    "leaf_handle env f r l w = Inl e"
  shows "response_cause (leaf_kind l) m e"
proof -
  have m: "get_message r = Inr m" using assms(3) by (simp add: get_message_def)
  note defs = leaf_inv_def leaf_ready_def leaf_is_done_def leaf_is_handler_def lift_step_Inl
    finish_defs Let_def split_def find_successor_total pending_set response_cause_def front_Inl res_bind_Inl
  have req: "get_message q = Inr (the (ro_message q))" if "request_sound q" for q
    using that by (rule get_message_sound)
  show ?thesis
  proof (cases l)
    case (LFindSuccessor fs)
    then show ?thesis
      using assms m req
      by (cases f) (auto simp: defs fs_handle_response_def fs_handle_forwarded_response_def base_inv_def
          split: option.splits if_splits sum.splits)
  next
    case (LGetFile g)
    then show ?thesis
      using assms m
      by (auto simp: defs gf_handle_response_def ow_write_def get_session_def
          split: option.splits if_splits bool.splits sum.splits)
  qed (use assms m in \<open>auto simp: defs qu_handle_response_def no_handle_response_def
      cp_handle_response_def cp_set_flag_def sl_handle_response_def ss_handle_response_def ss_fail_def
      ps_handle_response_def ps_fail_def split: option.splits if_splits sum.splits\<close>)
qed

lemma leaf_write_causes:
  assumes "leaf_inv l" "leaf_on_write env failed l w = Inl e"
  shows "e = BadOptionalAccess \<and> leaf_kind l = GET_FILE \<and> \<not> leaf_is_handler l"
proof (cases l)
  case (LGetFile g)
  have "request_sound r" if "mb_request g = Some r" for r
    using assms(1) that by (simp add: LGetFile leaf_inv_def base_inv_def)
  then have "mb_request g = None"
    using assms(2) gf_write_file_total [of g _ _ env failed w e] request_sound_def
    by (cases "mb_request g") (auto simp: LGetFile lift_step_Inl)
  then show ?thesis
    using assms
    by (auto simp: LGetFile leaf_inv_def base_inv_def leaf_is_handler_def lift_step_Inl gf_write_file_def
        gf_write_buffer_def finish_defs Let_def split_def find_successor_total res_bind_Inl split: if_splits)
qed (use assms(2) in simp_all)

subsection \<open>Composites\<close>

text \<open>A composite has no crash of its own.\<close>

lemma run_child_total:
  "leaf_fresh l \<Longrightarrow> startable l \<Longrightarrow> \<not> leaf_is_handler l \<Longrightarrow> run_child c env l w \<noteq> Inl e"
  using start_shape [of l env w] by (auto simp: run_child_def)

lemma join_start_child_total:
  "leaf_fresh l \<Longrightarrow> startable l \<Longrightarrow> \<not> leaf_is_handler l \<Longrightarrow> join_start_child env l j w \<noteq> Inl e"
  by (auto simp: join_start_child_def res_bind_Inl run_child_total)

lemma sb_start_child_total:
  "leaf_fresh l \<Longrightarrow> startable l \<Longrightarrow> \<not> leaf_is_handler l \<Longrightarrow> sb_start_child env l s w \<noteq> Inl e"
  by (auto simp: sb_start_child_def res_bind_Inl run_child_total)

lemma join_notify_total:
  assumes "world_inv w" "jo_deps j = [(l, True)]" "leaf_state l = DONE \<Longrightarrow> leaf_gettable l"
  shows "join_notify env j w \<noteq> Inl e"
proof (cases "leaf_is_done l \<and> leaf_state l = DONE")
  case False
  with assms(2) show ?thesis by (auto simp: join_notify_def finish_defs)
next
  case True
  with assms(3) have g: "leaf_gettable l" by blast
  have r: "replace_after_successor v (w_table w) \<noteq> Inl e" for v
    using rt_inv_replace_after [of "w_table w" v] assms(1) by (auto dest: world_invD)
  from True assms(2) g r show ?thesis
    by (cases l)
      (auto simp: join_notify_def handle_query_notify_def handle_find_successor_notify_def
        handle_get_successor_list_notify_def res_bind_Inl split_def Let_def finish_defs
        join_start_child_total dest!: gettable_get)
qed

lemma create_notification_total: "create_notification env s w \<noteq> Inl e"
  by (simp add: create_notification_def Let_def split_def sb_start_child_total)

lemma sb_notify_total:
  assumes "sb_has_flag s" "sb_deps s = (l, b) # ds" "leaf_state l = DONE \<Longrightarrow> leaf_gettable l"
  shows "sb_notify env s w \<noteq> Inl e"
proof (cases "leaf_is_done l \<and> leaf_state l = DONE")
  case False
  with assms(1,2) show ?thesis by (auto simp: sb_notify_def sb_failed_def sb_clear_flag_def finish_defs)
next
  case True
  with assms(3) have g: "leaf_gettable l" by blast
  from True assms(1,2) g show ?thesis
    by (cases l)
      (auto simp: sb_notify_def handle_get_pred_and_succ_list_notify_def sb_clear_flag_def sb_failed_def
        handle_get_self_and_succ_list_notify_def handle_notification_notify_def res_bind_Inl split_def
        Let_def finish_defs sb_start_child_total create_notification_total
        dest!: gettable_get create_notification_flag split: list.splits option.splits if_splits)
qed

lemma absorb_bf_total: "absorb bf_on_signal sigs b w \<noteq> Inl e"
  by (induction sigs arbitrary: b w)
    (auto simp: res_bind_Inl bf_on_signal_def bf_notify_def finish_defs Let_def split: signal.splits)

text \<open>So a step that is delivered to an object fails only when the single message it is for fails.\<close>

definition obj_leaf :: "message_obj \<Rightarrow> leaf \<Rightarrow> bool" where
  "obj_leaf ob l \<longleftrightarrow> ob = MLeaf l \<or> l \<in> fst ` set (obj_deps ob)"

lemma obj_leaf_simps [simp]:
  "obj_leaf (MLeaf l) l' \<longleftrightarrow> l' = l" "obj_leaf (MJoin j) l \<longleftrightarrow> l \<in> fst ` set (jo_deps j)"
  "obj_leaf (MStabilize s) l \<longleftrightarrow> l \<in> fst ` set (sb_deps s)"
  "obj_leaf (MBroadcast b) l \<longleftrightarrow> l \<in> fst ` set (bf_deps b)"
  by (auto simp: obj_leaf_def)

lemma obj_leaf_inv: "obj_inv ob \<Longrightarrow> obj_leaf ob l \<Longrightarrow> leaf_inv l"
  by (cases ob) (auto simp: deps_inv_def)

lemma join_response_total:
  assumes inv: "obj_inv (MJoin j)" and w: "world_inv w" and nd: "\<not> mb_is_done j"
    and d: "jo_deps j = [(d, True)]" "\<not> leaf_is_done d" and r: "request_sound resp"
    and e: "join_child env (leaf_handle env HandleResponse resp d w) j = Inl e"
  shows "leaf_handle env HandleResponse resp d w = Inl e"
proof (cases "leaf_handle env HandleResponse resp d w")
  case (Inl e')
  with e show ?thesis by (simp add: join_child_def)
next
  case (Inr x)
  obtain d' w' sigs where x: "x = (d', w', sigs)" by (cases x)
  note eq = Inr [unfolded x]
  have kind: "leaf_kind d \<in> {QUERY, FIND_SUCCESSOR, GET_SUCCESSOR_LIST}"
    and h: "\<not> leaf_is_handler d" and di: "leaf_inv d"
    using inv d by (auto simp: child_kinds_def deps_inv_def)
  then have ready: "leaf_ready d" using d(2) by (auto simp: leaf_ready_def)
  note di' = leaf_handle_inv [OF di ready r w eq]
  have s: "sigs = [SigNotify]" "leaf_is_done d'" using child_response [OF eq] kind h di d(2) by auto
  have g: "leaf_state d' = DONE \<Longrightarrow> leaf_gettable d'"
    using leaf_handle_effect(2) [OF eq di ready] kind h s(2) by auto
  have "join_notify env (j\<lparr>jo_deps := [(d', True)]\<rparr>) w' \<noteq> Inl e"
    by (rule join_notify_total [OF di'(5)]) (use g in simp_all)
  with e eq s(1) d di'(2) show ?thesis
    by (simp add: join_child_def set_child_single join_on_signal_def res_bind_Inl split_def)
qed

lemma sb_response_total:
  assumes inv: "obj_inv (MStabilize s)" and w: "world_inv w" and nd: "\<not> mb_is_done s"
    and d: "sb_deps s = (d, b) # ds" "\<not> leaf_is_done d" and r: "request_sound resp"
    and e: "sb_child env (leaf_handle env HandleResponse resp d w) s = Inl e"
  shows "leaf_handle env HandleResponse resp d w = Inl e"
proof (cases "leaf_handle env HandleResponse resp d w")
  case (Inl e')
  with e show ?thesis by (simp add: sb_child_def)
next
  case (Inr x)
  obtain d' w' sigs where x: "x = (d', w', sigs)" by (cases x)
  note eq = Inr [unfolded x]
  have kind: "leaf_kind d \<in> {GET_PRED_AND_SUCC_LIST, GET_SELF_AND_SUCC_LIST, NOTIFICATION}"
    and h: "\<not> leaf_is_handler d" and di: "leaf_inv d"
    using inv d by (auto simp: child_kinds_def deps_inv_def)
  then have ready: "leaf_ready d" using d(2) by (auto simp: leaf_ready_def)
  note di' = leaf_handle_inv [OF di ready r w eq]
  have s: "sigs = [SigNotify]" "leaf_is_done d'" using child_response [OF eq] kind h di d(2) by auto
  have g: "leaf_state d' = DONE \<Longrightarrow> leaf_gettable d'"
    using leaf_handle_effect(2) [OF eq di ready] kind h s(2) by auto
  have "sb_notify env (s\<lparr>sb_deps := (d', b) # set_child d' ds\<rparr>) w' \<noteq> Inl e"
    by (rule sb_notify_total) (use inv g in simp_all)
  with e eq s(1) d di'(2) show ?thesis
    by (simp add: sb_child_def set_child_hd sb_on_signal_def res_bind_Inl split_def)
qed

lemma obj_response_causes:
  assumes inv: "obj_inv ob" and w: "world_inv w" and r: "request_sound resp"
    and ok: "obj_handlers_ok hs ob" and h: "h \<in> hs" and i: "ho_parent h \<in> set (obj_oids ob)"
    and e: "obj_deliver env (ho_parent h) (leaf_handle env (ho_handler h) resp) ob w = Inl e"
  shows "\<exists>l. obj_leaf ob l \<and> leaf_oid l = ho_parent h \<and> leaf_ready l \<and>
    leaf_handle env (ho_handler h) resp l w = Inl e"
proof (cases ob)
  case (MLeaf l)
  with i ok h e show ?thesis by (auto simp: obj_oids_eq lift_step_Inl)
next
  case (MJoin j)
  with e obtain d0 where "find_child (ho_parent h) (jo_deps j) = Some d0" by (auto split: option.splits)
  then have True: "ho_parent h \<in> set (dep_oids ob)"
    using MJoin find_child_None [of "ho_parent h" "jo_deps j"] by (auto simp del: set_map)
  obtain d where d: "jo_deps j = [(d, True)]" using inv MJoin by auto
  from ok h True MJoin d have f: "\<not> mb_is_done j" "ho_parent h = leaf_oid d" "\<not> leaf_is_done d"
    "ho_handler h = HandleResponse"
    by auto
  have "join_child env (leaf_handle env HandleResponse resp d w) j = Inl e"
    using e f d find_child_hd [of "(d, True)" "ho_parent h" "[]"] by (simp add: MJoin lift_step_Inl)
  with join_response_total [OF _ w f(1) d f(3) r] inv MJoin
  have "leaf_handle env HandleResponse resp d w = Inl e" by simp
  moreover have "leaf_ready d"
    using inv d f(3) MJoin by (auto simp: leaf_ready_def child_kinds_def)
  ultimately show ?thesis using MJoin d f by auto
next
  case (MStabilize s)
  with e obtain d0 where "find_child (ho_parent h) (sb_deps s) = Some d0" by (auto split: option.splits)
  then have True: "ho_parent h \<in> set (dep_oids ob)"
    using MStabilize find_child_None [of "ho_parent h" "sb_deps s"] by (auto simp del: set_map)
  then obtain d b ds where d: "sb_deps s = (d, b) # ds" using MStabilize by (cases "sb_deps s") auto
  from ok h True MStabilize d have f: "\<not> mb_is_done s" "ho_parent h = leaf_oid d" "\<not> leaf_is_done d"
    "ho_handler h = HandleResponse"
    by auto
  have "sb_child env (leaf_handle env HandleResponse resp d w) s = Inl e"
    using e f d find_child_hd [of "(d, b)" "ho_parent h" ds] by (simp add: MStabilize lift_step_Inl)
  with sb_response_total [OF _ w f(1) d f(3) r] inv MStabilize
  have "leaf_handle env HandleResponse resp d w = Inl e" by simp
  moreover have "leaf_ready d"
    using inv d f(3) MStabilize by (auto simp: leaf_ready_def child_kinds_def)
  ultimately show ?thesis using MStabilize d f by auto
next
  case (MBroadcast b)
  with e obtain d where d: "find_child (ho_parent h) (bf_deps b) = Some d" by (auto split: option.splits)
  with find_child_SomeD [OF d] inv MBroadcast have "leaf_kind d = GET_FILE"
    by (auto simp: child_kinds_def)
  moreover have "leaf_handle env (ho_handler h) resp d w = Inl e"
    using e d by (simp add: MBroadcast lift_step_Inl bf_child_def res_bind_Inl absorb_bf_total split_def)
  ultimately show ?thesis
    using find_child_SomeD [OF d] MBroadcast by (force simp: leaf_ready_def)
qed

lemma obj_written_causes:
  assumes inv: "obj_inv ob" and i: "i \<in> set (obj_oids ob)"
    and e: "obj_deliver env i (leaf_on_write env failed) ob w = Inl e"
  shows "\<exists>l. obj_leaf ob l \<and> leaf_oid l = i \<and> leaf_on_write env failed l w = Inl e"
proof (cases ob)
  case (MLeaf l)
  with i e show ?thesis by (auto simp: obj_oids_eq lift_step_Inl)
next
  case (MJoin j)
  have "leaf_on_write env failed d w = Inr (d, w, [])" if "find_child i (jo_deps j) = Some d" for d
    using find_child_SomeD [OF that] inv MJoin by (cases d) (auto simp: child_kinds_def)
  with e MJoin show ?thesis by (auto simp: lift_step_Inl join_child_def split: option.splits)
next
  case (MStabilize s)
  have "leaf_on_write env failed d w = Inr (d, w, [])" if "find_child i (sb_deps s) = Some d" for d
    using find_child_SomeD [OF that] inv MStabilize by (cases d) (auto simp: child_kinds_def)
  with e MStabilize show ?thesis by (auto simp: lift_step_Inl sb_child_def split: option.splits)
next
  case (MBroadcast b)
  with e obtain d where d: "find_child i (bf_deps b) = Some d" by (auto split: option.splits)
  have "leaf_on_write env failed d w = Inl e"
    using e d by (simp add: MBroadcast lift_step_Inl bf_child_def res_bind_Inl absorb_bf_total split_def)
  with find_child_SomeD [OF d] MBroadcast show ?thesis by force
qed

text \<open>Nothing an object starts on behalf of the node itself fails, and no broadcast does.\<close>

lemma bf_fetch_total: "bf_fetch env p fs b w \<noteq> Inl e"
proof -
  have "\<not> leaf_is_handler (LGetFile (GetFile_new i c f now))" for i c f now
    by (simp add: leaf_is_handler_def leaf_new_defs)
  note start = leaf_start_total [OF new_leaf_fresh(8) this]
  show ?thesis
    by (induction fs arbitrary: b w)
      (auto simp: res_bind_Inl Let_def split_def absorb_bf_total start simp del: leaf_run.simps)
qed

lemma bf_run_total:
  assumes "base_inv b"
  shows "obj_run env (MBroadcast b) w \<noteq> Inl e"
proof -
  have "get_message r \<noteq> Inl e" if "mb_request b = Some r" for r
    using assms that by (auto simp: base_inv_def get_message_sound)
  moreover have "front (ps @ [p]) \<noteq> Inl e" for ps :: "Peer list" and p
    by (cases ps) auto
  ultimately show ?thesis
    by (auto simp: lift_step_Inl run_message_def bf_handle_request_def bf_create_request_def
        res_bind_Inl Let_def split_def finish_defs bf_fetch_total split: option.splits if_splits)
qed

lemma stabilize_run_total: "obj_run env (MStabilize (Stabilize_new i now)) w \<noteq> Inl e"
  by (auto simp: lift_step_Inl run_message_def sb_create_request_def sb_failed_def sb_clear_flag_def
      finish_defs res_bind_Inl split_def Let_def sb_start_child_total Stabilize_new_def Stabilize.defs
      MessagingBase.defs MessagingBase_new_def split: option.splits if_splits)

lemma join_run_total: "Join_new i a p w0 = (j, w1) \<Longrightarrow> obj_run env (MJoin j) w \<noteq> Inl e"
  by (auto simp: lift_step_Inl run_message_def join_create_request_def Join_new_def new_oid_def
      res_bind_Inl split_def run_child_total MessagingBase.defs MessagingBase_new_def Join.defs)

lemma leaf_run_total:
  "leaf_fresh l \<Longrightarrow> \<not> leaf_is_handler l \<Longrightarrow> obj_run env (MLeaf l) w \<noteq> Inl e"
  by (simp add: lift_step_Inl leaf_start_total)

lemma run_object_Inl: "run_object env ob nd = Inl e \<longleftrightarrow> obj_run env ob (nd_world nd) = Inl e"
  by (auto simp: run_object_def res_bind_Inl split_def Let_def)

subsection \<open>The node\<close>

text \<open>What a crash of a step comes from. A message that was received: bytes that do not decode; a
  request that names no peer or no file where one is needed, or whose session has lost its peer;
  an answer that lacks the peer or the chunk its object waits for. A write that was reported to a
  transfer which sends nothing. A receiver whose address is not found, or a message that
  cannot be encoded.\<close>

definition request_cause :: "Env \<Rightarrow> string \<Rightarrow> session_id \<Rightarrow> Message \<Rightarrow> crash \<Rightarrow> bool" where
  "request_cause env ty s m e \<longleftrightarrow>
     e = FrontOfEmpty \<and> ty \<in> {''query'', ''find_successor''} \<and> msg_peers m = [] \<or>
     e = FrontOfEmpty \<and> ty = ''get_file'' \<and> msg_files m = [] \<or>
     e = SystemError \<and> ty = ''query'' \<and> en_remote_ip env s = None"

fun crash_cause ::
  "Env \<Rightarrow> (byte list \<Rightarrow> pb_Request) \<Rightarrow> (string \<Rightarrow> string \<Rightarrow> bool) \<Rightarrow> node_event \<Rightarrow> node \<Rightarrow> crash \<Rightarrow> bool"
  where
  "crash_cause env parse resolves (EvReceive buf s) nd e \<longleftrightarrow>
     (case MessageFromSerialized parse buf of
        Inl e' \<Rightarrow> e = e' \<and> e = ReadPastEnd
      | Inr m \<Rightarrow>
          if is_request m then request_cause env (get_request_type m) s m e
          else
            (\<exists>h \<in> set (nd_handlers nd). \<exists>ob \<in> set (nd_active nd). \<exists>l.
               ho_correlation_id h = get_correlational_id m \<and> obj_leaf ob l \<and> leaf_oid l = ho_parent h \<and>
               (e = FrontOfEmpty \<and> leaf_kind l = FIND_SUCCESSOR \<and> msg_peers m = [] \<or>
                e = BadOptionalAccess \<and> leaf_kind l = GET_FILE \<and> msg_file_chunk m = None)))"
| "crash_cause env parse resolves (EvWritten i failed) nd e \<longleftrightarrow>
     e = BadOptionalAccess \<and>
     (\<exists>ob \<in> set (nd_active nd). \<exists>l. obj_leaf ob l \<and> leaf_oid l = i \<and> leaf_kind l = GET_FILE \<and>
        \<not> leaf_is_handler l)"
| "crash_cause env parse resolves EvSend nd e \<longleftrightarrow>
     (\<exists>r q m. nd_send_queue nd = r # q \<and> ro_message r = Some m \<and>
        (e = ReadPastEnd \<and> (\<exists>c. msg_file_chunk m = Some c \<and> length (chunk_data c) < unat (chunk_size c)) \<or>
         e = SystemError \<and> (\<exists>p. ro_connection r = ConnPeer (Some p) \<and> \<not> resolves (peer_ip p) (peer_port p))))"
| "crash_cause env parse resolves ev nd e \<longleftrightarrow> False"

lemma parsed_message_wf: "MessageFromSerialized parse buf = Inr m \<Longrightarrow> message_wf m"
proof -
  have f: "msg_file_chunk (fold (\<lambda>f m. add_file (file_from_pb f) m) fs m) = msg_file_chunk m" for fs m
    by (induction fs arbitrary: m) (simp_all add: add_file_def)
  have p: "msg_file_chunk (fold (\<lambda>p m. add_peer (peer_from_pb p) m) ps m) = msg_file_chunk m" for ps m
    by (induction ps arbitrary: m) (simp_all add: add_peer_def)
  show "MessageFromSerialized parse buf = Inr m \<Longrightarrow> message_wf m"
    by (auto simp: MessageFromSerialized_def message_from_pb_def chunk_from_pb_def Let_def f p
        message_wf_def chunk_wf_def Message_empty_def elim!: res_bind_InrE split: option.splits if_splits)
qed

lemma parse_crash: "MessageFromSerialized parse buf = Inl e \<Longrightarrow> e = ReadPastEnd"
  by (auto simp: MessageFromSerialized_def message_from_pb_def chunk_from_pb_def Let_def res_bind_Inl
      split: option.splits if_splits)

text \<open>The single message the factory makes, by the name in the request.\<close>

fun request_name :: "MessageType \<Rightarrow> string" where
  "request_name NOTIFICATION = ''notify''"
| "request_name CHECK_PREDECESSOR = ''check_predecessor''"
| "request_name QUERY = ''query''"
| "request_name FIND_SUCCESSOR = ''find_successor''"
| "request_name GET_SUCCESSOR_LIST = ''get_successor_list''"
| "request_name GET_PRED_AND_SUCC_LIST = ''get_predecessor_and_succ_list''"
| "request_name GET_SELF_AND_SUCC_LIST = ''get_self_and_successor_list''"
| "request_name BROADCAST_FILELIST = ''broadcast_filelist''"
| "request_name GET_FILE = ''get_file''"
| "request_name _ = ''''"

definition made_leaf :: "RequestObject \<Rightarrow> string \<Rightarrow> message_obj option \<times> world \<Rightarrow> bool" where
  "made_leaf r ty x \<longleftrightarrow>
     (\<forall>l. fst x = Some (MLeaf l) \<longrightarrow>
        leaf_is_handler l \<and> mb_request (leaf_base l) = Some r \<and> request_name (leaf_kind l) = ty)"

lemma made_leaf_if:
  "(c \<Longrightarrow> made_leaf r ty a) \<Longrightarrow> (\<not> c \<Longrightarrow> made_leaf r ty b) \<Longrightarrow> made_leaf r ty (if c then a else b)"
  by simp

lemma create_from_request_leaf:
  assumes "request_sound r" "create_from_request r w = Inr (Some (MLeaf l), w')"
  shows "leaf_is_handler l \<and> mb_request (leaf_base l) = Some r \<and>
    request_name (leaf_kind l) = get_request_type (the (ro_message r))"
proof -
  have "made_leaf r (get_request_type (the (ro_message r))) x" if "create_from_request r w = Inr x" for x
    using that
    unfolding create_from_request_def ro_is_request_def ro_get_request_type_def
      get_message_sound [OF assms(1)] res_bind_simps Let_def split_def new_oid_simps
      if_distrib [of Inr, symmetric] sum.inject
    by (elim subst)
      (intro made_leaf_if; simp add: made_leaf_def leaf_is_handler_def Notification_new_request_def
      CheckPredecessor_new_request_def Query_new_request_def FindSuccessor_new_request_def
      GetSuccessorList_new_request_def GetPredAndSuccList_new_request_def
      GetSelfAndSuccList_new_request_def GetFile_new_request_def MessagingBase_new_request_def
      MessagingBase.defs Notification.defs CheckPredecessor.defs Query.defs FindSuccessor.defs
      GetSuccessorList.defs GetPredAndSuccList.defs GetSelfAndSuccList.defs GetFile.defs)
  from this [OF assms(2)] show ?thesis by (simp add: made_leaf_def)
qed

lemma name_kind:
  assumes "request_name k = ty"
  shows "k = QUERY \<Longrightarrow> ty = ''query''" "k = FIND_SUCCESSOR \<Longrightarrow> ty = ''find_successor''"
    "k = GET_FILE \<Longrightarrow> ty = ''get_file''"
  using assms by auto

lemma handle_request_causes:
  assumes r: "request_sound r" and m: "ro_message r = Some m" and s: "ro_connection r = ConnSession s"
    and e: "handle_request env r nd = Inl e"
  shows "request_cause env (get_request_type m) s m e"
proof -
  let ?i = "w_next_oid (nd_world nd)"
  let ?w = "(nd_world nd)\<lparr>w_next_oid := Suc ?i\<rparr>"
  from create_from_request_cases [OF r, of "nd_world nd"]
  consider (none) "create_from_request r (nd_world nd) = Inr (None, nd_world nd)"
    | (leaf) l where "create_from_request r (nd_world nd) = Inr (Some (MLeaf l), ?w)" "leaf_fresh l"
    | (bc) "create_from_request r (nd_world nd) = Inr (Some (MBroadcast
        (BroadcastFilelist_new_request ?i r (w_now (nd_world nd)))), ?w)"
    by (auto simp: made_def)
  then show ?thesis
  proof cases
    case none
    with e show ?thesis by (simp add: handle_request_def)
  next
    case leaf
    note l = create_from_request_leaf [OF r leaf(1)]
    have "leaf_run env l ?w = Inl e"
      using e leaf(1) by (simp add: handle_request_def run_object_Inl lift_step_Inl)
    from leaf_request_causes [OF leaf(2) _ _ m s this] l
    have "leaf_request_cause env (leaf_kind l) s m e" by blast
    then show ?thesis
      using name_kind [of "leaf_kind l" "get_request_type m"] l m
      by (auto simp: leaf_request_cause_def request_cause_def)
  next
    case bc
    have "base_inv (BroadcastFilelist_new_request ?i r (w_now (nd_world nd)))"
      using r by (simp add: broadcast_new_fields)
    from bf_run_total [OF this] bc e show ?thesis by (simp add: handle_request_def run_object_Inl)
  qed
qed

lemma node_deliver_Inl:
  assumes "node_deliver env i f nd = Inl e"
  shows "\<exists>ob \<in> set (nd_active nd). i \<in> set (obj_oids ob) \<and> obj_deliver env i f ob (nd_world nd) = Inl e"
proof (cases rule: deliver_cases [of env i f "nd_active nd" "nd_world nd"])
  case nobody
  with assms show ?thesis by (simp add: node_deliver_def)
next
  case (found pre ob post)
  then have "obj_deliver env i f ob (nd_world nd) = Inl e"
    using assms by (simp add: node_deliver_def res_bind_Inl split_def)
  with found show ?thesis by auto
qed

lemma handle_response_causes:
  assumes inv: "node_inv nd" and r: "request_sound r" and m: "ro_message r = Some m" "message_wf m"
    and s: "ro_connection r = ConnSession s" and e: "handle_response env r nd = Inl e"
  shows "\<exists>h \<in> set (nd_handlers nd). \<exists>ob \<in> set (nd_active nd). \<exists>l.
    ho_correlation_id h = get_correlational_id m \<and> obj_leaf ob l \<and> leaf_oid l = ho_parent h \<and>
    (e = FrontOfEmpty \<and> leaf_kind l = FIND_SUCCESSOR \<and> msg_peers m = [] \<or>
     e = BadOptionalAccess \<and> leaf_kind l = GET_FILE \<and> msg_file_chunk m = None)"
proof -
  let ?cid = "get_correlational_id m"
  have cid: "ro_get_correlational_id r = Inr ?cid"
    by (simp add: ro_get_correlational_id_def get_message_sound [OF r] m)
  obtain x hs where g:
    "get_and_erase_if ho_correlation_id (\<lambda>h. \<not> ho_is_persistent h) ?cid (nd_handlers nd) = (x, hs)"
    by (cases "get_and_erase_if ho_correlation_id (\<lambda>h. \<not> ho_is_persistent h) ?cid (nd_handlers nd)")
  from e obtain h where x: "x = Some h" and
    d: "node_deliver env (ho_parent h) (leaf_handle env (ho_handler h) r) (nd\<lparr>nd_handlers := hs\<rparr>) = Inl e"
    by (auto simp: handle_response_def cid g Let_def split: option.splits if_splits)
  have h: "h \<in> set (nd_handlers nd)" "ho_correlation_id h = ?cid"
    using g x set_find_SomeD [of ho_correlation_id ?cid "nd_handlers nd" h]
    by (auto simp: get_and_erase_if_def set_erase_def split: option.splits if_splits)
  from node_deliver_Inl [OF d] obtain ob where ob: "ob \<in> set (nd_active nd)"
    "ho_parent h \<in> set (obj_oids ob)"
    "obj_deliver env (ho_parent h) (leaf_handle env (ho_handler h) r) ob (nd_world nd) = Inl e"
    by auto
  have o: "obj_inv ob" "world_inv (nd_world nd)" "obj_handlers_ok (set (nd_handlers nd)) ob"
    using inv ob(1) by (auto simp: node_inv_def)
  from obj_response_causes [OF o(1,2) r o(3) h(1) ob(2,3)] obtain l where
    l: "obj_leaf ob l" "leaf_oid l = ho_parent h" "leaf_ready l"
      "leaf_handle env (ho_handler h) r l (nd_world nd) = Inl e"
    by blast
  from leaf_response_causes [OF obj_leaf_inv [OF o(1) l(1)] l(3) m(1) s l(4)] m(2)
  have "e = FrontOfEmpty \<and> leaf_kind l = FIND_SUCCESSOR \<and> msg_peers m = [] \<or>
     e = BadOptionalAccess \<and> leaf_kind l = GET_FILE \<and> msg_file_chunk m = None"
    by (auto simp: response_cause_def message_wf_def chunk_wf_def)
  with h ob(1) l(1,2) show ?thesis by blast
qed

lemma receive_causes:
  assumes inv: "node_inv nd" and e: "receive env parse buf s nd = Inl e"
  shows "crash_cause env parse resolves (EvReceive buf s) nd e"
proof (cases "MessageFromSerialized parse buf")
  case (Inl e')
  with e show ?thesis by (auto simp: receive_def dest: parse_crash)
next
  case (Inr m)
  let ?r = "set_connection_session s (set_message m (RequestObject_new UNKNOWN (w_now (nd_world nd))))"
  have r: "request_sound ?r" "ro_message ?r = Some m" "ro_connection ?r = ConnSession s"
    by (simp_all add: request_sound_def)
  have d: "dispatch env ?r nd = Inl e" using e Inr by (simp add: receive_def)
  show ?thesis
  proof (cases "is_request m")
    case True
    then have "handle_request env ?r nd = Inl e"
      using d r by (simp add: dispatch_def ro_is_request_def get_message_def)
    from handle_request_causes [OF r this] True Inr show ?thesis by (auto simp: request_cause_def)
  next
    case False
    then have "handle_response env ?r nd = Inl e"
      using d r by (simp add: dispatch_def ro_is_request_def get_message_def)
    from handle_response_causes [OF inv r(1,2) parsed_message_wf [OF Inr] r(3) this] False Inr
    show ?thesis by simp
  qed
qed

lemma written_causes:
  assumes inv: "node_inv nd" and e: "on_write env i failed nd = Inl e"
  shows "crash_cause env parse resolves (EvWritten i failed) nd e"
proof -
  have "node_deliver env i (leaf_on_write env failed) nd = Inl e"
    using e by (auto simp: on_write_def split: if_splits)
  from node_deliver_Inl [OF this] obtain ob where ob: "ob \<in> set (nd_active nd)" "i \<in> set (obj_oids ob)"
    "obj_deliver env i (leaf_on_write env failed) ob (nd_world nd) = Inl e" by auto
  have o: "obj_inv ob" using inv ob(1) by (auto simp: node_inv_def)
  from obj_written_causes [OF o ob(2,3)] obtain l where
    l: "obj_leaf ob l" "leaf_oid l = i" "leaf_on_write env failed l (nd_world nd) = Inl e" by blast
  from leaf_write_causes [OF obj_leaf_inv [OF o l(1)] l(3)] l ob(1) show ?thesis by auto
qed

lemma send_causes:
  assumes inv: "node_inv nd" and e: "run_send ser resolves nd = Inl e"
  shows "crash_cause env parse resolves EvSend nd e"
proof (cases "nd_send_queue nd")
  case Nil
  with e show ?thesis by (simp add: run_send_def wait_for_and_pop_def)
next
  case (Cons r q)
  then have r: "request_sound r" using inv by (simp add: node_inv_def)
  have "send_object ser resolves r = Inl e"
    using e Cons by (auto simp: run_send_def wait_for_and_pop_def res_bind_Inl)
  with r Cons show ?thesis
    by (cases "ro_connection r")
      (auto simp: send_object_def get_message_def frame_message_eq is_session_def get_session_def
        get_peer_def request_sound_def deref_def res_bind_Inl SerializedFromMessage_def
        message_to_pb_def chunk_to_pb_def Let_def split: option.splits if_splits)
qed

text \<open>The rounds of the two loops and a join: nothing that they start fails.\<close>

lemma with_new_leaf_total:
  assumes "\<And>i w. leaf_fresh (mk i w)" "\<And>i w. \<not> leaf_is_handler (mk i w)"
  shows "with_new_oid (\<lambda>i w. (MLeaf (mk i w), w)) env nd \<noteq> Inl e"
  using assms by (simp add: with_new_oid_def run_object_Inl split_def leaf_run_total del: obj_run.simps)

lemma handler_join_total: "handler_join env a p nd \<noteq> Inl e"
proof -
  obtain j w where j: "Join_new (w_next_oid (nd_world nd)) a p
    ((nd_world nd)\<lparr>w_next_oid := Suc (w_next_oid (nd_world nd))\<rparr>) = (j, w)" by fastforce
  show ?thesis
    using join_run_total [OF j]
    by (simp add: handler_join_def with_new_oid_def run_object_Inl split_def j del: obj_run.simps)
qed

lemma handler_broadcast_total: "handler_broadcast env nd \<noteq> Inl e"
  by (simp add: handler_broadcast_def with_new_oid_def run_object_Inl split_def bf_run_total
      broadcast_new_fields del: obj_run.simps)

lemma handler_stabilize_total: "handler_stabilize env nd \<noteq> Inl e"
  by (simp add: handler_stabilize_def with_new_oid_def run_object_Inl split_def stabilize_run_total
      del: obj_run.simps)

lemma handler_check_predecessor_total: "handler_check_predecessor env nd \<noteq> Inl e"
proof -
  have "\<not> leaf_is_handler (LCheckPredecessor (CheckPredecessor_new i now))" for i now
    by (simp add: leaf_is_handler_def leaf_new_defs)
  then show ?thesis
    unfolding handler_check_predecessor_def by (intro with_new_leaf_total new_leaf_fresh)
qed

lemma run_chord_round_total:
  assumes "node_inv nd"
  shows "run_chord_round env nd \<noteq> Inl e"
proof
  assume e: "run_chord_round env nd = Inl e"
  let ?s = "if \<not> w_stabilize_flag (nd_world nd) then handler_stabilize env nd else Inr nd"
  obtain nd1 where s: "?s = Inr nd1" using handler_stabilize_total by (cases ?s) (auto split: if_splits)
  have nd1: "node_inv nd1" using s assms handler_stabilize_ok [OF assms, of env] by (auto split: if_splits)
  let ?c = "if \<not> w_check_predecessor_flag (nd_world nd1) then handler_check_predecessor env nd1 else Inr nd1"
  obtain nd2 where c: "?c = Inr nd2"
    using handler_check_predecessor_total by (cases ?c) (auto split: if_splits)
  have nd2: "node_inv nd2"
    using c nd1 handler_check_predecessor_ok [OF nd1, of env] by (auto split: if_splits)
  from e s c have "node_clean nd2 = Inl e" by (simp add: run_chord_round_def)
  with node_clean_ok [OF nd2] show False by auto
qed

lemma node_step_causes:
  assumes "node_inv nd" "node_step env parse ser resolves ev nd = Inl e"
  shows "crash_cause env parse resolves ev nd e"
proof (cases ev)
  case (EvReceive buf s)
  with assms show ?thesis by (metis node_step.simps(1) receive_causes)
next
  case (EvWritten i failed)
  with assms show ?thesis by (metis node_step.simps(2) written_causes)
next
  case EvSend
  with assms show ?thesis using send_causes [OF assms(1)] by (auto simp: res_bind_Inl split_def)
qed (use assms in \<open>auto simp: run_chord_round_total run_paste_round_def handler_broadcast_total
    handler_join_total\<close>)

subsection \<open>Property\<close>



end
