(* ===== verification/Object_Contracts.thy ===== *)
theory Object_Contracts
  imports Crash_Causes
begin

section \<open>From single messages to nodes\<close>

text \<open>
  A contract for single messages, \<open>leaf_contract\<close>: what is true of each of them and of every request
  they send. The composites and the message handler only start single messages, pass their
  requests on and deliver answers to them; so what is proved of the eight kinds of single messages
  holds of the whole node.
\<close>

subsection \<open>What is true of every part\<close>

fun signal_all :: "(RequestObject \<Rightarrow> bool) \<Rightarrow> signal \<Rightarrow> bool" where
  "signal_all R (Sig r) = R r"
| "signal_all R (SigH r h) = R r"
| "signal_all R s = True"

definition leaf_keeps :: "(leaf \<Rightarrow> bool) \<Rightarrow> (RequestObject \<Rightarrow> bool) \<Rightarrow> leaf step \<Rightarrow> bool" where
  "leaf_keeps P R r \<longleftrightarrow>
     (\<forall>l w sigs. r = Inr (l, w, sigs) \<longrightarrow> P l \<and> (\<forall>s \<in> set sigs. signal_all R s))"

definition deps_all :: "(leaf \<Rightarrow> bool) \<Rightarrow> dependencies \<Rightarrow> bool" where
  "deps_all P ds \<longleftrightarrow> (\<forall>d \<in> set ds. P (fst d))"

definition obj_all :: "(leaf \<Rightarrow> bool) \<Rightarrow> message_obj \<Rightarrow> bool" where
  "obj_all P ob \<longleftrightarrow> (\<forall>l. obj_leaf ob l \<longrightarrow> P l)"

definition obj_keeps :: "(leaf \<Rightarrow> bool) \<Rightarrow> (RequestObject \<Rightarrow> bool) \<Rightarrow> message_obj step \<Rightarrow> bool" where
  "obj_keeps P R r \<longleftrightarrow>
     (\<forall>ob w sigs. r = Inr (ob, w, sigs) \<longrightarrow> obj_all P ob \<and> (\<forall>s \<in> set sigs. signal_all R s))"

definition node_all :: "(leaf \<Rightarrow> bool) \<Rightarrow> (RequestObject \<Rightarrow> bool) \<Rightarrow> node \<Rightarrow> bool" where
  "node_all P R nd \<longleftrightarrow>
     (\<forall>r \<in> set (nd_send_queue nd). R r) \<and> (\<forall>ob \<in> set (nd_active nd). obj_all P ob)"

lemma deps_all_simps [simp]:
  "deps_all P []" "deps_all P (d # ds) \<longleftrightarrow> P (fst d) \<and> deps_all P ds"
  "deps_all P (ds @ ds') \<longleftrightarrow> deps_all P ds \<and> deps_all P ds'"
  by (auto simp: deps_all_def)

lemma deps_allD: "deps_all P ds \<Longrightarrow> (l, e) \<in> set ds \<Longrightarrow> P l"
  by (auto simp: deps_all_def)

lemma obj_all_simps [simp]:
  "obj_all P (MLeaf l) = P l"
  "obj_all P (MJoin j) = deps_all P (jo_deps j)"
  "obj_all P (MStabilize s) = deps_all P (sb_deps s)"
  "obj_all P (MBroadcast b) = deps_all P (bf_deps b)"
  by (auto simp: obj_all_def deps_all_def)

lemma obj_keeps_simps [simp]:
  "obj_keeps P R (Inl e)"
  "obj_keeps P R (Inr (ob, w, sigs)) \<longleftrightarrow> obj_all P ob \<and> (\<forall>s \<in> set sigs. signal_all R s)"
  "obj_keeps P R (lift_step MLeaf r) = leaf_keeps P R r"
  by (auto simp: obj_keeps_def leaf_keeps_def lift_step_Inr)

lemma obj_keeps_bind:
  "(\<And>x. r = Inr x \<Longrightarrow> obj_keeps P R (lift_step c (f x))) \<Longrightarrow> obj_keeps P R (lift_step c (res_bind r f))"
  by (cases r) (simp_all add: lift_step_def)

lemma obj_keeps_finish:
  "obj_keeps P R (lift_step MJoin (finish_as st j w sigs)) \<longleftrightarrow>
     obj_all P (MJoin j) \<and> (\<forall>s \<in> set sigs. signal_all R s)"
  "obj_keeps P R (lift_step MStabilize (finish_as st s w sigs)) \<longleftrightarrow>
     obj_all P (MStabilize s) \<and> (\<forall>s \<in> set sigs. signal_all R s)"
  "obj_keeps P R (lift_step MBroadcast (finish_as st b w sigs)) \<longleftrightarrow>
     obj_all P (MBroadcast b) \<and> (\<forall>s \<in> set sigs. signal_all R s)"
  by (auto simp: finish_defs lift_step_def)

lemma obj_all_time [simp]:
  "obj_all P (MStabilize (s\<lparr>mb_time_point := t\<rparr>)) = obj_all P (MStabilize s)"
  "obj_all P (MStabilize (s\<lparr>sb_deps := ds\<rparr>)) = (deps_all P ds)"
  "obj_all P (MJoin (j\<lparr>jo_deps := ds\<rparr>)) = (deps_all P ds)"
  by simp_all

lemma node_all_frames [simp]:
  "node_all P R (nd\<lparr>nd_world := w\<rparr>) = node_all P R nd"
  "node_all P R (nd\<lparr>nd_handlers := hs\<rparr>) = node_all P R nd"
  by (simp_all add: node_all_def)

text \<open>The request object of a received message, and what is true of the object made for it.\<close>

definition received_request :: "session_id \<Rightarrow> Message \<Rightarrow> nat \<Rightarrow> RequestObject" where
  "received_request s m now = set_connection_session s (set_message m (RequestObject_new UNKNOWN now))"

lemma received_request_simps [simp]:
  "ro_message (received_request s m now) = Some m" "request_sound (received_request s m now)"
  "ro_on_write_handler (received_request s m now) = None"
  by (simp_all add: received_request_def request_sound_def set_connection_session_def set_message_def
      RequestObject_new_def)

definition made_all :: "(leaf \<Rightarrow> bool) \<Rightarrow> (byte list \<Rightarrow> pb_Request) \<Rightarrow> node_event \<Rightarrow> node \<Rightarrow> bool" where
  "made_all P parse ev nd \<longleftrightarrow>
     (\<forall>buf s m ob w. ev = EvReceive buf s \<longrightarrow> MessageFromSerialized parse buf = Inr m \<longrightarrow> is_request m \<longrightarrow>
        create_from_request (received_request s m (w_now (nd_world nd))) (nd_world nd) = Inr (Some ob, w) \<longrightarrow>
        obj_all P ob)"

subsection \<open>The contract\<close>

locale leaf_contract =
  fixes P :: "leaf \<Rightarrow> bool" and R :: "RequestObject \<Rightarrow> bool"
  assumes run: "P l \<Longrightarrow> leaf_keeps P R (leaf_run env l w)"
    and handle: "P l \<Longrightarrow> leaf_keeps P R (leaf_handle env f resp l w)"
    and written: "P l \<Longrightarrow> leaf_keeps P R (leaf_on_write env failed l w)"
    and check: "leaf_check_state l w = Inr (st, l', w') \<Longrightarrow> P l \<Longrightarrow> P l'"
    and mark: "P (mark_retrieved l) = P l"
    and own: "mb_request (leaf_base l) = None \<Longrightarrow> P l"
    and announce: "ps \<noteq> [] \<Longrightarrow> R (fst (bf_send env ps fs t b w))"
begin

declare mark [simp] announce [simp]

text \<open>A message the node starts by itself has no request to answer.\<close>

lemma new_leaf_all [simp]:
  "P (LQuery (Query_new i a p now))" "P (LFindSuccessor (FindSuccessor_new_target i t x now))"
  "P (LGetSuccessorList (GetSuccessorList_new i c now))"
  "P (LGetSelfAndSuccList (GetSelfAndSuccList_new i c now))"
  "P (LGetPredAndSuccList (GetPredAndSuccList_new i c now))"
  "P (LNotification (Notification_new i now))" "P (LCheckPredecessor (CheckPredecessor_new i now))"
  "P (LGetFile (GetFile_new i c f now))"
  by (rule own, simp add: leaf_new_defs)+

lemma run_child_keeps: "P l \<Longrightarrow> leaf_keeps P R (run_child c env l w)"
  using run [of l env w]
  by (auto simp: run_child_def leaf_keeps_def elim!: res_bind_InrE split: if_splits)

lemma join_start_child_keeps:
  "P l \<Longrightarrow> obj_keeps P R (lift_step MJoin (join_start_child env l j w))"
  using run_child_keeps [of l SelfDeadlock env w]
  by (auto simp: obj_keeps_def join_start_child_def leaf_keeps_def lift_step_Inr elim!: res_bind_InrE)

lemma sb_start_child_keeps:
  "P l \<Longrightarrow> obj_all P (MStabilize s) \<Longrightarrow> obj_keeps P R (lift_step MStabilize (sb_start_child env l s w))"
  using run_child_keeps [of l Reentrant env w]
  by (auto simp: obj_keeps_def sb_start_child_def leaf_keeps_def lift_step_Inr elim!: res_bind_InrE)

lemma join_notify_keeps:
  assumes "obj_all P (MJoin j)"
  shows "obj_keeps P R (lift_step MJoin (join_notify env j w))"
  using assms
  by (auto simp: join_notify_def handle_query_notify_def handle_find_successor_notify_def
      handle_get_successor_list_notify_def Let_def split_def obj_keeps_finish lift_step_def [of _ "Inr x" for x]
      simp del: obj_all_simps split: leaf.split intro!: obj_keeps_bind join_start_child_keeps)

lemma create_notification_keeps:
  "obj_all P (MStabilize s) \<Longrightarrow> obj_keeps P R (lift_step MStabilize (create_notification env s w))"
  by (simp add: create_notification_def Let_def split_def sb_start_child_keeps del: obj_all_simps)

lemma sb_failed_keeps:
  "obj_all P (MStabilize s) \<Longrightarrow> obj_keeps P R (lift_step MStabilize (sb_failed s w))"
  by (simp add: sb_failed_def obj_keeps_bind obj_keeps_finish del: obj_all_simps)

lemma create_notification_all:
  assumes "create_notification env s w = Inr (s', w', sigs)" "obj_all P (MStabilize s)"
  shows "obj_all P (MStabilize s')" "\<forall>s \<in> set sigs. signal_all R s"
  using create_notification_keeps [OF assms(2), of env w] assms(1)
  by (simp_all add: lift_step_def del: obj_all_simps)

lemma handle_pred_list_keeps:
  assumes s: "obj_all P (MStabilize s)"
  shows "obj_keeps P R (lift_step MStabilize (handle_get_pred_and_succ_list_notify env l s w))"
proof -
  have t: "obj_all P (MStabilize (s\<lparr>mb_time_point := t\<rparr>))" for t using s by simp
  show ?thesis
    using s
    by (auto simp: handle_get_pred_and_succ_list_notify_def Let_def split_def
        lift_step_def [of _ "Inr x" for x] simp del: obj_all_simps(3)
        split: option.split list.split
        intro!: obj_keeps_bind sb_start_child_keeps sb_failed_keeps create_notification_keeps)
      (drule create_notification_all [OF _ t]; simp del: obj_all_simps(3))+
qed

lemma handle_self_list_keeps:
  "obj_all P (MStabilize s) \<Longrightarrow>
     obj_keeps P R (lift_step MStabilize (handle_get_self_and_succ_list_notify env l s w))"
  by (auto simp: handle_get_self_and_succ_list_notify_def Let_def simp del: obj_all_simps(3)
      intro!: obj_keeps_bind create_notification_keeps)

lemma sb_notify_keeps:
  assumes "obj_all P (MStabilize s)"
  shows "obj_keeps P R (lift_step MStabilize (sb_notify env s w))"
proof (cases "sb_deps s")
  case Nil
  then show ?thesis by (simp add: sb_notify_def lift_step_def)
next
  case (Cons d ds)
  obtain l e where d: "d = (l, e)" by (cases d)
  have s1: "obj_all P (MStabilize (s\<lparr>sb_deps := (mark_retrieved l, e) # ds\<rparr>))"
    using assms Cons d by simp
  from assms s1 show ?thesis
    by (cases l)
      (simp_all add: sb_notify_def Cons d sb_failed_keeps handle_pred_list_keeps handle_self_list_keeps
        handle_notification_notify_def obj_keeps_finish lift_step_def [of _ "Inr x" for x]
        del: obj_all_simps(3) obj_all_time(2))
qed

text \<open>The notifications of a dependency that a composite passes on.\<close>

lemma set_child_all:
  "P l \<Longrightarrow> deps_all P ds \<Longrightarrow> deps_all P (set_child l ds)"
  by (auto simp: set_child_def deps_all_def split: if_splits)

lemma absorb_keeps:
  assumes "\<And>s m w. s \<in> set sigs \<Longrightarrow> obj_all P (c m) \<Longrightarrow> obj_keeps P R (lift_step c (on_signal s m w))"
    "obj_all P (c m)"
  shows "obj_keeps P R (lift_step c (absorb on_signal sigs m w))"
  using assms
proof (induction sigs arbitrary: m w)
  case Nil
  then show ?case by (simp add: lift_step_def)
next
  case (Cons s sigs)
  show ?case
  proof (cases "on_signal s m w")
    case (Inl e)
    then show ?thesis by (simp add: lift_step_def)
  next
    case (Inr x)
    obtain m1 w1 out1 where x: "x = (m1, w1, out1)" by (cases x)
    from Cons.prems(1) [of s m w] Cons.prems(2) Inr x
    have 1: "obj_all P (c m1)" "\<forall>s \<in> set out1. signal_all R s" by (simp_all add: lift_step_def)
    have 2: "obj_keeps P R (lift_step c (absorb on_signal sigs m1 w1))"
      by (rule Cons.IH) (use Cons.prems 1 in simp_all)
    with Inr x 1 show ?thesis
      by (cases "absorb on_signal sigs m1 w1") (auto simp: lift_step_def split: prod.splits)
  qed
qed

lemma bf_on_signal_keeps:
  "signal_all R s \<Longrightarrow> obj_all P (MBroadcast b) \<Longrightarrow> obj_keeps P R (lift_step MBroadcast (bf_on_signal s b w))"
  by (cases s) (auto simp: bf_on_signal_def bf_notify_def Let_def finish_defs lift_step_def)

lemma child_keeps:
  assumes "leaf_keeps P R r" "obj_all P ob"
  shows "ob = MJoin j \<Longrightarrow> obj_keeps P R (lift_step MJoin (join_child env r j))"
    and "ob = MStabilize s \<Longrightarrow> obj_keeps P R (lift_step MStabilize (sb_child env r s))"
    and "ob = MBroadcast b \<Longrightarrow> obj_keeps P R (lift_step MBroadcast (bf_child r b))"
proof -
  consider (crash) e where "r = Inl e" | (ok) l w sigs where "r = Inr (l, w, sigs)"
    by (cases r) auto
  then have "(ob = MJoin j \<longrightarrow> obj_keeps P R (lift_step MJoin (join_child env r j))) \<and>
    (ob = MStabilize s \<longrightarrow> obj_keeps P R (lift_step MStabilize (sb_child env r s))) \<and>
    (ob = MBroadcast b \<longrightarrow> obj_keeps P R (lift_step MBroadcast (bf_child r b)))"
  proof cases
    case crash
    then show ?thesis by (simp add: join_child_def sb_child_def bf_child_def lift_step_def)
  next
    case ok
    with assms(1) have l: "P l" "\<forall>s \<in> set sigs. signal_all R s"
      by (auto simp: leaf_keeps_def)
    have "obj_keeps P R (lift_step MJoin (join_on_signal env sg m v))"
      if "sg \<in> set sigs" "obj_all P (MJoin m)" for sg m v
      using that l by (simp add: join_on_signal_def join_notify_keeps lift_step_def [of _ "Inr x" for x])
    moreover have "obj_keeps P R (lift_step MStabilize (sb_on_signal env sg m v))"
      if "sg \<in> set sigs" "obj_all P (MStabilize m)" for sg m v
      using that l by (simp add: sb_on_signal_def sb_notify_keeps lift_step_def [of _ "Inr x" for x])
    moreover have "obj_keeps P R (lift_step MBroadcast (bf_on_signal sg m v))"
      if "sg \<in> set sigs" "obj_all P (MBroadcast m)" for sg m v
      using that l bf_on_signal_keeps by blast
    ultimately show ?thesis
      using assms(2) set_child_all [OF l(1)]
      by (auto simp: ok join_child_def sb_child_def bf_child_def intro!: absorb_keeps)
  qed
  then show "ob = MJoin j \<Longrightarrow> obj_keeps P R (lift_step MJoin (join_child env r j))"
    and "ob = MStabilize s \<Longrightarrow> obj_keeps P R (lift_step MStabilize (sb_child env r s))"
    and "ob = MBroadcast b \<Longrightarrow> obj_keeps P R (lift_step MBroadcast (bf_child r b))"
    by blast+
qed

lemma obj_deliver_keeps:
  assumes "\<And>l v. P l \<Longrightarrow> leaf_keeps P R (f l v)" "obj_all P ob"
  shows "obj_keeps P R (obj_deliver env i f ob w)"
proof -
  have child: "leaf_keeps P R (f d w)" if "find_child i (obj_deps ob) = Some d" for d
    using find_child_SomeD [OF that] assms by (cases ob) (auto dest: deps_allD)
  show ?thesis
    using assms child
    by (cases ob)
      (auto simp del: obj_all_simps(2-) simp: child_keeps [OF _ _ refl] split: option.split)
qed

lemma bf_fetch_keeps:
  "obj_all P (MBroadcast b) \<Longrightarrow> obj_keeps P R (lift_step MBroadcast (bf_fetch env p fs b w))"
proof (induction fs arbitrary: b w)
  case Nil
  then show ?case by (simp add: lift_step_def)
next
  case (Cons f fs)
  show ?case
  proof (cases "file_exists (file_name f) (w_storage w)")
    case True
    with Cons show ?thesis by simp
  next
    case False
    let ?l = "LGetFile (GetFile_new (w_next_oid w) p f (w_now w))"
    have run: "leaf_keeps P R (leaf_run env ?l (w\<lparr>w_next_oid := Suc (w_next_oid w)\<rparr>))"
      by (rule run) simp
    show ?thesis
      unfolding obj_keeps_def
    proof (intro allI impI)
      fix ob' w' sigs
      assume "lift_step MBroadcast (bf_fetch env p (f # fs) b w) = Inr (ob', w', sigs)"
      with False obtain l w2 out b3 w3 out3 b4 out4 where
        l: "leaf_run env ?l (w\<lparr>w_next_oid := Suc (w_next_oid w)\<rparr>) = Inr (l, w2, out)"
        and b3: "absorb bf_on_signal out (b\<lparr>bf_deps := bf_deps b @ [(l, False)]\<rparr>) w2 = Inr (b3, w3, out3)"
        and b4: "bf_fetch env p fs b3 w3 = Inr (b4, w', out4)" "ob' = MBroadcast b4" "sigs = out3 @ out4"
        by (auto simp: lift_step_Inr Let_def split_def simp del: leaf_run.simps elim!: res_bind_InrE)
      from run l have n: "P l" "\<forall>s \<in> set out. signal_all R s" by (auto simp: leaf_keeps_def)
      have "obj_keeps P R (lift_step MBroadcast
          (absorb bf_on_signal out (b\<lparr>bf_deps := bf_deps b @ [(l, False)]\<rparr>) w2))"
        by (rule absorb_keeps) (use n bf_on_signal_keeps Cons.prems in auto)
      with b3 have 3: "obj_all P (MBroadcast b3)" "\<forall>s \<in> set out3. signal_all R s"
        by (simp_all add: lift_step_def)
      from Cons.IH [OF 3(1), of w3] b4 3 show "obj_all P ob' \<and> (\<forall>s \<in> set sigs. signal_all R s)"
        by (auto simp: lift_step_def)
    qed
  qed
qed

lemma bf_run_keeps:
  assumes "obj_all P (MBroadcast b)"
  shows "obj_keeps P R (obj_run env (MBroadcast b) w)"
proof -
  have c: "obj_keeps P R (lift_step MBroadcast (bf_create_request env b w))"
    using assms
    by (simp add: bf_create_request_def Let_def split_def obj_keeps_finish del: obj_all_simps
        split: option.split)
  have b: "obj_all P (MBroadcast (b\<lparr>bf_flag := x\<rparr>))" "obj_all P (MBroadcast (b'\<lparr>bf_flag := x\<rparr>)) = obj_all P (MBroadcast b')"
    "obj_all P (MBroadcast (b'\<lparr>mb_state := st\<rparr>)) = obj_all P (MBroadcast b')" for x b' st
    using assms by simp_all
  have f: "obj_all P (MBroadcast b') \<and> (\<forall>s \<in> set sigs. signal_all R s)"
    if "bf_fetch env p fs (b\<lparr>bf_flag := x\<rparr>) v = Inr (b', v', sigs)" for p fs x v b' v' sigs
    using bf_fetch_keeps [OF b(1), of env p fs x v] that by (simp add: lift_step_def del: obj_all_simps)
  have "obj_keeps P R (lift_step MBroadcast (bf_handle_request env b w))"
    using assms
    by (auto simp: bf_handle_request_def Let_def split_def obj_keeps_finish b lift_step_def [of _ "Inr x" for x]
        simp del: obj_all_simps split: option.split dest!: f intro!: obj_keeps_bind)
  with c show ?thesis by (simp add: run_message_def)
qed

text \<open>The objects the node makes for itself or for a request.\<close>

lemma obj_run_keeps:
  assumes "obj_all P ob"
  shows "obj_keeps P R (obj_run env ob w)"
proof (cases ob)
  case (MLeaf l)
  with assms show ?thesis by (simp add: run del: leaf_run.simps)
next
  case (MJoin j)
  show ?thesis
  proof (cases "jo_deps j")
    case Nil
    with MJoin assms show ?thesis by (simp add: run_message_def join_create_request_def lift_step_def)
  next
    case (Cons d ds)
    obtain l e where d: "d = (l, e)" by (cases d)
    have "leaf_keeps P R (run_child SelfDeadlock env l w)"
      using assms MJoin Cons d by (intro run_child_keeps) simp
    with MJoin Cons d assms show ?thesis
      by (auto simp: run_message_def join_create_request_def obj_keeps_def lift_step_Inr leaf_keeps_def
          elim!: res_bind_InrE)
  qed
next
  case (MStabilize s)
  with assms have s: "obj_all P (MStabilize s)" by simp
  with MStabilize show ?thesis
    by (auto simp: run_message_def sb_create_request_def Let_def split_def lift_step_def [of _ "Inr x" for x]
        simp del: obj_all_simps(3) split: option.split intro!: sb_failed_keeps sb_start_child_keeps)
next
  case (MBroadcast b)
  with assms bf_run_keeps show ?thesis by blast
qed

subsection \<open>The node\<close>

lemma observes_all:
  "\<forall>s \<in> set sigs. signal_all R s \<Longrightarrow> \<forall>r \<in> set (nd_send_queue nd). R r \<Longrightarrow>
     \<forall>r \<in> set (nd_send_queue (fold (handler_observe alive) sigs nd)). R r"
proof (induction sigs arbitrary: nd)
  case Nil
  then show ?case by simp
next
  case (Cons s sigs)
  have "\<forall>r \<in> set (nd_send_queue (handler_observe alive s nd)). R r"
    using Cons.prems by (cases s) (auto simp: queue_push_def)
  with Cons show ?case by simp
qed

lemma observes_keeps:
  "node_all P R nd \<Longrightarrow> \<forall>s \<in> set sigs. signal_all R s \<Longrightarrow>
     node_all P R (fold (handler_observe alive) sigs nd)"
  using observes_all [of sigs nd alive] by (simp add: node_all_def)

lemma run_object_keeps:
  assumes "node_all P R nd" "obj_all P ob" "run_object env ob nd = Inr nd'"
  shows "node_all P R nd'"
proof -
  from assms(3) obtain ob' w' sigs where r: "obj_run env ob (nd_world nd) = Inr (ob', w', sigs)"
    "nd' = (let n = fold (handler_observe (alive_oids (nd_active nd) @ obj_oids ob')) sigs (nd\<lparr>nd_world := w'\<rparr>)
      in n\<lparr>nd_active := deque_push_back ob' (nd_active n)\<rparr>)"
    by (auto simp: run_object_def Let_def elim!: res_bind_InrE)
  from obj_run_keeps [OF assms(2), of env "nd_world nd"] r(1)
  have s: "obj_all P ob'" "\<forall>s \<in> set sigs. signal_all R s" by simp_all
  have "node_all P R (fold (handler_observe (alive_oids (nd_active nd) @ obj_oids ob')) sigs (nd\<lparr>nd_world := w'\<rparr>))"
    using assms(1) s by (intro observes_keeps) simp_all
  with s(1) show ?thesis unfolding r(2) by (auto simp: node_all_def Let_def deque_push_back_def)
qed

lemma node_deliver_keeps:
  assumes "node_all P R nd" "\<And>l v. P l \<Longrightarrow> leaf_keeps P R (f l v)" "node_deliver env i f nd = Inr nd'"
  shows "node_all P R nd'"
proof (cases rule: deliver_cases [of env i f "nd_active nd" "nd_world nd"])
  case nobody
  with assms show ?thesis by (auto simp: node_deliver_def node_all_def)
next
  case (found pre ob post)
  with assms(3) obtain ob' w' sigs where d: "obj_deliver env i f ob (nd_world nd) = Inr (ob', w', sigs)"
    "nd' = fold (handler_observe (alive_oids (pre @ ob' # post))) sigs
       (nd\<lparr>nd_world := w', nd_active := pre @ ob' # post\<rparr>)"
    by (auto simp: node_deliver_def elim!: res_bind_InrE)
  have "obj_all P ob" using assms(1) found(1) by (simp add: node_all_def)
  from obj_deliver_keeps [where f = f and env = env and i = i and w = "nd_world nd", OF assms(2) this] d(1)
  have s: "obj_all P ob'" "\<forall>s \<in> set sigs. signal_all R s" by simp_all
  then show ?thesis
    unfolding d(2) using assms(1) found(1) by (intro observes_keeps) (auto simp: node_all_def)
qed

text \<open>The clean-up.\<close>

lemma any_expired_all:
  "any_expired ds w = Inr (b, ds', w') \<Longrightarrow> deps_all P ds \<Longrightarrow>
     deps_all P ds'"
proof (induction ds arbitrary: w b ds' w')
  case Nil
  then show ?case by simp
next
  case (Cons d ds)
  obtain l e where d: "d = (l, e)" by (cases d)
  from Cons.prems show ?case
    by (auto simp: d elim!: res_bind_InrE dest!: check Cons.IH split: if_splits)
qed

lemma obj_check_all:
  assumes "obj_check_state ob w = Inr (st, ob', w')" "obj_all P ob"
  shows "obj_all P ob'"
proof (cases ob)
  case (MLeaf l)
  with assms show ?thesis by (auto simp: lift_state_def dest: check elim!: res_bind_InrE)
next
  case (MJoin j)
  with assms show ?thesis
    by (auto simp: lift_state_def check_state_def join_any_expired_def join_handle_failed_def
        elim!: res_bind_InrE dest!: any_expired_all split: if_splits)
next
  case (MStabilize s)
  with assms show ?thesis
    by (auto simp: lift_state_def check_state_def sb_any_expired_def sb_handle_failed_def
        elim!: res_bind_InrE dest!: any_expired_all split: if_splits)
next
  case (MBroadcast b)
  with assms show ?thesis
    by (auto simp: lift_state_def check_state_def bf_any_expired_def bf_handle_failed_def
        elim!: res_bind_InrE dest!: any_expired_all split: if_splits)
qed

lemma node_clean_keeps:
  assumes "node_all P R nd" "node_clean nd = Inr nd'"
  shows "node_all P R nd'"
proof -
  obtain obs w c where d: "deque_clean check_object obj_is_done destroy_object (nd_active nd)
      (nd_world nd, None :: crash option) = (obs, w, c)"
    by (cases "deque_clean check_object obj_is_done destroy_object (nd_active nd)
      (nd_world nd, None :: crash option)")
  have check: "obj_all P (fst (check_object s ob))" if "obj_all P ob" for s ob
    using that obj_check_all by (auto simp: check_object_def split: option.splits sum.splits)
  have "\<forall>ob \<in> set (fst (deque_clean check_object obj_is_done destroy_object (nd_active nd) (nd_world nd, None))).
      obj_all P ob"
    unfolding deque_clean_def
    by (rule conjunct2 [OF clean_loop_invariant [where I = "\<lambda>_. True" and Q = "obj_all P"]])
      (use check assms(1) in \<open>simp_all add: node_all_def\<close>)
  then have "\<forall>ob \<in> set obs. obj_all P ob" by (simp add: d)
  with assms d show ?thesis by (auto simp: node_clean_def node_all_def split: option.splits)
qed

text \<open>Every step.\<close>

lemma with_new_oid_keeps:
  assumes "node_all P R nd" "\<And>i w. obj_all P (fst (build i w))" "with_new_oid build env nd = Inr nd'"
  shows "node_all P R nd'"
proof -
  let ?b = "build (w_next_oid (nd_world nd)) (snd (new_oid (nd_world nd)))"
  have "run_object env (fst ?b) (nd\<lparr>nd_world := snd ?b\<rparr>) = Inr nd'"
    using assms(3) by (simp add: with_new_oid_def split_def Let_def)
  from run_object_keeps [OF _ assms(2) this] assms(1) show ?thesis by simp
qed

lemma handler_local_keeps:
  "node_all P R nd \<Longrightarrow> handler_check_predecessor env nd = Inr nd' \<Longrightarrow> node_all P R nd'"
  "node_all P R nd \<Longrightarrow> handler_stabilize env nd = Inr nd' \<Longrightarrow> node_all P R nd'"
  "node_all P R nd \<Longrightarrow> handler_broadcast env nd = Inr nd' \<Longrightarrow> node_all P R nd'"
  "node_all P R nd \<Longrightarrow> handler_join env a p nd = Inr nd' \<Longrightarrow> node_all P R nd'"
proof -
  show "node_all P R nd \<Longrightarrow> handler_check_predecessor env nd = Inr nd' \<Longrightarrow> node_all P R nd'"
    unfolding handler_check_predecessor_def by (erule with_new_oid_keeps [rotated 2]) simp_all
  show "node_all P R nd \<Longrightarrow> handler_stabilize env nd = Inr nd' \<Longrightarrow> node_all P R nd'"
    unfolding handler_stabilize_def
    by (erule with_new_oid_keeps [rotated 2]) (simp_all add: Stabilize_new_def Stabilize.defs MessagingBase.defs MessagingBase_new_def)
  show "node_all P R nd \<Longrightarrow> handler_broadcast env nd = Inr nd' \<Longrightarrow> node_all P R nd'"
    unfolding handler_broadcast_def
    by (erule with_new_oid_keeps [rotated 2]) (simp_all add: broadcast_new_fields)
  show "node_all P R nd \<Longrightarrow> handler_join env a p nd = Inr nd' \<Longrightarrow> node_all P R nd'"
    unfolding handler_join_def
    by (erule with_new_oid_keeps [rotated 2]) (simp_all add: Join_new_def split_def Let_def Join.defs MessagingBase.defs MessagingBase_new_def)
qed

lemma run_chord_round_keeps:
  assumes "node_all P R nd" "run_chord_round env nd = Inr nd'"
  shows "node_all P R nd'"
proof -
  from assms(2) obtain nd1 nd2 where
    s: "(if \<not> w_stabilize_flag (nd_world nd) then handler_stabilize env nd else Inr nd) = Inr nd1" and
    c: "(if \<not> w_check_predecessor_flag (nd_world nd1) then handler_check_predecessor env nd1 else Inr nd1) = Inr nd2" and
    d: "node_clean nd2 = Inr nd'"
    by (auto simp only: run_chord_round_def elim!: res_bind_InrE)
  have "node_all P R nd1" using s assms(1) handler_local_keeps(2) by (auto split: if_splits)
  then have "node_all P R nd2" using c handler_local_keeps(1) by (auto split: if_splits)
  with d show ?thesis using node_clean_keeps by blast
qed

lemma receive_keeps:
  assumes nd: "node_all P R nd" and made: "made_all P parse (EvReceive buf s) nd"
    and step: "receive env parse buf s nd = Inr nd'"
  shows "node_all P R nd'"
proof -
  from step obtain m where p: "MessageFromSerialized parse buf = Inr m"
    and m: "dispatch env (received_request s m (w_now (nd_world nd))) nd = Inr nd'"
      (is "dispatch env ?r nd = _")
    by (auto simp: receive_def received_request_def elim!: res_bind_InrE)
  from m consider "handle_request env ?r nd = Inr nd'" "is_request m" | "handle_response env ?r nd = Inr nd'"
    by (auto simp: dispatch_def ro_is_request_def get_message_def split: if_splits)
  then show ?thesis
  proof cases
    case 1
    then show ?thesis
      using nd made p run_object_keeps [of "nd\<lparr>nd_world := w\<rparr>" for w]
      by (auto simp: handle_request_def made_all_def Let_def elim!: res_bind_InrE split: option.splits)
  next
    case 2
    have "node_all P R nd1" if "node_deliver env i (leaf_handle env f ?r) (nd\<lparr>nd_handlers := hs\<rparr>) = Inr nd1" for i f hs nd1
      using node_deliver_keeps [OF _ _ that] nd handle by simp
    with 2 nd show ?thesis
      by (auto simp: handle_response_def Let_def split_def elim!: res_bind_InrE split: option.splits if_splits)
  qed
qed

lemma on_write_keeps: "node_all P R nd \<Longrightarrow> on_write env i failed nd = Inr nd' \<Longrightarrow> node_all P R nd'"
  using node_deliver_keeps [OF _ written] by (auto simp: on_write_def split: if_splits)

lemma run_send_keeps: "node_all P R nd \<Longrightarrow> run_send ser resolves nd = Inr (cmds, nd') \<Longrightarrow> node_all P R nd'"
  by (cases "nd_send_queue nd")
    (auto simp: run_send_def node_all_def Let_def wait_for_and_pop_def elim!: res_bind_InrE)

lemma node_step_keeps:
  assumes "node_all P R nd" "made_all P parse ev nd" "node_step env parse ser resolves ev nd = Inr nd'"
  shows "node_all P R nd'"
  using assms
  by (cases ev)
    (auto simp: run_paste_round_def elim!: res_bind_InrE
      dest: receive_keeps on_write_keeps run_chord_round_keeps handler_local_keeps run_send_keeps)

end

end
