(* ===== verification/Sent_Messages.thy ===== *)
theory Sent_Messages
  imports Object_Contracts
begin

section \<open>What a node sends\<close>

text \<open>
  The crashes of \<open>crash_cause\<close> need an incomplete message, an answer to another question, or the
  completion of a write nobody asked for. Here: a node only sends complete messages, whatever it
  has received, it only answers requests that it has received, under their transaction id and with
  their type, and it only asks for the completion of a write for objects that answer a request.
\<close>

subsection \<open>Complete messages\<close>

text \<open>A message that holds what its receiver takes out of it without looking.\<close>

definition message_complete :: "Message \<Rightarrow> bool" where
  "message_complete m \<longleftrightarrow>
     message_wf m \<and>
     (is_request m \<and> get_request_type m \<in> {''query'', ''find_successor''} \<longrightarrow> msg_peers m \<noteq> []) \<and>
     (is_request m \<and> get_request_type m = ''get_file'' \<longrightarrow> msg_files m \<noteq> []) \<and>
     (\<not> is_request m \<and> get_request_type m = ''find_successor'' \<longrightarrow> msg_peers m \<noteq> []) \<and>
     (\<not> is_request m \<and> get_request_type m = ''get_file'' \<longrightarrow> msg_file_chunk m \<noteq> None)"

text \<open>What a node sends: a complete message; if it is an answer, the answer to one of the requests
  \<open>W\<close>, under the transaction id and with the type of that request; and only the objects \<open>X\<close> ask
  to be told when it is written.\<close>

definition message_fit :: "Message set \<Rightarrow> Message \<Rightarrow> bool" where
  "message_fit W m \<longleftrightarrow>
     message_complete m \<and>
     (\<not> is_request m \<longrightarrow>
       (\<exists>q \<in> W. get_transaction_id q = get_correlational_id m \<and> get_request_type q = get_request_type m))"

definition request_fit :: "Message set \<Rightarrow> oid set \<Rightarrow> RequestObject \<Rightarrow> bool" where
  "request_fit W X r \<longleftrightarrow>
     (\<forall>m. ro_message r = Some m \<longrightarrow> message_fit W m) \<and> (\<forall>j. ro_on_write_handler r = Some j \<longrightarrow> j \<in> X)"

text \<open>The request an object answers is one of \<open>W\<close> and has the name of the object's kind.\<close>

definition leaf_answers :: "Message set \<Rightarrow> oid set \<Rightarrow> leaf \<Rightarrow> bool" where
  "leaf_answers W X l \<longleftrightarrow>
     (\<forall>r. mb_request (leaf_base l) = Some r \<longrightarrow>
        leaf_oid l \<in> X \<and> ro_on_write_handler r = None \<and>
        (\<exists>m \<in> W. ro_message r = Some m \<and> get_request_type m = request_name (leaf_kind l)))"

lemma leaf_answersD:
  assumes "leaf_answers W X l" "mb_request (leaf_base l) = Some r" "get_message r = Inr m"
  shows "get_request_type m = request_name (leaf_kind l)" "m \<in> W" "ro_on_write_handler r = None" "leaf_oid l \<in> X"
  using assms by (auto simp: leaf_answers_def get_message_def split: option.splits)

lemma leaf_answers_mono: "leaf_answers W X l \<Longrightarrow> W \<subseteq> W' \<Longrightarrow> X \<subseteq> X' \<Longrightarrow> leaf_answers W' X' l"
  unfolding leaf_answers_def by blast

lemma request_fit_mono: "request_fit W X r \<Longrightarrow> W \<subseteq> W' \<Longrightarrow> X \<subseteq> X' \<Longrightarrow> request_fit W' X' r"
  unfolding request_fit_def message_fit_def by blast

subsection \<open>Building blocks\<close>

lemma fit_simps [simp]:
  "request_fit W X (set_message m r) \<longleftrightarrow> message_fit W m \<and> (\<forall>j. ro_on_write_handler r = Some j \<longrightarrow> j \<in> X)"
  "request_fit W X (set_connection_peer p r) = request_fit W X r"
  "ro_on_write_handler (RequestObject_new ty now) = None"
  "ro_on_write_handler (set_message m r) = ro_on_write_handler r"
  by (auto simp: request_fit_def set_message_def set_connection_peer_def RequestObject_new_def)

lemma fit_generate_id [simp]:
  "message_fit W (fst (w_generate_id env m w)) = message_fit W m"
  by (simp add: message_fit_def message_complete_def message_wf_def get_request_type_def is_request_def
      get_correlational_id_def)

lemma created_simps [simp]:
  "msg_file_chunk (fst (w_create_request env ty w)) = None"
  "msg_file_chunk (fst (w_create_request_peers env ty ps w)) = None"
  by (simp_all add: w_create_request_def create_request_def w_create_request_peers_def
      create_request_peers_def split_def Message_empty_def)

lemma fit_request [simp]:
  "ty \<notin> {''query'', ''find_successor'', ''get_file''} \<Longrightarrow> message_fit W (fst (w_create_request env ty w))"
  "ps \<noteq> [] \<Longrightarrow> ty \<noteq> ''get_file'' \<Longrightarrow> message_fit W (fst (w_create_request_peers env ty ps w))"
  by (auto simp: message_fit_def message_complete_def message_wf_def get_request_type_def is_request_def)

lemma response_simps [simp]:
  "get_request_type (generate_response m) = get_request_type m" "\<not> is_request (generate_response m)"
  "msg_file_chunk (generate_response m) = None"
  "get_correlational_id (generate_response m) = get_transaction_id m"
  by (simp_all add: Message_empty_def generate_response_def get_request_type_def is_request_def
      generate_response_header_def Header_new_corr_def get_correlational_id_def get_transaction_id_def)

lemma fit_response:
  assumes "m \<in> W"
  shows "get_request_type m \<notin> {''find_successor'', ''get_file''} \<Longrightarrow> message_fit W (generate_response m)"
    "get_request_type m \<noteq> ''get_file'' \<Longrightarrow> ps \<noteq> [] \<or> get_request_type m \<noteq> ''find_successor'' \<Longrightarrow>
      message_fit W ((generate_response m)\<lparr>msg_peers := ps\<rparr>)"
    "get_request_type m \<noteq> ''get_file'' \<Longrightarrow> message_fit W (add_peer p (generate_response m))"
    "chunk_wf c \<Longrightarrow> get_request_type m \<noteq> ''find_successor'' \<Longrightarrow>
      message_fit W ((generate_response m)\<lparr>msg_file_chunk := Some c\<rparr>)"
  using assms response_simps [of m]
  by (auto simp: message_fit_def message_complete_def message_wf_def get_request_type_def is_request_def
      add_peer_def get_correlational_id_def get_transaction_id_def simp del: response_simps)

lemma chunk_of_read:
  assumes "is_read DEFAULT_BUF_SIZE s = (buf, s')"
  shows "chunk_wf (FileChunk_new buf (is_gcount s') off)"
proof -
  have "length buf \<le> 1024" "is_gcount s' = length buf"
    using assms by (auto simp: is_read_def DEFAULT_BUF_SIZE_def Let_def split: if_splits)
  then show ?thesis by (simp add: chunk_wf_def FileChunk_new_def unat_of_nat)
qed

subsection \<open>Single messages\<close>

lemmas fit_defs = leaf_keeps_def run_message_def lift_step_Inr finish_defs Let_def split_def
  send_with_handler_eq

lemma leaf_answers_gf [simp]:
  "leaf_answers W X (LGetFile (g\<lparr>gf_source := s\<rparr>)) = leaf_answers W X (LGetFile g)"
  "leaf_answers W X (LGetFile (g\<lparr>mb_state := st\<rparr>)) = leaf_answers W X (LGetFile g)"
  "leaf_answers W X (LGetFile (g\<lparr>mb_is_done := b\<rparr>)) = leaf_answers W X (LGetFile g)"
  "leaf_answers W X (LGetFile (g\<lparr>mb_time_point := t\<rparr>)) = leaf_answers W X (LGetFile g)"
  by (simp_all add: leaf_answers_def leaf_oid_def)

lemma gf_write_buffer_fit:
  assumes "gf_write_buffer env buf off g w = Inr (g', w', sigs)"
    "chunk_wf (FileChunk_new buf (is_gcount (gf_source g)) off)" "leaf_answers W X (LGetFile g)"
  shows "leaf_answers W X (LGetFile g') \<and> (\<forall>s \<in> set sigs. signal_all (request_fit W X) s)"
proof -
  obtain req m where r: "mb_request g = Some req" "get_message req = Inr m"
    using assms(1) by (auto simp: gf_write_buffer_def Let_def elim!: res_bind_InrE split: option.splits)
  note m = leaf_answersD [OF assms(3) _ r(2)]
  from assms(1) r obtain c v where
    g': "g' = g\<lparr>mb_time_point := w_now w + DURATION\<rparr>" and
    sigs: "sigs = [Sig (set_on_write_handler (mb_oid g) (set_message (fst (w_generate_id env
      ((generate_response m)\<lparr>msg_file_chunk := Some (FileChunk_new buf (is_gcount (gf_source g)) off)\<rparr>) w)) req))]"
    by (auto simp: gf_write_buffer_def Let_def split_def)
  have "request_fit W X (set_on_write_handler i r) \<longleftrightarrow> (\<forall>m. ro_message r = Some m \<longrightarrow> message_fit W m) \<and> i \<in> X" for i r
    by (simp add: request_fit_def set_on_write_handler_def)
  with m r assms(2,3) show ?thesis
    by (simp add: g' sigs fit_response leaf_oid_def)
qed

lemma gf_write_file_fit:
  assumes "gf_write_file env failed g w = Inr (g', w', sigs)" "leaf_answers W X (LGetFile g)"
  shows "leaf_answers W X (LGetFile g') \<and> (\<forall>s \<in> set sigs. signal_all (request_fit W X) s)"
proof -
  let ?g1 = "if failed then g\<lparr>mb_state := FAILED, mb_is_done := True\<rparr> else g"
  obtain off s1 where t: "tellg (gf_source ?g1) = (off, s1)" by fastforce
  obtain buf s2 where r: "is_read DEFAULT_BUF_SIZE s1 = (buf, s2)" by fastforce
  note c = chunk_of_read [OF r]
  have n: "leaf_answers W X (LGetFile (?g1\<lparr>gf_source := s2\<rparr>))" "leaf_answers W X (LGetFile ?g1)"
    using assms(2) by simp_all
  let ?g2 = "?g1\<lparr>gf_source := s2\<rparr>"
  have "chunk_wf (FileChunk_new buf (is_gcount (gf_source ?g2)) off)" for off using c by simp
  note b = gf_write_buffer_fit [OF _ this n(1)]
  from assms(1) t consider "leaf_answers W X (LGetFile g')" "\<forall>s \<in> set sigs. signal_all (request_fit W X) s"
    | sigs' where "gf_write_buffer env buf (word_of_int off) ?g2 w = Inr (g', w', sigs')"
        "set sigs \<subseteq> {SigNotify} \<union> set sigs'"
    using n
    by (cases failed)
      (auto simp: gf_write_file_def finish_defs Let_def r elim!: res_bind_InrE split: if_splits)
  then show ?thesis
  proof cases
    case 1
    then show ?thesis by simp
  next
    case 2
    from b [OF 2(1)] 2(2) show ?thesis by auto
  qed
qed

lemma fit_get_file:
  "message_fit W (add_file f (fst (w_generate_id env
     (Message_empty\<lparr>msg_header := Header_new True 0 0 ''get_file'' '''' '''' ''''\<rparr>) w)))"
  by (simp add: message_fit_def message_complete_def message_wf_def get_request_type_def is_request_def
      add_file_def Header_new_def Message_empty_def)

lemma gf_run_fit:
  assumes g: "leaf_answers W X (LGetFile g)"
  shows "leaf_keeps (leaf_answers W X) (request_fit W X) (leaf_run env (LGetFile g) w)"
proof -
  have "leaf_keeps (leaf_answers W X) (request_fit W X) (lift_step LGetFile (gf_create_request env g w))"
    using g
    by (auto simp: fit_defs gf_create_request_def fit_get_file leaf_answers_def leaf_oid_def split: option.splits)
  moreover have "leaf_keeps (leaf_answers W X) (request_fit W X) (lift_step LGetFile (gf_handle_request env g w))"
    unfolding leaf_keeps_def
  proof (intro allI impI)
    fix l' w' sigs assume "lift_step LGetFile (gf_handle_request env g w) = Inr (l', w', sigs)"
    then obtain g' where l': "l' = LGetFile g'" "gf_handle_request env g w = Inr (g', w', sigs)"
      by (auto simp: lift_step_Inr)
    then consider "leaf_answers W X (LGetFile g')" "\<forall>s \<in> set sigs. signal_all (request_fit W X) s"
      | s where "gf_write_file env False (g\<lparr>gf_source := s\<rparr>) w = Inr (g', w', sigs)"
      using g
      by (auto simp: gf_handle_request_def finish_defs Let_def split_def
          elim!: res_bind_InrE split: option.splits if_splits)
    then show "leaf_answers W X l' \<and> (\<forall>s \<in> set sigs. signal_all (request_fit W X) s)"
    proof cases
      case 1
      with l' show ?thesis by simp
    next
      case 2
      from gf_write_file_fit [OF this] g l' show ?thesis by simp
    qed
  qed
  ultimately show ?thesis by (simp add: run_message_def)
qed

lemma qu_run_fit:
  assumes "leaf_answers W X (LQuery q)"
  shows "leaf_keeps (leaf_answers W X) (request_fit W X) (leaf_run env (LQuery q) w)"
  using assms leaf_answersD [OF assms]
  by (auto simp: fit_defs fit_response qu_create_request_def qu_handle_request_def leaf_answers_def leaf_oid_def
      elim!: res_bind_InrE split: option.splits if_splits)

lemma fs_run_fit:
  assumes "leaf_answers W X (LFindSuccessor f)"
  shows "leaf_keeps (leaf_answers W X) (request_fit W X) (leaf_run env (LFindSuccessor f) w)"
  using assms leaf_answersD [OF assms]
  by (auto simp: fit_defs fit_response fs_create_request_def fs_handle_request_def fs_forward_request_def leaf_answers_def leaf_oid_def elim!: res_bind_InrE split: option.splits if_splits)

lemma no_run_fit:
  assumes "leaf_answers W X (LNotification n)"
  shows "leaf_keeps (leaf_answers W X) (request_fit W X) (leaf_run env (LNotification n) w)"
  using assms leaf_answersD [OF assms]
  by (auto simp: fit_defs fit_response no_create_request_def no_handle_request_def leaf_answers_def leaf_oid_def elim!: res_bind_InrE split: option.splits if_splits)

lemma cp_run_fit:
  assumes "leaf_answers W X (LCheckPredecessor c)"
  shows "leaf_keeps (leaf_answers W X) (request_fit W X) (leaf_run env (LCheckPredecessor c) w)"
  using assms leaf_answersD [OF assms]
  by (auto simp: fit_defs fit_response cp_create_request_def cp_handle_request_def cp_set_flag_def leaf_answers_def leaf_oid_def elim!: res_bind_InrE split: option.splits if_splits)

lemma sl_run_fit:
  assumes "leaf_answers W X (LGetSuccessorList l)"
  shows "leaf_keeps (leaf_answers W X) (request_fit W X) (leaf_run env (LGetSuccessorList l) w)"
  using assms leaf_answersD [OF assms]
  by (auto simp: fit_defs fit_response sl_create_request_def sl_handle_request_def sl_fail_def leaf_answers_def leaf_oid_def elim!: res_bind_InrE split: option.splits if_splits)

lemma ss_run_fit:
  assumes "leaf_answers W X (LGetSelfAndSuccList l)"
  shows "leaf_keeps (leaf_answers W X) (request_fit W X) (leaf_run env (LGetSelfAndSuccList l) w)"
  using assms leaf_answersD [OF assms]
  by (auto simp: fit_defs fit_response ss_create_request_def ss_handle_request_def ss_fail_def leaf_answers_def leaf_oid_def elim!: res_bind_InrE split: option.splits if_splits)

lemma ps_run_fit:
  assumes "leaf_answers W X (LGetPredAndSuccList l)"
  shows "leaf_keeps (leaf_answers W X) (request_fit W X) (leaf_run env (LGetPredAndSuccList l) w)"
  using assms leaf_answersD [OF assms]
  by (auto simp: fit_defs fit_response ps_create_request_def ps_handle_request_def ps_fail_def leaf_answers_def leaf_oid_def elim!: res_bind_InrE split: option.splits if_splits)

lemma leaf_run_fit: "leaf_answers W X l \<Longrightarrow> leaf_keeps (leaf_answers W X) (request_fit W X) (leaf_run env l w)"
  by (cases l) (simp_all only: gf_run_fit qu_run_fit fs_run_fit no_run_fit cp_run_fit
      sl_run_fit ss_run_fit ps_run_fit)

text \<open>When an answer or a write completion arrives.\<close>

lemma fs_handle_fit:
  assumes n: "leaf_answers W X (LFindSuccessor fs)"
  shows "leaf_keeps (leaf_answers W X) (request_fit W X) (leaf_handle env f resp (LFindSuccessor fs) w)"
proof (cases f)
  case HandleResponse
  with n show ?thesis
    by (auto simp: fit_defs fit_response fs_handle_response_def leaf_answers_def leaf_oid_def elim!: res_bind_InrE split: if_splits)
next
  case HandleForwardedResponse
  with n leaf_answersD [OF n] show ?thesis
    by (auto simp: fit_defs fit_response fs_handle_forwarded_response_def leaf_answers_def leaf_oid_def elim!: res_bind_InrE
        split: option.splits)
qed

lemma leaf_handle_fit:
  assumes n: "leaf_answers W X l"
  shows "leaf_keeps (leaf_answers W X) (request_fit W X) (leaf_handle env f resp l w)"
proof (cases l)
  case (LFindSuccessor fs)
  with n fs_handle_fit show ?thesis by blast
qed (use n in \<open>auto simp: fit_defs fit_response leaf_answers_def leaf_oid_def qu_handle_response_def no_handle_response_def
      cp_handle_response_def cp_set_flag_def sl_handle_response_def ss_handle_response_def ss_fail_def
      ps_handle_response_def ps_fail_def gf_handle_response_def
      elim!: res_bind_InrE split: option.splits if_splits bool.splits\<close>)

lemma leaf_on_write_fit:
  assumes n: "leaf_answers W X l"
  shows "leaf_keeps (leaf_answers W X) (request_fit W X) (leaf_on_write env failed l w)"
proof (cases l)
  case (LGetFile g)
  show ?thesis
    unfolding leaf_keeps_def
  proof (intro allI impI)
    fix l' w' sigs assume "leaf_on_write env failed l w = Inr (l', w', sigs)"
    then obtain g' where l': "l' = LGetFile g'" "gf_write_file env failed g w = Inr (g', w', sigs)"
      by (auto simp: LGetFile lift_step_Inr)
    from gf_write_file_fit [OF l'(2)] n l'(1) show "leaf_answers W X l' \<and> (\<forall>s \<in> set sigs. signal_all (request_fit W X) s)"
      by (simp add: LGetFile)
  qed
qed (use n in \<open>simp_all add: leaf_keeps_def\<close>)


lemma leaf_check_answers: "leaf_check_state l w = Inr (st, l', w') \<Longrightarrow> leaf_answers W X l \<Longrightarrow> leaf_answers W X l'"
  by (cases l) (auto simp: lift_state_def check_state_def no_dependencies_def leaf_answers_def leaf_oid_def
      qu_handle_failed_def fs_handle_failed_def no_handle_failed_def cp_handle_failed_def
      sl_handle_failed_def ss_handle_failed_def ps_handle_failed_def gf_handle_failed_def
      elim!: res_bind_InrE split: if_splits)

lemma mark_retrieved_answers: "leaf_answers W X (mark_retrieved l) = leaf_answers W X l"
  by (cases l) (simp_all add: mark_retrieved_def leaf_answers_def leaf_oid_def)

lemma bf_send_fit: "ps \<noteq> [] \<Longrightarrow> request_fit W X (fst (bf_send env ps fs t b w))"
  by (simp add: bf_send_def split_def message_fit_def message_complete_def message_wf_def
      get_request_type_def is_request_def)

text \<open>So the contract of \<open>Object_Contracts\<close> holds of the eight kinds, and with it of the whole node.\<close>

interpretation fit: leaf_contract "leaf_answers W X" "request_fit W X" for W X
proof
  show "mb_request (leaf_base l) = None \<Longrightarrow> leaf_answers W X l" for l by (simp add: leaf_answers_def)
qed (rule leaf_run_fit leaf_handle_fit leaf_on_write_fit leaf_check_answers mark_retrieved_answers bf_send_fit;
    assumption)+

lemma create_from_request_oid:
  assumes "request_sound r" "create_from_request r w = Inr (Some ob, w')"
  shows "w' = w\<lparr>w_next_oid := Suc (w_next_oid w)\<rparr> \<and> own_oid ob = w_next_oid w \<and> dep_oids ob = []"
  using create_from_request_cases [OF assms(1), of w] assms(2)
  by (auto simp: made_def broadcast_new_fields)

text \<open>The object made for a request answers it.\<close>

lemma made_answers:
  assumes "request_sound r" "create_from_request r w = Inr (Some ob, w')" "ro_message r = Some m"
    "ro_on_write_handler r = None" "m \<in> W" "w_next_oid w \<in> X"
  shows "obj_all (leaf_answers W X) ob"
proof -
  from create_from_request_cases [OF assms(1), of w] assms(2)
  consider l where "ob = MLeaf l" "leaf_oid l = w_next_oid w"
    | i now where "ob = MBroadcast (BroadcastFilelist_new_request i r now)"
    by (auto simp: made_def)
  then show ?thesis
  proof cases
    case 1
    with create_from_request_leaf [OF assms(1)] assms(2-) show ?thesis
      by (auto simp: leaf_answers_def)
  qed (simp add: broadcast_new_fields)
qed

text \<open>A reachable node, whatever it was asked.\<close>

lemma node_reachable_fit: "node_reachable env parse ser resolves nd \<Longrightarrow> node_all (leaf_answers UNIV UNIV) (request_fit UNIV UNIV) nd"
proof (induction rule: node_reachable.induct)
  case (started entries ip port s p t db fs can now)
  show ?case
    by (simp add: node_all_def handler_init_def MessageHandler_new_def Let_def split_def queue_new_def
        split: option.split)
next
  case (stepped nd ev nd')
  have "made_all (leaf_answers UNIV UNIV) parse ev nd"
    unfolding made_all_def by (auto intro: made_answers [OF received_request_simps(2)])
  with stepped show ?case using fit.node_step_keeps by blast
qed

subsection \<open>Properties\<close>

text \<open>C3. A node only sends complete messages, whatever it has received: every request in the queue
  of a reachable node carries the peer, the file or the chunk that its receiver takes from it
  without looking, and a chunk is as long as it says.\<close>

theorem node_sends_complete:
  assumes "node_reachable env parse ser resolves nd" "r \<in> set (nd_send_queue nd)"
  shows "\<exists>m. ro_message r = Some m \<and> message_complete m"
  using node_reachable_fit [OF assms(1)] node_reachable_inv [OF assms(1)] assms(2)
  by (auto simp: node_all_def node_inv_def request_sound_def request_fit_def message_fit_def)

lemma node_sends_complete_witness:
  "\<exists>nd r m. handler_join example_env ''10.0.0.2'' ''1337'' example_node = Inr nd \<and>
    nd_send_queue nd = [r] \<and> ro_message r = Some m \<and> message_complete m"
proof -
  obtain nd r where nd: "handler_join example_env ''10.0.0.2'' ''1337'' example_node = Inr nd"
    "nd_send_queue nd = [r]" using example_join by blast
  then have "node_step example_env undefined undefined undefined (EvJoin ''10.0.0.2'' ''1337'')
    example_node = Inr nd" by simp
  from node_sends_complete [OF node_reachable.stepped [OF example_node_reachable this], of r] nd
  show ?thesis by auto
qed


end
