(* ===== verification/Object_Kinds.thy ===== *)
theory Object_Kinds
  imports Sent_Messages
begin

section \<open>What an object waits for\<close>

text \<open>
  A handler that a message object registers waits for the answer to a request of the object's own
  kind. \<open>grows\<close> says what a step does to the single messages of an object: those it had keep their
  numbers and kinds, those it starts are new and of one kind, and so are the handlers it registers.
\<close>

fun handler_named :: "MessageType \<Rightarrow> signal \<Rightarrow> bool" where
  "handler_named k (SigH r h) \<longleftrightarrow>
     (\<exists>m. ro_message r = Some m \<and> is_request m \<and> get_transaction_id m = ho_correlation_id h \<and>
        get_request_type m = request_name k)"
| "handler_named k s \<longleftrightarrow> True"

definition same_leaf :: "leaf \<Rightarrow> leaf \<Rightarrow> bool" where
  "same_leaf l l' \<longleftrightarrow>
     leaf_oid l' = leaf_oid l \<and> leaf_kind l' = leaf_kind l \<and> leaf_is_handler l' = leaf_is_handler l"

definition grows :: "oid \<Rightarrow> MessageType \<Rightarrow> message_obj \<Rightarrow> message_obj \<Rightarrow> signal list \<Rightarrow> bool" where
  "grows N k ob ob' sigs \<longleftrightarrow>
     (\<forall>l'. obj_leaf ob' l' \<longrightarrow>
        (\<exists>l. obj_leaf ob l \<and> same_leaf l l') \<or> (N \<le> leaf_oid l' \<and> leaf_kind l' = k \<and> \<not> leaf_is_handler l')) \<and>
     (\<forall>s \<in> set sigs. handler_named k s)"

lemma same_leaf_refl [simp]: "same_leaf l l"
  by (simp add: same_leaf_def)

lemma no_handlers_named: "sig_handlers sigs = [] \<Longrightarrow> s \<in> set sigs \<Longrightarrow> handler_named k s"
  by (induction sigs rule: sig_handlers.induct) auto

subsection \<open>Single messages\<close>

lemma gf_run_type:
  assumes "leaf_run env (LGetFile g) w = Inr (l', w', sigs)" "SigH r h \<in> set sigs" "ro_message r = Some m"
  shows "get_request_type m = ''get_file''"
proof -
  have no: "SigH r h \<notin> set sigs" if "gf_write_file env False g' w = Inr (g'', w', sigs)" for g' g''
    using that
    by (auto simp: gf_write_file_def gf_write_buffer_def finish_defs Let_def split_def elim!: res_bind_InrE
        split: if_splits option.splits)
  show ?thesis
    using assms no
    by (auto simp: run_message_def lift_step_Inr finish_defs Let_def split_def send_with_handler_eq
        gf_create_request_def gf_handle_request_def get_request_type_def add_file_def Header_new_def
        dest!: no elim!: res_bind_InrE split: option.splits if_splits)
qed

lemma leaf_run_type:
  assumes "leaf_run env l w = Inr (l', w', sigs)" "SigH r h \<in> set sigs" "ro_message r = Some m"
  shows "get_request_type m = request_name (leaf_kind l)"
proof (cases l)
  case (LGetFile g)
  with assms gf_run_type show ?thesis by simp
qed (use assms in \<open>auto simp: run_message_def lift_step_Inr finish_defs Let_def split_def
      send_with_handler_eq qu_defs no_defs cp_defs sl_defs ss_defs ps_defs fs_create_request_def
      fs_handle_request_def fs_forward_request_def get_request_type_def
      elim!: res_bind_InrE split: option.splits if_splits\<close>)

lemma leaf_run_kind:
  assumes "leaf_fresh l" "world_inv w" "leaf_run env l w = Inr (l', w', sigs)"
  shows "same_leaf l l'" "\<forall>s \<in> set sigs. handler_named (leaf_kind l) s"
proof -
  note r = leaf_run_inv [OF assms]
  then show "same_leaf l l'" by (simp add: same_leaf_def)
  show "\<forall>s \<in> set sigs. handler_named (leaf_kind l) s"
  proof
    fix s assume s: "s \<in> set sigs"
    with r(8) have ok: "sig_ok (leaf_oid l) s" by blast
    show "handler_named (leaf_kind l) s"
    proof (cases s)
      case (SigH q h)
      with ok s leaf_run_type [OF assms(3)] show ?thesis by auto
    qed simp_all
  qed
qed

text \<open>A dependency a composite starts.\<close>

lemma run_child_kind:
  assumes "leaf_fresh l" "world_inv w" "run_child c env l w = Inr (l', w', sigs)"
  shows "same_leaf l l'" "\<forall>s \<in> set sigs. handler_named (leaf_kind l) s"
proof -
  have "leaf_run env l w = Inr (l', w', sigs)"
    using assms(3) by (auto simp: run_child_def elim!: res_bind_InrE split: if_splits)
  from leaf_run_kind [OF assms(1,2) this] show "same_leaf l l'" "\<forall>s \<in> set sigs. handler_named (leaf_kind l) s" .
qed

subsection \<open>Composites\<close>

lemma join_start_child_grows:
  assumes "join_start_child env l j w = Inr (j', w', sigs)" "leaf_fresh l" "\<not> leaf_is_handler l" "world_inv w"
    "N \<le> leaf_oid l"
  shows "\<exists>k. grows N k ob (MJoin j') sigs"
proof -
  from assms(1) obtain l' where r: "run_child SelfDeadlock env l w = Inr (l', w', sigs)"
    "jo_deps j' = [(l', True)]"
    by (auto simp: join_start_child_def elim!: res_bind_InrE)
  from run_child_kind [OF assms(2,4) r(1)] assms(3,5) r(2) show ?thesis
    by (auto simp: grows_def same_leaf_def)
qed

lemma grows_same_deps:
  "map fst (jo_deps j') = map fst (jo_deps j) \<Longrightarrow> (\<forall>s \<in> set sigs. handler_named k s) \<Longrightarrow>
     grows N k (MJoin j) (MJoin j') sigs"
  unfolding grows_def obj_leaf_simps by (metis list.set_map same_leaf_refl)

lemma join_notify_grows:
  assumes "join_notify env j w = Inr (j', w', sigs)" "jo_deps j = [(l, True)]" "world_inv w"
  shows "\<exists>k. grows (w_next_oid w) k (MJoin j) (MJoin j') sigs"
proof -
  consider "jo_deps j' = jo_deps j" "sigs = [] \<or> sigs = [SigNotify]"
    | d v where "join_start_child env d j v = Inr (j', w', sigs)" "leaf_fresh d" "\<not> leaf_is_handler d"
        "world_inv v" "w_next_oid w \<le> leaf_oid d"
    using assms
    by (cases l)
      (auto simp: world_inv_def join_notify_def handle_query_notify_def handle_find_successor_notify_def
        handle_get_successor_list_notify_def finish_defs Let_def split_def
        elim!: res_bind_InrE split: if_splits)
  then show ?thesis
  proof cases
    case 1
    then have "grows (w_next_oid w) QUERY (MJoin j) (MJoin j') sigs" by (auto intro!: grows_same_deps)
    then show ?thesis by blast
  next
    case 2
    then show ?thesis by (rule join_start_child_grows)
  qed
qed

text \<open>The dependencies \<open>ds\<close> are single messages that \<open>ob\<close> had.\<close>

definition deps_of :: "message_obj \<Rightarrow> dependencies \<Rightarrow> bool" where
  "deps_of ob ds \<longleftrightarrow> (\<forall>d \<in> set ds. \<exists>d'. obj_leaf ob d' \<and> same_leaf d' (fst d))"

lemma deps_of_simps [simp]:
  "deps_of ob []" "deps_of ob (d # ds) \<longleftrightarrow> (\<exists>d'. obj_leaf ob d' \<and> same_leaf d' (fst d)) \<and> deps_of ob ds"
  by (auto simp: deps_of_def)

lemma deps_of_own: "obj_deps ob = ds \<Longrightarrow> deps_of ob ds"
  by (auto simp: deps_of_def obj_leaf_def intro!: exI [of _ "fst d" for d])

lemma grows_deps:
  assumes "deps_of ob (obj_deps ob')" "sig_handlers sigs = []" "\<And>l. ob' \<noteq> MLeaf l"
  shows "grows N k ob ob' sigs"
  using assms no_handlers_named by (cases ob') (auto simp: grows_def deps_of_def)

lemma same_leaf_mark [simp]: "same_leaf l (mark_retrieved l)"
  by (simp add: same_leaf_def)

lemma sb_start_child_grows:
  assumes "sb_start_child env l s w = Inr (s', w', sigs)" "leaf_fresh l" "\<not> leaf_is_handler l" "world_inv w"
    "N \<le> leaf_oid l" "deps_of ob (sb_deps s)"
  shows "\<exists>k. grows N k ob (MStabilize s') sigs"
proof -
  from assms(1) obtain l' where r: "run_child Reentrant env l w = Inr (l', w', sigs)"
    "sb_deps s' = (l', True) # sb_deps s"
    by (auto simp: sb_start_child_def elim!: res_bind_InrE)
  from run_child_kind [OF assms(2,4) r(1)] assms(3,5,6) r(2) show ?thesis
    by (auto simp: grows_def same_leaf_def deps_of_def)
qed

lemma create_notification_grows:
  assumes "create_notification env s w = Inr (s', w', sigs)" "world_inv w" "deps_of ob (sb_deps s)"
    "N \<le> w_next_oid w"
  shows "\<exists>k. grows N k ob (MStabilize s') sigs"
  using assms(1) unfolding create_notification_def Let_def split_def
  by (rule sb_start_child_grows) (use assms in simp_all)

lemma sb_failed_grows:
  "sb_failed s w = Inr (s', w', sigs) \<Longrightarrow> deps_of ob (sb_deps s) \<Longrightarrow> grows N k ob (MStabilize s') sigs"
  by (intro grows_deps) (auto simp: sb_failed_def finish_defs elim!: res_bind_InrE)

lemma handle_pred_list_grows:
  assumes e: "handle_get_pred_and_succ_list_notify env m s w = Inr (s', w', sigs)"
    and w: "world_inv w" and d: "deps_of ob (sb_deps s)"
  shows "\<exists>k. grows (w_next_oid w) k ob (MStabilize s') sigs"
proof -
  let ?s = "s\<lparr>mb_time_point := w_now w + DURATION\<rparr>"
  have d1: "deps_of ob (sb_deps ?s)" using d by simp
  from e obtain v where v: "future_get (ps_promise m) = Inr v"
    by (auto simp: handle_get_pred_and_succ_list_notify_def elim!: res_bind_InrE)
  show ?thesis
  proof (cases v)
    case Nil
    with e v obtain w2 where "sb_clear_flag ?s (w\<lparr>w_table := snd (rt_pop_front (w_table w))\<rparr>) = Inr w2"
      "create_notification env ?s w2 = Inr (s', w', sigs)"
      by (auto simp: handle_get_pred_and_succ_list_notify_def Let_def elim!: res_bind_InrE)
    moreover from this(1) w have "world_inv w2" "w_next_oid w2 = w_next_oid w"
      by (auto simp: sb_clear_flag_def world_inv_def split: if_splits)
    ultimately show ?thesis using create_notification_grows [OF _ _ d1] by (metis order_refl)
  next
    case (Cons p rest)
    obtain me where me: "rt_self (w_table w) = Some me" using w by (auto simp: rt_inv_def world_inv_def)
    obtain sc ss where sc: "rt_successor_list (w_table w) = sc # ss"
      using w by (auto simp: world_inv_def elim: rt_invD)
    let ?w = "w\<lparr>w_table := replace_successor_list (sc # (if rest \<noteq> [] then rest else [p])) (w_table w)\<rparr>"
    have w': "world_inv ?w" using w by (simp add: world_inv_def)
    let ?l = "LGetSelfAndSuccList (GetSelfAndSuccList_new (w_next_oid w) p (w_now w))"
    let ?w4 = "?w\<lparr>w_next_oid := Suc (w_next_oid w)\<rparr>"
    from e v Cons me sc consider "sb_start_child env ?l ?s ?w4 = Inr (s', w', sigs)"
      | w5 where "create_notification env ?s ?w = Inr (s', w5, sigs)"
      by (auto simp: handle_get_pred_and_succ_list_notify_def Let_def split_def
          elim!: res_bind_InrE split: if_splits)
    then show ?thesis
    proof cases
      case 1
      then show ?thesis by (rule sb_start_child_grows) (use w' d1 in simp_all)
    next
      case 2
      then show ?thesis by (rule create_notification_grows) (use w' d1 in simp_all)
    qed
  qed
qed

lemma handle_self_list_grows:
  assumes e: "handle_get_self_and_succ_list_notify env m s w = Inr (s', w', sigs)"
    and w: "world_inv w" and d: "deps_of ob (sb_deps s)"
  shows "\<exists>k. grows (w_next_oid w) k ob (MStabilize s') sigs"
proof -
  from e obtain s1 w2 where c: "create_notification env s1 w2 = Inr (s', w', sigs)" "sb_deps s1 = sb_deps s"
    "world_inv w2" "w_next_oid w2 = w_next_oid w"
    using w
    by (auto simp: handle_get_self_and_succ_list_notify_def Let_def sb_clear_flag_def world_inv_def
        elim!: res_bind_InrE split: if_splits)
  show ?thesis by (rule create_notification_grows [OF c(1,3)]) (use c d in simp_all)
qed

lemma sb_notify_grows:
  assumes e: "sb_notify env s w = Inr (s', w', sigs)" and s: "sb_deps s = (l, e0) # ds" and w: "world_inv w"
  shows "\<exists>k. grows (w_next_oid w) k (MStabilize s) (MStabilize s') sigs"
proof -
  have own: "deps_of (MStabilize s) (sb_deps s)" by (rule deps_of_own) simp
  let ?s = "s\<lparr>sb_deps := (mark_retrieved l, e0) # ds\<rparr>"
  have l: "obj_leaf (MStabilize s) l" using s by simp
  then have d: "deps_of (MStabilize s) (sb_deps ?s)" using own s by (auto intro!: exI [of _ l])
  show ?thesis
  proof (cases "leaf_is_done l \<and> leaf_state l = DONE")
    case False
    with e s have "sb_failed s w = Inr (s', w', sigs)" by (auto simp: sb_notify_def)
    with sb_failed_grows own show ?thesis by blast
  next
    case True
    from True e s consider
        m where "handle_get_pred_and_succ_list_notify env m ?s w = Inr (s', w', sigs)"
      | m where "handle_get_self_and_succ_list_notify env m ?s w = Inr (s', w', sigs)"
      | "sb_deps s' = sb_deps ?s" "sig_handlers sigs = []"
      by (cases l) (auto simp: sb_notify_def handle_notification_notify_def finish_defs)
    then show ?thesis
    proof cases
      case 1
      then show ?thesis by (rule handle_pred_list_grows [OF _ w d])
    next
      case 2
      then show ?thesis by (rule handle_self_list_grows [OF _ w d])
    next
      case 3
      have "grows (w_next_oid w) QUERY (MStabilize s) (MStabilize s') sigs"
        by (rule grows_deps) (use 3 d in simp_all)
      then show ?thesis by blast
    qed
  qed
qed

lemma bf_on_signal_step:
  assumes "bf_on_signal s b w = Inr (b1, w1, out)"
  shows "bf_deps b1 = bf_deps b" "w1 = w" "sig_handlers out = sig_handlers [s]"
    "handler_named k s \<Longrightarrow> \<forall>s \<in> set out. handler_named k s"
  using assms by (cases s; auto simp: bf_on_signal_def bf_notify_def Let_def finish_defs split: if_splits)+

lemma absorb_bf_step:
  assumes "absorb bf_on_signal sigs b w = Inr (b', w', out)"
  shows "bf_deps b' = bf_deps b \<and> w' = w \<and> sig_handlers out = sig_handlers sigs \<and>
    ((\<forall>s \<in> set sigs. handler_named k s) \<longrightarrow> (\<forall>s \<in> set out. handler_named k s))"
  using assms
proof (induction sigs arbitrary: b w out)
  case Nil
  then show ?case by simp
next
  case (Cons s sigs)
  then obtain b1 w1 o1 o2 where s: "bf_on_signal s b w = Inr (b1, w1, o1)"
    "absorb bf_on_signal sigs b1 w1 = Inr (b', w', o2)" "out = o1 @ o2"
    by (auto elim!: res_bind_InrE)
  note 1 = bf_on_signal_step [OF s(1)]
  note 2 = Cons.IH [OF s(2)]
  have "sig_handlers out = sig_handlers (s # sigs)"
    using 1(3) 2 sig_handlers_append [of "[s]" sigs] by (simp add: s(3))
  moreover have "\<forall>x \<in> set out. handler_named k x" if "\<forall>x \<in> set (s # sigs). handler_named k x"
  proof -
    have "\<forall>x \<in> set o1. handler_named k x" using 1(4) that by simp
    moreover have "\<forall>x \<in> set o2. handler_named k x" using 2 that by simp
    ultimately show ?thesis by (auto simp: s(3))
  qed
  moreover have "bf_deps b' = bf_deps b" "w' = w" using 1(1,2) 2 by simp_all
  ultimately show ?case by blast
qed

text \<open>The transfers of a broadcast.\<close>

lemma bf_fetch_kind:
  assumes "bf_fetch env p fs b w = Inr (b', w', sigs)" "world_inv w"
    "\<forall>d \<in> set (bf_deps b). leaf_kind (fst d) = GET_FILE \<and> \<not> leaf_is_handler (fst d)"
  shows "(\<forall>d \<in> set (bf_deps b'). leaf_kind (fst d) = GET_FILE \<and> \<not> leaf_is_handler (fst d)) \<and>
    (\<forall>s \<in> set sigs. handler_named GET_FILE s)"
  using assms
proof (induction fs arbitrary: b w sigs)
  case Nil
  then show ?case by simp
next
  case (Cons f fs)
  show ?case
  proof (cases "file_exists (file_name f) (w_storage w)")
    case True
    with Cons.prems(1) have "bf_fetch env p fs b w = Inr (b', w', sigs)" by simp
    from Cons.IH [OF this Cons.prems(2,3)] show ?thesis .
  next
    case False
    let ?l = "LGetFile (GetFile_new (w_next_oid w) p f (w_now w))"
    let ?w1 = "w\<lparr>w_next_oid := Suc (w_next_oid w)\<rparr>"
    from Cons.prems(1) False obtain l w2 out b3 w3 out3 out4 where
      l: "leaf_run env ?l ?w1 = Inr (l, w2, out)"
      and b3: "absorb bf_on_signal out (b\<lparr>bf_deps := bf_deps b @ [(l, False)]\<rparr>) w2 = Inr (b3, w3, out3)"
      and b4: "bf_fetch env p fs b3 w3 = Inr (b', w', out4)" "sigs = out3 @ out4"
      by (auto simp: Let_def split_def simp del: leaf_run.simps elim!: res_bind_InrE)
    have w1: "world_inv ?w1" using Cons.prems(2) by simp
    note k = leaf_run_kind [OF new_leaf_fresh(8) w1 l]
    note r = leaf_run_inv [OF new_leaf_fresh(8) w1 l]
    have nh: "\<not> leaf_is_handler ?l" by (simp add: leaf_is_handler_def leaf_new_defs)
    note a = absorb_bf_step [OF b3, of GET_FILE]
    have deps: "bf_deps b3 = bf_deps b @ [(l, False)]" "w3 = w2" using a by simp_all
    have "\<forall>s \<in> set out. handler_named GET_FILE s" using k(2) by simp
    with a have out3: "\<forall>s \<in> set out3. handler_named GET_FILE s" by blast
    have l': "leaf_kind l = GET_FILE" "\<not> leaf_is_handler l" "world_inv w2"
      using r(3,4,5) nh by simp_all
    have "\<forall>d \<in> set (bf_deps b3). leaf_kind (fst d) = GET_FILE \<and> \<not> leaf_is_handler (fst d)"
      unfolding deps using l' Cons.prems(3) by auto
    note d = this
    have "world_inv w3" using l'(3) deps(2) by simp
    from Cons.IH [OF b4(1) this d] out3 show ?thesis unfolding b4(2) set_append by blast
  qed
qed

subsection \<open>All objects\<close>

text \<open>A delivery.\<close>

lemma grows_refl: "grows N k ob ob []"
  unfolding grows_def using same_leaf_refl by auto

lemma child_grows:
  assumes "same_leaf d d'" "obj_leaf ob d" "deps_of ob ds"
  shows "deps_of ob (set_child d' ds)"
  unfolding deps_of_def
proof
  fix x assume "x \<in> set (set_child d' ds)"
  then have "fst x = d' \<or> x \<in> set ds" by (auto simp: set_child_def split: if_splits)
  with assms show "\<exists>l. obj_leaf ob l \<and> same_leaf l (fst x)" by (auto simp: deps_of_def)
qed

lemma obj_response_grows:
  assumes inv: "obj_inv ob" and w: "world_inv w" and r: "request_sound resp"
    and ok: "obj_handlers_ok hs ob" and h: "h \<in> hs" and i: "ho_parent h \<in> set (obj_oids ob)"
    and e: "obj_deliver env (ho_parent h) (leaf_handle env (ho_handler h) resp) ob w = Inr (ob', w', sigs)"
  shows "\<exists>k. grows (w_next_oid w) k ob ob' sigs"
proof (cases ob)
  case (MLeaf l)
  with i ok h inv have l: "leaf_inv l" "leaf_ready l" by (auto simp: obj_oids_eq)
  from e MLeaf obtain l' where l': "leaf_handle env (ho_handler h) resp l w = Inr (l', w', sigs)" "ob' = MLeaf l'"
    by (auto simp: lift_step_Inr)
  from leaf_handle_inv [OF l r w l'(1)] leaf_handle_effect(1) [OF l'(1) l]
  have "grows (w_next_oid w) QUERY ob ob' sigs"
    using no_handlers_named by (auto simp: MLeaf l'(2) grows_def same_leaf_def)
  then show ?thesis by blast
next
  case (MJoin j)
  show ?thesis
  proof (cases "find_child (ho_parent h) (jo_deps j)")
    case None
    with e MJoin have "ob' = ob" "sigs = []" by auto
    with grows_refl show ?thesis by blast
  next
    case (Some d0)
    then have True: "ho_parent h \<in> set (dep_oids ob)"
      using MJoin find_child_None [of "ho_parent h" "jo_deps j"] by (auto simp del: set_map)
    obtain d where d: "jo_deps j = [(d, True)]" using inv MJoin by auto
    from ok h True MJoin d have f: "\<not> mb_is_done j" "ho_parent h = leaf_oid d" "\<not> leaf_is_done d"
      "ho_handler h = HandleResponse"
      by auto
    have di: "leaf_inv d" "\<not> leaf_is_handler d" and kind: "leaf_kind d \<in> {QUERY, FIND_SUCCESSOR, GET_SUCCESSOR_LIST}"
      using inv d MJoin by (auto simp: deps_inv_def child_kinds_def)
    then have ready: "leaf_ready d" using f(3) by (auto simp: leaf_ready_def)
    from e d f MJoin obtain j' where j': "join_child env (leaf_handle env HandleResponse resp d w) j = Inr (j', w', sigs)"
      "ob' = MJoin j'"
      using find_child_hd [of "(d, True)" "ho_parent h" "[]"] by (auto simp: lift_step_Inr)
    then obtain d' v out where d': "leaf_handle env HandleResponse resp d w = Inr (d', v, out)"
      by (auto simp: join_child_def elim!: res_bind_InrE)
    note di' = leaf_handle_inv [OF di(1) ready r w d']
    have out: "out = [SigNotify]" using child_response [OF d'] kind di f(3) by auto
    have "join_notify env (j\<lparr>jo_deps := [(d', True)]\<rparr>) v = Inr (j', w', sigs)"
      using j'(1) d' out d di'(2)
      by (auto simp: join_child_def set_child_single join_on_signal_def split_def elim!: res_bind_InrE)
    from join_notify_grows [OF this _ di'(5)] obtain k where
      "grows (w_next_oid v) k (MJoin (j\<lparr>jo_deps := [(d', True)]\<rparr>)) (MJoin j') sigs" by auto
    then have "grows (w_next_oid w) k ob ob' sigs"
      using d di'(2-4,7) by (auto simp: MJoin j'(2) grows_def same_leaf_def)
    then show ?thesis by blast
  qed
next
  case (MStabilize s)
  show ?thesis
  proof (cases "find_child (ho_parent h) (sb_deps s)")
    case None
    with e MStabilize have "ob' = ob" "sigs = []" by auto
    with grows_refl show ?thesis by blast
  next
    case (Some d0)
    then have True: "ho_parent h \<in> set (dep_oids ob)"
      using MStabilize find_child_None [of "ho_parent h" "sb_deps s"] by (auto simp del: set_map)
    then obtain d b ds where d: "sb_deps s = (d, b) # ds" using MStabilize by (cases "sb_deps s") auto
    from ok h True MStabilize d have f: "\<not> mb_is_done s" "ho_parent h = leaf_oid d" "\<not> leaf_is_done d"
      "ho_handler h = HandleResponse"
      by auto
    have di: "leaf_inv d" "\<not> leaf_is_handler d"
      and kind: "leaf_kind d \<in> {GET_PRED_AND_SUCC_LIST, GET_SELF_AND_SUCC_LIST, NOTIFICATION}"
      using inv d MStabilize by (auto simp: deps_inv_def child_kinds_def)
    then have ready: "leaf_ready d" using f(3) by (auto simp: leaf_ready_def)
    from e d f MStabilize obtain s' where s': "sb_child env (leaf_handle env HandleResponse resp d w) s = Inr (s', w', sigs)"
      "ob' = MStabilize s'"
      using find_child_hd [of "(d, b)" "ho_parent h" ds] by (auto simp: lift_step_Inr)
    then obtain d' v out where d': "leaf_handle env HandleResponse resp d w = Inr (d', v, out)"
      by (auto simp: sb_child_def elim!: res_bind_InrE)
    note di' = leaf_handle_inv [OF di(1) ready r w d']
    have out: "out = [SigNotify]" using child_response [OF d'] kind di f(3) by auto
    let ?s = "s\<lparr>sb_deps := (d', b) # set_child d' ds\<rparr>"
    have "sb_notify env ?s v = Inr (s', w', sigs)"
      using s'(1) d' out d di'(2)
      by (auto simp: sb_child_def set_child_hd sb_on_signal_def split_def elim!: res_bind_InrE)
    from sb_notify_grows [OF this _ di'(5)] obtain k where
      g: "grows (w_next_oid v) k (MStabilize ?s) (MStabilize s') sigs" by auto
    have "deps_of ob (set_child d' (sb_deps s))"
      by (rule child_grows [of d d']) (use di'(2-4) d MStabilize deps_of_own [of ob] in \<open>auto simp: same_leaf_def\<close>)
    then have old: "\<exists>l. obj_leaf ob l \<and> same_leaf l l'" if "obj_leaf (MStabilize ?s) l'" for l'
      using that di'(2) by (auto simp: deps_of_def d set_child_hd)
    have "grows (w_next_oid w) k ob ob' sigs"
      using g old di'(7) unfolding grows_def s'(2) by (metis (no_types, lifting) same_leaf_def)
    then show ?thesis by blast
  qed
next
  case (MBroadcast b)
  show ?thesis
  proof (cases "find_child (ho_parent h) (bf_deps b)")
    case None
    with e MBroadcast have "ob' = ob" "sigs = []" by auto
    with grows_refl show ?thesis by blast
  next
    case (Some d)
    have d: "leaf_kind d = GET_FILE" "leaf_inv d" "obj_leaf ob d"
      using find_child_SomeD [OF Some] inv MBroadcast
      by (force simp: deps_inv_def child_kinds_def)+
    then have ready: "leaf_ready d" by (simp add: leaf_ready_def)
    from e Some MBroadcast obtain b' where b': "bf_child (leaf_handle env (ho_handler h) resp d w) b = Inr (b', w', sigs)"
      "ob' = MBroadcast b'" by (auto simp: lift_step_Inr)
    then obtain d' v out where d': "leaf_handle env (ho_handler h) resp d w = Inr (d', v, out)"
      "absorb bf_on_signal out (b\<lparr>bf_deps := set_child d' (bf_deps b)\<rparr>) v = Inr (b', w', sigs)"
      by (auto simp: bf_child_def elim!: res_bind_InrE)
    note di' = leaf_handle_inv [OF d(2) ready r w d'(1)]
    note a = absorb_bf_step [OF d'(2), of QUERY]
    have none: "sig_handlers sigs = []"
      using a leaf_handle_effect(1) [OF d'(1) d(2) ready] by simp
    have "deps_of ob (set_child d' (bf_deps b))"
      by (rule child_grows [of d d']) (use di'(2-4) d MBroadcast deps_of_own [of ob] in \<open>auto simp: same_leaf_def\<close>)
    then have "grows (w_next_oid w) QUERY ob ob' sigs"
      by (intro grows_deps) (use a none b'(2) in simp_all)
    then show ?thesis by blast
  qed
qed

lemma obj_written_grows:
  assumes inv: "obj_inv ob" and w: "world_inv w" and i: "i \<in> set (obj_oids ob)"
    and e: "obj_deliver env i (leaf_on_write env failed) ob w = Inr (ob', w', sigs)"
  shows "\<exists>k. grows (w_next_oid w) k ob ob' sigs"
proof (cases ob)
  case (MLeaf l)
  with inv have l: "leaf_inv l" by simp
  from e MLeaf obtain l' where l': "leaf_on_write env failed l w = Inr (l', w', sigs)" "ob' = MLeaf l'"
    by (auto simp: lift_step_Inr)
  from leaf_on_write_inv [OF l w l'(1)]
  have "grows (w_next_oid w) QUERY ob ob' sigs"
    using no_handlers_named by (auto simp: MLeaf l'(2) grows_def same_leaf_def)
  then show ?thesis by blast
next
  case (MJoin j)
  show ?thesis
  proof (cases "find_child i (jo_deps j)")
    case None
    with e MJoin have "ob' = ob" "sigs = []" by auto
    with grows_refl show ?thesis by blast
  next
    case (Some d)
    obtain e0 where m: "(d, e0) \<in> set (jo_deps j)" using find_child_SomeD [OF Some] by blast
    have "\<forall>(l, e) \<in> set (jo_deps j). leaf_kind l \<noteq> GET_FILE" using inv by (auto simp: MJoin child_kinds_def)
    with m have d: "leaf_kind d \<noteq> GET_FILE" "obj_leaf ob d" by (auto simp: MJoin intro: rev_image_eqI)
    from d(1) have "leaf_on_write env failed d w = Inr (d, w, [])" by (cases d) simp_all
    with e Some MJoin have o: "ob' = MJoin (j\<lparr>jo_deps := set_child d (jo_deps j)\<rparr>)" "sigs = []"
      by (simp_all add: lift_step_Inr join_child_def)
    have "deps_of ob (set_child d (jo_deps j))"
      by (rule child_grows [OF same_leaf_refl d(2) deps_of_own]) (simp add: MJoin)
    then have "grows (w_next_oid w) QUERY ob ob' sigs" by (intro grows_deps) (simp_all add: o)
    then show ?thesis by blast
  qed
next
  case (MStabilize s)
  show ?thesis
  proof (cases "find_child i (sb_deps s)")
    case None
    with e MStabilize have "ob' = ob" "sigs = []" by auto
    with grows_refl show ?thesis by blast
  next
    case (Some d)
    obtain e0 where m: "(d, e0) \<in> set (sb_deps s)" using find_child_SomeD [OF Some] by blast
    have "\<forall>(l, e) \<in> set (sb_deps s). leaf_kind l \<noteq> GET_FILE" using inv by (auto simp: MStabilize child_kinds_def)
    with m have d: "leaf_kind d \<noteq> GET_FILE" "obj_leaf ob d" by (auto simp: MStabilize intro: rev_image_eqI)
    from d(1) have "leaf_on_write env failed d w = Inr (d, w, [])" by (cases d) simp_all
    with e Some MStabilize have o: "ob' = MStabilize (s\<lparr>sb_deps := set_child d (sb_deps s)\<rparr>)" "sigs = []"
      by (simp_all add: lift_step_Inr sb_child_def)
    have "deps_of ob (set_child d (sb_deps s))"
      by (rule child_grows [OF same_leaf_refl d(2) deps_of_own]) (simp add: MStabilize)
    then have "grows (w_next_oid w) QUERY ob ob' sigs" by (intro grows_deps) (simp_all add: o)
    then show ?thesis by blast
  qed
next
  case (MBroadcast b)
  show ?thesis
  proof (cases "find_child i (bf_deps b)")
    case None
    with e MBroadcast have "ob' = ob" "sigs = []" by auto
    with grows_refl show ?thesis by blast
  next
    case (Some d)
    have d: "leaf_inv d" "obj_leaf ob d"
      using find_child_SomeD [OF Some] inv MBroadcast by (force simp: deps_inv_def)+
    from e Some MBroadcast obtain b' where b': "bf_child (leaf_on_write env failed d w) b = Inr (b', w', sigs)"
      "ob' = MBroadcast b'" by (auto simp: lift_step_Inr)
    then obtain d' v out where d': "leaf_on_write env failed d w = Inr (d', v, out)"
      "absorb bf_on_signal out (b\<lparr>bf_deps := set_child d' (bf_deps b)\<rparr>) v = Inr (b', w', sigs)"
      by (auto simp: bf_child_def elim!: res_bind_InrE)
    note di' = leaf_on_write_inv [OF d(1) w d'(1)]
    note a = absorb_bf_step [OF d'(2), of QUERY]
    have "deps_of ob (set_child d' (bf_deps b))"
      by (rule child_grows [of d d']) (use di'(2-4) d MBroadcast deps_of_own [of ob] in \<open>auto simp: same_leaf_def\<close>)
    then have "grows (w_next_oid w) QUERY ob ob' sigs"
      by (intro grows_deps) (use a di'(9) b'(2) in simp_all)
    then show ?thesis by blast
  qed
qed

text \<open>The clean-up keeps the numbers and kinds.\<close>

lemma deps_of_expired:
  assumes "map (\<lambda>(l, e). (leaf_oid l, leaf_kind l, leaf_is_handler l, e)) ds' =
    map (\<lambda>(l, e). (leaf_oid l, leaf_kind l, leaf_is_handler l, e)) ds" "deps_of ob ds"
  shows "deps_of ob ds'"
  using assms
proof (induction ds' arbitrary: ds)
  case Nil
  then show ?case by simp
next
  case (Cons d' ds')
  then obtain d ds2 where ds: "ds = d # ds2" by (cases ds) auto
  with Cons.prems have "same_leaf (fst d) (fst d')" by (auto simp: same_leaf_def split_def)
  with Cons ds show ?case by (auto simp: same_leaf_def)
qed

lemma obj_check_grows:
  assumes inv: "obj_inv ob" and w: "world_inv w" and e: "obj_check_state ob w = Inr (st, ob', w')"
  shows "grows N k ob ob' []"
proof (cases ob)
  case (MLeaf l)
  with inv leaf_check_ok [of l w] w e show ?thesis
    by (auto simp: checked_def lift_state_def grows_def same_leaf_def)
next
  case (MJoin j)
  with inv any_expired_ok [of "jo_deps j" w] w obtain b ds v where
    x: "any_expired (jo_deps j) w = Inr (b, ds, v)"
      "map (\<lambda>(l, e). (leaf_oid l, leaf_kind l, leaf_is_handler l, e)) ds =
       map (\<lambda>(l, e). (leaf_oid l, leaf_kind l, leaf_is_handler l, e)) (jo_deps j)"
    by auto
  have "deps_of ob ds" "deps_of ob (jo_deps j)"
    using deps_of_expired [OF x(2)] deps_of_own [of ob "jo_deps j"] MJoin by simp_all
  then show ?thesis
    using e MJoin x(1)
    by (intro grows_deps) (auto simp: lift_state_def check_state_def join_any_expired_def
        join_handle_failed_def elim!: res_bind_InrE split: if_splits)
next
  case (MStabilize s)
  with inv any_expired_ok [of "sb_deps s" w] w obtain b ds v where
    x: "any_expired (sb_deps s) w = Inr (b, ds, v)"
      "map (\<lambda>(l, e). (leaf_oid l, leaf_kind l, leaf_is_handler l, e)) ds =
       map (\<lambda>(l, e). (leaf_oid l, leaf_kind l, leaf_is_handler l, e)) (sb_deps s)"
    by auto
  have "deps_of ob ds" "deps_of ob (sb_deps s)"
    using deps_of_expired [OF x(2)] deps_of_own [of ob "sb_deps s"] MStabilize by simp_all
  then show ?thesis
    using e MStabilize x(1)
    by (intro grows_deps) (auto simp: lift_state_def check_state_def sb_any_expired_def
        sb_handle_failed_def elim!: res_bind_InrE split: if_splits)
next
  case (MBroadcast c)
  with inv any_expired_ok [of "bf_deps c" w] w obtain b ds v where
    x: "any_expired (bf_deps c) w = Inr (b, ds, v)"
      "map (\<lambda>(l, e). (leaf_oid l, leaf_kind l, leaf_is_handler l, e)) ds =
       map (\<lambda>(l, e). (leaf_oid l, leaf_kind l, leaf_is_handler l, e)) (bf_deps c)"
    by auto
  have "deps_of ob ds" "deps_of ob (bf_deps c)"
    using deps_of_expired [OF x(2)] deps_of_own [of ob "bf_deps c"] MBroadcast by simp_all
  then show ?thesis
    using e MBroadcast x(1)
    by (intro grows_deps) (auto simp: lift_state_def check_state_def bf_any_expired_def
        bf_handle_failed_def elim!: res_bind_InrE split: if_splits)
qed

text \<open>A new object and what it starts are of one kind.\<close>

definition uniform :: "MessageType \<Rightarrow> bool \<Rightarrow> message_obj step \<Rightarrow> bool" where
  "uniform k b r \<longleftrightarrow>
     (\<forall>ob w sigs. r = Inr (ob, w, sigs) \<longrightarrow>
        (\<forall>l. obj_leaf ob l \<longrightarrow> leaf_kind l = k \<and> leaf_is_handler l = b) \<and>
        (\<forall>s \<in> set sigs. handler_named k s))"

lemma leaf_run_uniform:
  "leaf_fresh l \<Longrightarrow> world_inv w \<Longrightarrow> uniform (leaf_kind l) (leaf_is_handler l) (obj_run env (MLeaf l) w)"
  using leaf_run_kind [of l w env] by (auto simp: uniform_def lift_step_Inr same_leaf_def simp del: leaf_run.simps)

lemma stabilize_run_uniform:
  assumes "world_inv w"
  shows "uniform GET_PRED_AND_SUCC_LIST False (obj_run env (MStabilize (Stabilize_new i now)) w)"
  unfolding uniform_def
proof (intro allI impI)
  let ?s = "Stabilize_new i now"
  fix ob' w' sigs assume e: "obj_run env (MStabilize ?s) w = Inr (ob', w', sigs)"
  have s: "sb_deps ?s = []" "\<not> mb_is_request_handler ?s"
    by (simp_all add: Stabilize_new_def Stabilize.defs MessagingBase.defs MessagingBase_new_def)
  obtain t ts where t: "rt_successor_list (w_table w) = t # ts"
    using assms by (auto simp: world_inv_def elim: rt_invD)
  let ?l = "LGetPredAndSuccList (GetPredAndSuccList_new (w_next_oid w) t (w_now w))"
  let ?w = "w\<lparr>w_next_oid := Suc (w_next_oid w)\<rparr>"
  from e s t assms obtain l' where l': "run_child Reentrant env ?l ?w = Inr (l', w', sigs)" "\<exists>s'. ob' = MStabilize s' \<and> sb_deps s' = [(l', True)]"
    by (auto simp: run_message_def lift_step_Inr sb_create_request_def split_def Let_def sb_start_child_def
        elim!: res_bind_InrE)
  have "world_inv ?w" using assms by simp
  from run_child_kind [OF _ this l'(1)] l'(2)
  show "(\<forall>l. obj_leaf ob' l \<longrightarrow> leaf_kind l = GET_PRED_AND_SUCC_LIST \<and> leaf_is_handler l = False) \<and>
      (\<forall>s \<in> set sigs. handler_named GET_PRED_AND_SUCC_LIST s)"
    by (auto simp: same_leaf_def)
qed

lemma join_run_uniform:
  assumes "Join_new i a p w0 = (j, w)" "world_inv w"
  shows "uniform QUERY False (obj_run env (MJoin j) w)"
  unfolding uniform_def
proof (intro allI impI)
  fix ob' w' sigs assume e: "obj_run env (MJoin j) w = Inr (ob', w', sigs)"
  let ?l = "LQuery (Query_new (w_next_oid w0) a p (w_now w0))"
  from e assms(1) obtain l' where l': "run_child SelfDeadlock env ?l w = Inr (l', w', sigs)"
    "\<exists>j'. ob' = MJoin j' \<and> jo_deps j' = [(l', True)]"
    by (auto simp: run_message_def lift_step_Inr join_create_request_def Join_new_def new_oid_def
        MessagingBase.defs MessagingBase_new_def Join.defs elim!: res_bind_InrE)
  from run_child_kind [OF _ assms(2) l'(1)] l'(2)
  show "(\<forall>l. obj_leaf ob' l \<longrightarrow> leaf_kind l = QUERY \<and> leaf_is_handler l = False) \<and>
      (\<forall>s \<in> set sigs. handler_named QUERY s)"
    by (auto simp: same_leaf_def)
qed

lemma broadcast_run_uniform:
  assumes b: "bf_deps b = []" and w: "world_inv w"
  shows "uniform GET_FILE False (obj_run env (MBroadcast b) w)"
proof -
  let ?K = "\<lambda>b' sigs. deps_all (\<lambda>l. leaf_kind l = GET_FILE \<and> \<not> leaf_is_handler l) (bf_deps b') \<and>
    (\<forall>s \<in> set sigs. handler_named GET_FILE s)"
  obtain me where me: "rt_self (w_table w) = Some me" using w by (auto simp: rt_inv_def world_inv_def)
  have f: "?K b2 sg" if "bf_fetch env p fs (b\<lparr>bf_flag := x\<rparr>) w = Inr (b2, w2, sg)" for p fs x b2 w2 sg
    unfolding deps_all_def by (rule bf_fetch_kind [OF that w]) (simp add: b)
  have h: "?K b' sigs" if "bf_handle_request env b w = Inr (b', w', sigs)" for b' w' sigs
    using that b me
    by (auto simp: bf_handle_request_def Let_def split_def finish_defs elim!: res_bind_InrE
        split: option.splits if_splits dest!: f)
  have c: "?K b' sigs" if "bf_create_request env b w = Inr (b', w', sigs)" for b' w' sigs
    using that b
    by (auto simp: bf_create_request_def Let_def split_def finish_defs split: option.splits)
  have k: "?K b' sigs" if "run_message (bf_handle_request env) (bf_create_request env) b w = Inr (b', w', sigs)"
    for b' w' sigs
  proof (cases "mb_is_request_handler b")
    case True
    with that have "bf_handle_request env b w = Inr (b', w', sigs)" by (simp add: run_message_def)
    then show ?thesis by (rule h)
  next
    case False
    with that have "bf_create_request env b w = Inr (b', w', sigs)" by (simp add: run_message_def)
    then show ?thesis by (rule c)
  qed
  show ?thesis
    unfolding uniform_def
  proof (intro allI impI)
    fix ob' w' sigs assume "obj_run env (MBroadcast b) w = Inr (ob', w', sigs)"
    then obtain b' where b': "ob' = MBroadcast b'"
      "run_message (bf_handle_request env) (bf_create_request env) b w = Inr (b', w', sigs)"
      by (auto simp: lift_step_Inr)
    from k [OF b'(2)] show "(\<forall>l. obj_leaf ob' l \<longrightarrow> leaf_kind l = GET_FILE \<and> leaf_is_handler l = False) \<and>
        (\<forall>s \<in> set sigs. handler_named GET_FILE s)"
      by (auto simp: b'(1) deps_all_def)
  qed
qed

end
