(* ===== verification/Node_Kinds.thy ===== *)
theory Node_Kinds
  imports Object_Kinds
begin

section \<open>What a node waits for\<close>

text \<open>
  \<open>node_named\<close>: every handler of a node waits, under the transaction id of a request the node has
  issued, for the answer to a request of the kind of the object that will take it. The requests are
  those still in the queue and those that have been sent, \<open>W\<close>; \<open>X\<close> are the numbers of objects that
  answer a request. Every step keeps it.
\<close>

definition issued_by :: "Message set \<Rightarrow> node \<Rightarrow> Message \<Rightarrow> bool" where
  "issued_by W nd m \<longleftrightarrow>
     is_request m \<and> (m \<in> W \<or> (\<exists>r \<in> set (nd_send_queue nd). ro_message r = Some m))"

definition node_named :: "Message set \<Rightarrow> oid set \<Rightarrow> node \<Rightarrow> bool" where
  "node_named W X nd \<longleftrightarrow>
     (\<forall>h \<in> set (nd_handlers nd). \<forall>ob \<in> set (nd_active nd). \<forall>l. obj_leaf ob l \<longrightarrow> leaf_oid l = ho_parent h \<longrightarrow>
        (\<exists>m. issued_by W nd m \<and> get_transaction_id m = ho_correlation_id h \<and>
           get_request_type m = request_name (leaf_kind l))) \<and>
     (\<forall>ob \<in> set (nd_active nd). \<forall>l. obj_leaf ob l \<longrightarrow> leaf_oid l \<in> X \<longrightarrow> leaf_is_handler l) \<and>
     (\<forall>j \<in> X. j < w_next_oid (nd_world nd))"

text \<open>A step of a node whose next number was \<open>N\<close>: the handlers and the single messages it adds are
  of one kind.\<close>

definition adds :: "oid \<Rightarrow> MessageType \<Rightarrow> bool \<Rightarrow> node \<Rightarrow> node \<Rightarrow> bool" where
  "adds N k b nd nd' \<longleftrightarrow>
     (\<forall>h \<in> set (nd_handlers nd'). h \<in> set (nd_handlers nd) \<or>
        (N \<le> ho_parent h \<and> (\<exists>m. issued_by {} nd' m \<and> get_transaction_id m = ho_correlation_id h \<and>
           get_request_type m = request_name k))) \<and>
     (\<forall>ob' \<in> set (nd_active nd'). \<forall>l'. obj_leaf ob' l' \<longrightarrow>
        (\<exists>ob \<in> set (nd_active nd). \<exists>l. obj_leaf ob l \<and> same_leaf l l') \<or>
        (N \<le> leaf_oid l' \<and> leaf_kind l' = k \<and> leaf_is_handler l' = b)) \<and>
     set (nd_send_queue nd) \<subseteq> set (nd_send_queue nd') \<and> N \<le> w_next_oid (nd_world nd')"

lemma issued_mono:
  "issued_by W nd m \<Longrightarrow> W \<subseteq> W' \<Longrightarrow> set (nd_send_queue nd) \<subseteq> set (nd_send_queue nd') \<Longrightarrow> issued_by W' nd' m"
  by (auto simp: issued_by_def)

lemma obj_leaf_oid: "obj_leaf ob l \<Longrightarrow> leaf_oid l \<in> set (obj_oids ob)"
  by (cases ob) (auto simp: obj_oids_eq)

lemma node_named_adds:
  assumes named: "node_named W X nd" and inv: "node_inv nd" and N: "N = w_next_oid (nd_world nd)"
    and step: "adds N k b nd nd'" and X: "X' = (if b then insert N X else X)"
    and b: "b \<Longrightarrow> N < w_next_oid (nd_world nd')"
  shows "node_named W X' nd'"
proof -
  have old: "leaf_oid l < N" if "ob \<in> set (nd_active nd)" "obj_leaf ob l" for ob l
    using inv that obj_leaf_oid [OF that(2)] by (auto simp: node_inv_def N)
  have parent: "ho_parent h < N" if "h \<in> set (nd_handlers nd)" for h
    using inv that by (auto simp: node_inv_def N)
  have q: "set (nd_send_queue nd) \<subseteq> set (nd_send_queue nd')" and le: "N \<le> w_next_oid (nd_world nd')"
    using step by (simp_all add: adds_def)
  have lt: "\<forall>j \<in> X. j < N" using named by (simp add: node_named_def N)
  have leaf: "(\<exists>ob \<in> set (nd_active nd). \<exists>l. obj_leaf ob l \<and> same_leaf l l') \<or>
      (N \<le> leaf_oid l' \<and> leaf_kind l' = k \<and> leaf_is_handler l' = b)"
    if "ob' \<in> set (nd_active nd')" "obj_leaf ob' l'" for ob' l'
    using step that unfolding adds_def by blast
  have handlers: "\<exists>m. issued_by W nd' m \<and> get_transaction_id m = ho_correlation_id h \<and>
      get_request_type m = request_name (leaf_kind l')"
    if h: "h \<in> set (nd_handlers nd')" and l: "ob' \<in> set (nd_active nd')" "obj_leaf ob' l'" "leaf_oid l' = ho_parent h"
    for h ob' l'
  proof (cases "h \<in> set (nd_handlers nd)")
    case True
    from parent [OF True] l(3) have "\<not> N \<le> leaf_oid l'" by simp
    with leaf [OF l(1,2)] obtain ob l0 where
      l0: "ob \<in> set (nd_active nd)" "obj_leaf ob l0" "same_leaf l0 l'" by blast
    with named True l(3) obtain m where "issued_by W nd m" "get_transaction_id m = ho_correlation_id h"
      "get_request_type m = request_name (leaf_kind l')"
      unfolding node_named_def same_leaf_def by metis
    with issued_mono [OF _ order_refl q] show ?thesis by blast
  next
    case False
    with step h obtain m where m: "N \<le> ho_parent h" "issued_by {} nd' m"
      "get_transaction_id m = ho_correlation_id h" "get_request_type m = request_name k"
      unfolding adds_def by blast
    have "\<not> same_leaf l l'" if "ob \<in> set (nd_active nd)" "obj_leaf ob l" for ob l
      using old [OF that] m(1) l(3) by (auto simp: same_leaf_def)
    with leaf [OF l(1,2)] have "leaf_kind l' = k" by blast
    with m issued_mono [OF m(2) _ order_refl] show ?thesis by blast
  qed
  have flags: "leaf_is_handler l'" if l: "ob' \<in> set (nd_active nd')" "obj_leaf ob' l'" "leaf_oid l' \<in> X'" for ob' l'
    using leaf [OF l(1,2)]
  proof
    assume "\<exists>ob \<in> set (nd_active nd). \<exists>l. obj_leaf ob l \<and> same_leaf l l'"
    then obtain ob l where o: "ob \<in> set (nd_active nd)" "obj_leaf ob l" "same_leaf l l'" by blast
    with old [OF o(1,2)] l(3) X have "leaf_oid l \<in> X" by (auto simp: same_leaf_def split: if_splits)
    with named o show ?thesis by (auto simp: node_named_def same_leaf_def)
  next
    assume "N \<le> leaf_oid l' \<and> leaf_kind l' = k \<and> leaf_is_handler l' = b"
    with l(3) X lt show ?thesis by (auto split: if_splits)
  qed
  have bound: "\<forall>j \<in> X'. j < w_next_oid (nd_world nd')"
    using lt le b X by (auto split: if_splits)
  show ?thesis
    unfolding node_named_def using handlers flags bound by blast
qed

text \<open>What the handler of a node does with the notifications of a step.\<close>

lemma observes_grow:
  "set (nd_send_queue nd) \<subseteq> set (nd_send_queue (fold (handler_observe alive) sigs nd))"
proof (induction sigs arbitrary: nd)
  case Nil
  then show ?case by simp
next
  case (Cons s sigs)
  have "set (nd_send_queue nd) \<subseteq> set (nd_send_queue (handler_observe alive s nd))"
    by (cases s) (auto simp: queue_push_def)
  also have "\<dots> \<subseteq> set (nd_send_queue (fold (handler_observe alive) sigs (handler_observe alive s nd)))"
    by (rule Cons.IH)
  finally show ?case by simp
qed

lemma observes_queued:
  "SigH r h \<in> set sigs \<Longrightarrow> r \<in> set (nd_send_queue (fold (handler_observe alive) sigs nd))"
proof (induction sigs arbitrary: nd)
  case Nil
  then show ?case by simp
next
  case (Cons s sigs)
  show ?case
  proof (cases "s = SigH r h")
    case True
    have "r \<in> set (nd_send_queue (handler_observe alive s nd))" by (simp add: True queue_push_def)
    with observes_grow show ?thesis by (metis fold_simps(2) subsetD)
  next
    case False
    with Cons show ?thesis by simp
  qed
qed

lemma sig_handlers_mem: "h \<in> set (sig_handlers sigs) \<Longrightarrow> \<exists>r. SigH r h \<in> set sigs"
  by (induction sigs rule: sig_handlers.induct) auto

lemma observes_issued:
  assumes h: "h \<in> set (nd_handlers (fold (handler_observe alive) sigs nd))" "h \<notin> set (nd_handlers nd)"
    and named: "\<forall>s \<in> set sigs. handler_named k s"
  shows "h \<in> set (sig_handlers sigs)"
    and "\<exists>m. issued_by {} (fold (handler_observe alive) sigs nd) m \<and> get_transaction_id m = ho_correlation_id h \<and>
      get_request_type m = request_name k"
proof -
  show 1: "h \<in> set (sig_handlers sigs)" using h observes_handlers by blast
  then obtain r where r: "SigH r h \<in> set sigs" using sig_handlers_mem by blast
  with named obtain m where "ro_message r = Some m" "is_request m" "get_transaction_id m = ho_correlation_id h"
    "get_request_type m = request_name k" by fastforce
  with observes_queued [OF r, of alive nd] show "\<exists>m. issued_by {} (fold (handler_observe alive) sigs nd) m \<and>
      get_transaction_id m = ho_correlation_id h \<and> get_request_type m = request_name k"
    by (auto simp: issued_by_def)
qed

lemma run_object_adds:
  assumes N: "N = w_next_oid (nd_world nd)" "N \<le> w_next_oid w"
    and step: "obj_step_ok N ob w (obj_run env ob w)"
    and oids: "\<forall>i \<in> set (obj_oids ob). N \<le> i"
    and u: "uniform k b (obj_run env ob w)"
    and e: "run_object env ob (nd\<lparr>nd_world := w\<rparr>) = Inr nd'"
  shows "adds N k b nd nd' \<and> w_next_oid w \<le> w_next_oid (nd_world nd')"
proof -
  from e obtain ob' w' sigs where r: "obj_run env ob w = Inr (ob', w', sigs)"
    and nd': "nd' = (let n = fold (handler_observe (alive_oids (nd_active nd) @ obj_oids ob')) sigs
        (nd\<lparr>nd_world := w\<rparr>\<lparr>nd_world := w'\<rparr>) in n\<lparr>nd_active := deque_push_back ob' (nd_active n)\<rparr>)"
    by (auto simp: run_object_def Let_def elim!: res_bind_InrE)
  let ?n = "fold (handler_observe (alive_oids (nd_active nd) @ obj_oids ob')) sigs (nd\<lparr>nd_world := w'\<rparr>)"
  have nd': "nd' = ?n\<lparr>nd_active := nd_active nd @ [ob']\<rparr>" by (simp add: nd' Let_def deque_push_back_def)
  note s = step [unfolded r obj_step_ok_Inr]
  have new: "leaf_kind l = k \<and> leaf_is_handler l = b" if "obj_leaf ob' l" for l
    using u r that by (auto simp: uniform_def)
  have named: "\<forall>s \<in> set sigs. handler_named k s" using u r by (auto simp: uniform_def)
  have "N \<le> leaf_oid l" if "obj_leaf ob' l" for l
  proof -
    from obj_leaf_oid [OF that] have "leaf_oid l = own_oid ob' \<or> leaf_oid l \<in> set (dep_oids ob')" by (simp add: obj_oids_eq)
    then show ?thesis using s oids N(2) by (auto simp: obj_oids_eq)
  qed
  note fresh = this
  have queue: "set (nd_send_queue nd) \<subseteq> set (nd_send_queue ?n)"
    using observes_grow [of "nd\<lparr>nd_world := w'\<rparr>"] by simp
  have parents: "\<forall>h \<in> set (sig_handlers sigs). N \<le> ho_parent h" using s by blast
  have handlers: "h \<in> set (nd_handlers nd) \<or> (N \<le> ho_parent h \<and> (\<exists>m. issued_by {} nd' m \<and>
      get_transaction_id m = ho_correlation_id h \<and> get_request_type m = request_name k))"
    if "h \<in> set (nd_handlers nd')" for h
  proof (cases "h \<in> set (nd_handlers nd)")
    case False
    have h: "h \<in> set (nd_handlers ?n)" "h \<notin> set (nd_handlers (nd\<lparr>nd_world := w'\<rparr>))"
      using that False by (simp_all add: nd')
    from observes_issued [OF h named] parents show ?thesis by (auto simp: nd' issued_by_def)
  qed simp
  have "\<forall>ob1 \<in> set (nd_active nd'). \<forall>l'. obj_leaf ob1 l' \<longrightarrow>
      (\<exists>ob \<in> set (nd_active nd). \<exists>l. obj_leaf ob l \<and> same_leaf l l') \<or>
      (N \<le> leaf_oid l' \<and> leaf_kind l' = k \<and> leaf_is_handler l' = b)"
  proof (intro ballI allI impI)
    fix ob1 l' assume l': "ob1 \<in> set (nd_active nd')" "obj_leaf ob1 l'"
    then consider "ob1 \<in> set (nd_active nd)" | "ob1 = ob'" by (auto simp: nd')
    then show "(\<exists>ob \<in> set (nd_active nd). \<exists>l. obj_leaf ob l \<and> same_leaf l l') \<or>
      (N \<le> leaf_oid l' \<and> leaf_kind l' = k \<and> leaf_is_handler l' = b)"
    proof cases
      case 1
      with l'(2) same_leaf_refl show ?thesis by blast
    next
      case 2
      with l'(2) new fresh show ?thesis by blast
    qed
  qed
  moreover have "w_next_oid w \<le> w_next_oid (nd_world nd')" using s by (simp add: nd')
  moreover have "set (nd_send_queue nd) \<subseteq> set (nd_send_queue nd')" using queue by (simp add: nd')
  ultimately show ?thesis using handlers N(2) unfolding adds_def by auto
qed

lemma node_named_run:
  assumes named: "node_named W X nd" and inv: "node_inv nd"
    and N: "N = w_next_oid (nd_world nd)" "N < w_next_oid w"
    and step: "obj_step_ok N ob w (obj_run env ob w)"
    and oids: "\<forall>i \<in> set (obj_oids ob). N \<le> i"
    and u: "uniform k b (obj_run env ob w)"
    and e: "run_object env ob (nd\<lparr>nd_world := w\<rparr>) = Inr nd'"
  shows "node_named W (if b then insert N X else X) nd'"
proof -
  have "N \<le> w_next_oid w" using N(2) by simp
  from run_object_adds [OF N(1) this step oids u e] N(2)
  show ?thesis by (intro node_named_adds [OF named inv N(1) _ refl]) auto
qed

subsection \<open>Deliveries\<close>

lemma node_deliver_adds:
  assumes step: "\<And>ob. ob \<in> set (nd_active nd) \<Longrightarrow> i \<in> set (obj_oids ob) \<Longrightarrow>
      obj_step_ok (w_next_oid (nd_world nd)) ob (nd_world nd) (obj_deliver env i f ob (nd_world nd))"
    and grow: "\<And>ob ob' w' sigs. ob \<in> set (nd_active nd) \<Longrightarrow> i \<in> set (obj_oids ob) \<Longrightarrow>
      obj_deliver env i f ob (nd_world nd) = Inr (ob', w', sigs) \<Longrightarrow>
      \<exists>k. grows (w_next_oid (nd_world nd)) k ob ob' sigs"
    and e: "node_deliver env i f nd = Inr nd'"
  shows "\<exists>k. adds (w_next_oid (nd_world nd)) k False nd nd'"
proof (cases rule: deliver_cases [of env i f "nd_active nd" "nd_world nd"])
  case nobody
  with e have "nd' = nd" by (simp add: node_deliver_def)
  moreover have "\<exists>ob \<in> set (nd_active nd). \<exists>l. obj_leaf ob l \<and> same_leaf l l'"
    if "ob' \<in> set (nd_active nd)" "obj_leaf ob' l'" for ob' l'
    using that same_leaf_refl by blast
  ultimately show ?thesis by (simp add: adds_def)
next
  case (found pre ob post)
  let ?N = "w_next_oid (nd_world nd)"
  from found e obtain ob' w' sigs where d: "obj_deliver env i f ob (nd_world nd) = Inr (ob', w', sigs)"
    and nd': "nd' = fold (handler_observe (alive_oids (pre @ ob' # post))) sigs
       (nd\<lparr>nd_world := w', nd_active := pre @ ob' # post\<rparr>)"
    by (auto simp: node_deliver_def elim!: res_bind_InrE)
  have ob: "ob \<in> set (nd_active nd)" using found(1) by simp
  from grow [OF ob found(2) d] obtain k where g: "grows ?N k ob ob' sigs" by blast
  note s = step [OF ob found(2), unfolded d obj_step_ok_Inr]
  let ?n = "nd\<lparr>nd_world := w', nd_active := pre @ ob' # post\<rparr>"
  have named: "\<forall>s \<in> set sigs. handler_named k s" using g by (simp add: grows_def)
  have parents: "\<forall>h \<in> set (sig_handlers sigs). ?N \<le> ho_parent h" using s by blast
  have handlers: "h \<in> set (nd_handlers nd) \<or> (?N \<le> ho_parent h \<and> (\<exists>m. issued_by {} nd' m \<and>
      get_transaction_id m = ho_correlation_id h \<and> get_request_type m = request_name k))"
    if "h \<in> set (nd_handlers nd')" for h
  proof (cases "h \<in> set (nd_handlers nd)")
    case False
    have h: "h \<in> set (nd_handlers (fold (handler_observe (alive_oids (pre @ ob' # post))) sigs ?n))"
      "h \<notin> set (nd_handlers ?n)"
      using that False by (simp_all add: nd')
    from observes_issued [OF h named] parents show ?thesis by (simp add: nd')
  qed simp
  have leaves: "(\<exists>o1 \<in> set (nd_active nd). \<exists>l. obj_leaf o1 l \<and> same_leaf l l') \<or>
      (?N \<le> leaf_oid l' \<and> leaf_kind l' = k \<and> leaf_is_handler l' = False)"
    if l': "o' \<in> set (nd_active nd')" "obj_leaf o' l'" for o' l'
  proof -
    from l'(1) consider "o' \<in> set (nd_active nd)" | "o' = ob'" by (auto simp: nd' found(1))
    then show ?thesis
    proof cases
      case 1
      with l'(2) same_leaf_refl show ?thesis by blast
    next
      case 2
      with g l'(2) ob show ?thesis unfolding grows_def by blast
    qed
  qed
  have queue: "set (nd_send_queue nd) \<subseteq> set (nd_send_queue nd')"
    using observes_grow [of ?n] by (simp add: nd')
  have "?N \<le> w_next_oid (nd_world nd')" using s by (simp add: nd')
  with handlers leaves queue have "adds ?N k False nd nd'" unfolding adds_def by blast
  then show ?thesis by blast
qed

lemma node_named_handlers:
  "node_named W X nd \<Longrightarrow> set hs \<subseteq> set (nd_handlers nd) \<Longrightarrow> node_named W X (nd\<lparr>nd_handlers := hs\<rparr>)"
  unfolding node_named_def issued_by_def by (simp add: subset_iff)

lemma node_named_delivered:
  assumes "node_named W X nd" "node_inv nd" "\<exists>k. adds (w_next_oid (nd_world nd)) k False nd nd'"
  shows "node_named W X nd'"
proof -
  from assms(3) obtain k where "adds (w_next_oid (nd_world nd)) k False nd nd'" by blast
  from node_named_adds [OF assms(1,2) refl this] show ?thesis by simp
qed

lemma handle_response_named:
  assumes named: "node_named W X nd" and inv: "node_inv nd" and r: "request_sound resp"
    and e: "handle_response env resp nd = Inr nd'"
  shows "node_named W X nd'"
proof -
  let ?cid = "correlational_id (msg_header (the (ro_message resp)))"
  let ?hs = "nd_handlers nd"
  have cid: "ro_get_correlational_id resp = Inr ?cid"
    by (simp add: ro_get_correlational_id_def get_message_sound [OF r] get_correlational_id_def)
  have wf: "set_wf ho_correlation_id ?hs" using inv by (simp add: node_inv_def)
  obtain x hs where g:
    "get_and_erase_if ho_correlation_id (\<lambda>h. \<not> ho_is_persistent h) ?cid ?hs = (x, hs)"
    by (cases "get_and_erase_if ho_correlation_id (\<lambda>h. \<not> ho_is_persistent h) ?cid ?hs")
  have sub: "set hs \<subseteq> set ?hs"
    using g by (auto simp: get_and_erase_if_def set_erase_def split: option.splits if_splits)
  have wf': "set_wf ho_correlation_id hs"
    using g wf by (auto simp: get_and_erase_if_def set_erase_def set_wf_filter
        split: option.splits if_splits)
  let ?nd = "nd\<lparr>nd_handlers := hs\<rparr>"
  have inv': "node_inv ?nd" by (rule node_inv_handlers [OF inv sub wf'])
  have named': "node_named W X ?nd" by (rule node_named_handlers [OF named sub])
  from e consider "nd' = ?nd"
    | h where "x = Some h" "node_deliver env (ho_parent h) (leaf_handle env (ho_handler h) resp) ?nd = Inr nd'"
    by (cases x; cases "handler_is_valid (alive_oids (nd_active nd)) (the x)")
      (simp_all add: handle_response_def cid g Let_def)
  then show ?thesis
  proof cases
    case 1
    with named' show ?thesis by simp
  next
    case 2
    note h = 2(1) and d = 2(2)
    have mem: "h \<in> set ?hs" and gone: "\<not> ho_is_persistent h \<Longrightarrow> h \<notin> set hs"
      using g h set_find_SomeD [of ho_correlation_id ?cid ?hs h]
      by (auto simp: get_and_erase_if_def set_erase_def split: option.splits if_splits)
    have all: "\<And>ob. ob \<in> set (nd_active nd) \<Longrightarrow> obj_inv ob \<and> obj_handlers_ok (set ?hs) ob"
      "world_inv (nd_world nd)" "inj_on ho_parent (set ?hs)"
      "\<forall>h \<in> set ?hs. ho_parent h < w_next_oid (nd_world nd)"
      using inv by (auto simp: node_inv_def)
    note step = obj_response_ok(1) [OF _ all(2) r _ mem all(3,4) _ sub gone refl]
    note grow = obj_response_grows [OF _ all(2) r _ mem]
    have "\<exists>k. adds (w_next_oid (nd_world ?nd)) k False ?nd nd'"
      by (rule node_deliver_adds [OF _ _ d]) (use all(1) step grow in simp_all)
    from node_named_delivered [OF named' inv' this] show ?thesis .
  qed
qed

lemma on_write_named:
  assumes named: "node_named W X nd" and inv: "node_inv nd" and e: "on_write env i failed nd = Inr nd'"
  shows "node_named W X nd'"
proof (cases "i \<in> set (alive_oids (nd_active nd))")
  case False
  with e named show ?thesis by (simp add: on_write_def)
next
  case True
  with e have d: "node_deliver env i (leaf_on_write env failed) nd = Inr nd'" by (simp add: on_write_def)
  have all: "\<And>ob. ob \<in> set (nd_active nd) \<Longrightarrow> obj_inv ob \<and> obj_handlers_ok (set (nd_handlers nd)) ob"
    "world_inv (nd_world nd)"
    using inv by (auto simp: node_inv_def)
  note step = obj_written_ok(1) [OF _ all(2) _ refl, where hs = "set (nd_handlers nd)"]
  have "\<exists>k. adds (w_next_oid (nd_world nd)) k False nd nd'"
    by (rule node_deliver_adds [OF _ _ d]) (use all(1) step obj_written_grows [OF _ all(2)] in simp_all)
  from node_named_delivered [OF named inv this] show ?thesis .
qed

subsection \<open>The other steps\<close>

lemma node_clean_named:
  assumes named: "node_named W X nd" and inv: "node_inv nd" and e: "node_clean nd = Inr nd'"
  shows "node_named W X nd'"
proof -
  let ?N = "w_next_oid (nd_world nd)"
  let ?I = "\<lambda>(w, c). world_inv w \<and> w_next_oid w = ?N"
  let ?old = "\<lambda>ob'. \<forall>l'. obj_leaf ob' l' \<longrightarrow> (\<exists>ob \<in> set (nd_active nd). \<exists>l. obj_leaf ob l \<and> same_leaf l l')"
  let ?Q = "\<lambda>ob. obj_inv ob \<and> ?old ob"
  obtain obs w c where d: "deque_clean check_object obj_is_done destroy_object (nd_active nd)
      (nd_world nd, None :: crash option) = (obs, w, c)"
    by (cases "deque_clean check_object obj_is_done destroy_object (nd_active nd)
      (nd_world nd, None :: crash option)")
  have check: "?I (snd (check_object s ob)) \<and> ?Q (fst (check_object s ob))" if I: "?I s" and Q: "?Q ob" for s ob
  proof (cases "snd s")
    case (Some x)
    with I Q show ?thesis by (simp add: check_object_def split_def)
  next
    case None
    obtain v where s: "s = (v, None)" "world_inv v" "w_next_oid v = ?N" using I None by (cases s) auto
    from obj_check_ok [OF conjunct1 [OF Q] s(2)] obtain st ob' v' where
      c: "obj_check_state ob v = Inr (st, ob', v')" "obj_inv ob'" "world_inv v'" "w_next_oid v' = w_next_oid v"
      by (auto simp: obj_checked_def)
    have "?old ob'"
    proof (intro allI impI)
      fix l' assume l': "obj_leaf ob' l'"
      have "grows (Suc (leaf_oid l')) QUERY ob ob' []" by (rule obj_check_grows [OF conjunct1 [OF Q] s(2) c(1)])
      with l' obtain l where l: "obj_leaf ob l" "same_leaf l l'" unfolding grows_def by fastforce
      with Q obtain o1 l1 where "o1 \<in> set (nd_active nd)" "obj_leaf o1 l1" "same_leaf l1 l" by blast
      with l(2) show "\<exists>ob \<in> set (nd_active nd). \<exists>l. obj_leaf ob l \<and> same_leaf l l'"
        by (metis same_leaf_def)
    qed
    with c s show ?thesis by (simp add: check_object_def)
  qed
  have "?I (snd (deque_clean check_object obj_is_done destroy_object (nd_active nd) (nd_world nd, None))) \<and>
    (\<forall>ob \<in> set (fst (deque_clean check_object obj_is_done destroy_object (nd_active nd)
       (nd_world nd, None))). ?Q ob)"
    unfolding deque_clean_def
  proof (rule clean_loop_invariant)
    show "?I (snd (check_object s ob)) \<and> ?Q (fst (check_object s ob))" if "?I s" "?Q ob" for s ob
      by (rule check [OF that])
    show "?I (destroy_object ob s)" if "?I s" "?Q ob" for s ob
      using that by (auto simp: destroy_object_def obj_destroy_ok)
    show "?I (nd_world nd, None)" using inv by (simp add: node_inv_def)
    show "\<forall>ob \<in> set (nd_active nd). ?Q ob" using inv same_leaf_refl unfolding node_inv_def by blast
  qed
  then have r: "w_next_oid w = ?N" "\<forall>ob \<in> set obs. ?old ob" by (simp_all add: d)
  from e d have "nd' = nd\<lparr>nd_active := obs, nd_world := w\<rparr>"
    by (simp add: node_clean_def split: option.splits)
  with r have "adds ?N QUERY False nd nd'" by (simp add: adds_def)
  then have "\<exists>k. adds ?N k False nd nd'" by blast
  from node_named_delivered [OF named inv this] show ?thesis .
qed

text \<open>Every object a node starts by itself.\<close>

lemma handler_check_named:
  assumes "node_named W X nd" "node_inv nd" "handler_check_predecessor env nd = Inr nd'"
  shows "node_named W X nd'"
proof -
  let ?N = "w_next_oid (nd_world nd)"
  let ?w = "(nd_world nd)\<lparr>w_next_oid := Suc ?N\<rparr>"
  let ?l = "LCheckPredecessor (CheckPredecessor_new ?N (w_now ?w))"
  have w: "world_inv ?w" using assms(2) by (simp add: node_inv_def)
  have l: "leaf_fresh ?l" "leaf_oid ?l = ?N" "\<not> leaf_is_handler ?l"
    by (rule new_leaf_fresh) (simp_all add: leaf_oid_def leaf_is_handler_def leaf_new_defs)
  have "run_object env (MLeaf ?l) (nd\<lparr>nd_world := ?w\<rparr>) = Inr nd'"
    using assms(3) by (simp add: handler_check_predecessor_def with_new_oid_def split_def)
  from node_named_run [OF assms(1,2) refl _ leaf_run_step_ok [OF l(1) w] _ leaf_run_uniform [OF l(1) w] this] l
  show ?thesis by (simp add: obj_oids_eq)
qed

lemma handler_stabilize_named:
  assumes named: "node_named W X nd" and inv: "node_inv nd" and e: "handler_stabilize env nd = Inr nd'"
  shows "node_named W X nd'"
proof -
  let ?nd = "nd\<lparr>nd_world := (nd_world nd)\<lparr>w_stabilize_flag := True\<rparr>\<rparr>"
  let ?N = "w_next_oid (nd_world nd)"
  let ?w = "(nd_world ?nd)\<lparr>w_next_oid := Suc ?N\<rparr>"
  let ?s = "MStabilize (Stabilize_new ?N (w_now (nd_world nd)))"
  have inv': "node_inv ?nd" using inv by (simp add: node_inv_flag)
  have named': "node_named W X ?nd" using named by (simp add: node_named_def issued_by_def)
  have w: "world_inv ?w" using inv by (simp add: node_inv_def)
  then have step: "obj_step_ok ?N ?s ?w (obj_run env ?s ?w)" by (intro sb_run_ok) simp_all
  have r: "run_object env ?s (?nd\<lparr>nd_world := ?w\<rparr>) = Inr nd'"
    using e by (simp add: handler_stabilize_def with_new_oid_def split_def)
  have N: "?N = w_next_oid (nd_world ?nd)" "?N < w_next_oid ?w" by simp_all
  have o: "\<forall>i \<in> set (obj_oids ?s). ?N \<le> i" by (simp add: obj_oids_eq stabilize_new_fields)
  from node_named_run [OF named' inv' N step o stabilize_run_uniform [OF w] r] show ?thesis by simp
qed

lemma handler_join_named:
  assumes named: "node_named W X nd" and inv: "node_inv nd" and e: "handler_join env a p nd = Inr nd'"
  shows "node_named W X nd'"
proof -
  let ?N = "w_next_oid (nd_world nd)"
  let ?w0 = "(nd_world nd)\<lparr>w_next_oid := Suc ?N\<rparr>"
  obtain j w where j: "Join_new ?N a p ?w0 = (j, w)" by (cases "Join_new ?N a p ?w0")
  have "world_inv ?w0" "?N < w_next_oid ?w0" using inv by (simp_all add: node_inv_def)
  note r = join_run_ok [OF j this]
  have d: "run_object env (MJoin j) (nd\<lparr>nd_world := w\<rparr>) = Inr nd'"
    using e j by (simp add: handler_join_def with_new_oid_def split_def)
  have N: "?N < w_next_oid w" using r(7) by simp
  have o: "\<forall>i \<in> set (obj_oids (MJoin j)). ?N \<le> i" using r(3,4) by (auto simp: obj_oids_eq)
  from node_named_run [OF named inv refl N r(1) o join_run_uniform [OF j r(5)] d] show ?thesis by simp
qed

lemma broadcast_run_named:
  assumes named: "node_named W X nd" and inv: "node_inv nd"
    and b: "base_inv b" "bf_deps b = []" "mb_oid b = w_next_oid (nd_world nd)"
    and h: "mb_is_request_handler b \<Longrightarrow> mb_request b \<noteq> None"
    and e: "run_object env (MBroadcast b)
      (nd\<lparr>nd_world := (nd_world nd)\<lparr>w_next_oid := Suc (w_next_oid (nd_world nd))\<rparr>\<rparr>) = Inr nd'"
  shows "node_named W X nd'"
proof -
  let ?N = "w_next_oid (nd_world nd)"
  let ?w = "(nd_world nd)\<lparr>w_next_oid := Suc ?N\<rparr>"
  have w: "world_inv ?w" using inv by (simp add: node_inv_def)
  have "obj_step_ok (w_next_oid ?w) (MBroadcast b) ?w (obj_run env (MBroadcast b) ?w)"
    using bf_handle_request_ok [OF w b(1,2) h] bf_create_request_ok [OF w b(1,2)]
    by (simp add: run_message_def)
  then have step: "obj_step_ok ?N (MBroadcast b) ?w (obj_run env (MBroadcast b) ?w)"
    by (rule obj_step_ok_weaken) simp
  have o: "\<forall>i \<in> set (obj_oids (MBroadcast b)). ?N \<le> i" using b by (simp add: obj_oids_eq)
  have N: "?N < w_next_oid ?w" by simp
  from node_named_run [OF named inv refl N step o broadcast_run_uniform [OF b(2) w] e] show ?thesis by simp
qed

lemma handler_broadcast_named:
  assumes "node_named W X nd" "node_inv nd" "handler_broadcast env nd = Inr nd'"
  shows "node_named W X nd'"
  using assms broadcast_run_named [OF assms(1,2),
      of "BroadcastFilelist_new (w_next_oid (nd_world nd)) (w_now (nd_world nd))" env nd']
  by (simp add: handler_broadcast_def with_new_oid_def split_def broadcast_new_fields)

lemma run_chord_round_named:
  assumes named: "node_named W X nd" and inv: "node_inv nd" and e: "run_chord_round env nd = Inr nd'"
  shows "node_named W X nd'"
proof -
  from e obtain nd1 nd2 where
    s: "(if \<not> w_stabilize_flag (nd_world nd) then handler_stabilize env nd else Inr nd) = Inr nd1" and
    c: "(if \<not> w_check_predecessor_flag (nd_world nd1) then handler_check_predecessor env nd1 else Inr nd1) = Inr nd2" and
    d: "node_clean nd2 = Inr nd'"
    by (auto simp only: run_chord_round_def elim!: res_bind_InrE)
  have nd1: "node_inv nd1" "node_named W X nd1"
    using s named inv handler_stabilize_ok [OF inv, of env] handler_stabilize_named [OF named inv]
    by (auto split: if_splits)
  have "node_inv nd2" "node_named W X nd2"
    using c nd1 handler_check_predecessor_ok [OF nd1(1), of env] handler_check_named [OF nd1(2,1)]
    by (auto split: if_splits)
  with d show ?thesis using node_clean_named by blast
qed

subsection \<open>A received message\<close>

text \<open>The object made for a request is one more that answers.\<close>

lemma handle_request_named:
  assumes named: "node_named W X nd" and inv: "node_inv nd" and r: "request_sound r"
    and m: "ro_message r = Some m" "ro_on_write_handler r = None"
    and e: "handle_request env r nd = Inr nd'"
  shows "\<exists>X'. X \<subseteq> X' \<and> node_named W X' nd' \<and>
    (m \<in> W \<longrightarrow> (\<forall>ob w. create_from_request r (nd_world nd) = Inr (Some ob, w) \<longrightarrow> obj_all (leaf_answers W X') ob))"
proof -
  let ?N = "w_next_oid (nd_world nd)"
  let ?w = "(nd_world nd)\<lparr>w_next_oid := Suc ?N\<rparr>"
  have w: "world_inv ?w" using inv by (simp add: node_inv_def)
  consider (none) "create_from_request r (nd_world nd) = Inr (None, nd_world nd)"
    | (leaf) l where "create_from_request r (nd_world nd) = Inr (Some (MLeaf l), ?w)"
        "leaf_fresh l" "leaf_oid l = ?N"
    | (bc) "create_from_request r (nd_world nd) = Inr (Some (MBroadcast
        (BroadcastFilelist_new_request ?N r (w_now (nd_world nd)))), ?w)"
    using create_from_request_cases [OF r, of "nd_world nd"] by (auto simp: made_def)
  then show ?thesis
  proof cases
    case none
    with e have "nd' = nd" by (simp add: handle_request_def)
    with named none show ?thesis by auto
  next
    case leaf
    have d: "run_object env (MLeaf l) (nd\<lparr>nd_world := ?w\<rparr>) = Inr nd'"
      using e leaf(1) by (simp add: handle_request_def)
    have h: "leaf_is_handler l" using create_from_request_leaf [OF r leaf(1)] by blast
    have step: "obj_step_ok ?N (MLeaf l) ?w (obj_run env (MLeaf l) ?w)"
      using leaf w by (intro leaf_run_step_ok) simp_all
    have N: "?N < w_next_oid ?w" and o: "\<forall>i \<in> set (obj_oids (MLeaf l)). ?N \<le> i"
      using leaf(3) by (simp_all add: obj_oids_eq)
    from node_named_run [OF named inv refl N step o leaf_run_uniform [OF leaf(2) w] d] h
    have "node_named W (insert ?N X) nd'" by simp
    moreover have "obj_all (leaf_answers W (insert ?N X)) ob"
      if "m \<in> W" "create_from_request r (nd_world nd) = Inr (Some ob, v)" for ob v
      using made_answers [OF r that(2) m that(1)] by simp
    ultimately show ?thesis by blast
  next
    case bc
    have d: "run_object env (MBroadcast (BroadcastFilelist_new_request ?N r (w_now (nd_world nd))))
        (nd\<lparr>nd_world := ?w\<rparr>) = Inr nd'"
      using e bc by (simp add: handle_request_def)
    have "node_named W X nd'"
      by (rule broadcast_run_named [OF named inv _ _ _ _ d]) (simp_all add: broadcast_new_fields r)
    with bc show ?thesis by (auto simp: broadcast_new_fields)
  qed
qed

lemma receive_named:
  assumes named: "node_named W X nd" and inv: "node_inv nd" and e: "receive env parse buf s nd = Inr nd'"
    and m: "\<And>m. MessageFromSerialized parse buf = Inr m \<Longrightarrow> is_request m \<Longrightarrow> m \<in> W"
  shows "\<exists>X'. X \<subseteq> X' \<and> node_named W X' nd' \<and> made_all (leaf_answers W X') parse (EvReceive buf s) nd"
proof -
  let ?r = "\<lambda>m. received_request s m (w_now (nd_world nd))"
  from e obtain m where p: "MessageFromSerialized parse buf = Inr m" and d: "dispatch env (?r m) nd = Inr nd'"
    by (auto simp: receive_def received_request_def elim!: res_bind_InrE)
  from d consider "is_request m" "handle_request env (?r m) nd = Inr nd'"
    | "\<not> is_request m" "handle_response env (?r m) nd = Inr nd'"
    by (auto simp: dispatch_def ro_is_request_def get_message_def split: if_splits)
  then show ?thesis
  proof cases
    case 1
    from handle_request_named [OF named inv received_request_simps(2,1,3) 1(2)] m [OF p 1(1)] p
    show ?thesis by (auto simp: made_all_def)
  next
    case 2
    from handle_response_named [OF named inv received_request_simps(2) 2(2)] p 2(1)
    show ?thesis by (auto simp: made_all_def)
  qed
qed

subsection \<open>Every step\<close>

text \<open>\<open>node_knows\<close> is what holds of a node in a network whose requests are \<open>W\<close>.\<close>

definition node_knows :: "Message set \<Rightarrow> oid set \<Rightarrow> node \<Rightarrow> bool" where
  "node_knows W X nd \<longleftrightarrow> node_named W X nd \<and> node_all (leaf_answers W X) (request_fit W X) nd"

lemma node_named_mono:
  assumes "node_named W X nd" "\<And>m. issued_by W nd m \<Longrightarrow> issued_by W' nd' m" "nd_handlers nd' = nd_handlers nd"
    "nd_active nd' = nd_active nd" "w_next_oid (nd_world nd') = w_next_oid (nd_world nd)"
  shows "node_named W' X nd'"
  unfolding node_named_def assms(3-5)
proof (intro conjI ballI allI impI)
  fix h ob l
  assume "h \<in> set (nd_handlers nd)" "ob \<in> set (nd_active nd)" "obj_leaf ob l" "leaf_oid l = ho_parent h"
  with assms(1) obtain m where "issued_by W nd m" "get_transaction_id m = ho_correlation_id h"
    "get_request_type m = request_name (leaf_kind l)"
    unfolding node_named_def by blast
  with assms(2) show "\<exists>m. issued_by W' nd' m \<and> get_transaction_id m = ho_correlation_id h \<and>
      get_request_type m = request_name (leaf_kind l)" by blast
qed (use assms(1) in \<open>auto simp: node_named_def\<close>)

lemma node_all_mono:
  assumes "node_all P R nd" "\<And>l. P l \<Longrightarrow> P' l" "\<And>r. R r \<Longrightarrow> R' r"
  shows "node_all P' R' nd"
  using assms unfolding node_all_def obj_all_def by metis

lemma node_knows_mono: "node_knows W X nd \<Longrightarrow> W \<subseteq> W' \<Longrightarrow> node_knows W' X nd"
  unfolding node_knows_def
  by (elim conjE, intro conjI, erule node_named_mono, erule issued_mono)
    (auto elim!: node_all_mono intro: leaf_answers_mono request_fit_mono)

text \<open>The request that is popped is a sent one afterwards.\<close>

lemma node_named_sent:
  assumes "node_named W X nd" "nd_send_queue nd = r # q" "ro_message r = Some m" "is_request m \<Longrightarrow> m \<in> W"
  shows "node_named W X (nd\<lparr>nd_send_queue := q\<rparr>)"
proof -
  have "issued_by W (nd\<lparr>nd_send_queue := q\<rparr>) x" if "issued_by W nd x" for x
    using that assms(2-4) by (auto simp: issued_by_def)
  with assms(1) show ?thesis by (rule node_named_mono) simp_all
qed

lemma run_send_named:
  assumes "node_named W X nd" "node_inv nd" "run_send ser resolves nd = Inr (cmds, nd')"
    "\<And>r q m. nd_send_queue nd = r # q \<Longrightarrow> ro_message r = Some m \<Longrightarrow> is_request m \<Longrightarrow> m \<in> W"
  shows "node_named W X nd'"
proof (cases "nd_send_queue nd")
  case Nil
  with assms(3) have "nd' = nd" by (cases nd) (auto simp: run_send_def wait_for_and_pop_def)
  with assms(1) show ?thesis by simp
next
  case (Cons r q)
  then have nd': "nd' = nd\<lparr>nd_send_queue := q\<rparr>"
    using assms(3) by (auto simp: run_send_def wait_for_and_pop_def elim!: res_bind_InrE)
  obtain m where "ro_message r = Some m"
    using assms(2) Cons by (auto simp: node_inv_def request_sound_def)
  with node_named_sent [OF assms(1) Cons this] assms(4) [OF Cons this] nd' show ?thesis by blast
qed

lemma node_step_named:
  assumes knows: "node_knows W X nd" and inv: "node_inv nd"
    and step: "node_step env parse ser resolves ev nd = Inr nd'"
    and got: "\<And>buf s m. ev = EvReceive buf s \<Longrightarrow> MessageFromSerialized parse buf = Inr m \<Longrightarrow> is_request m \<Longrightarrow> m \<in> W"
    and sent: "\<And>r q m. ev = EvSend \<Longrightarrow> nd_send_queue nd = r # q \<Longrightarrow> ro_message r = Some m \<Longrightarrow> is_request m \<Longrightarrow> m \<in> W"
  shows "\<exists>X'. X \<subseteq> X' \<and> node_knows W X' nd'"
proof -
  have named: "node_named W X nd" and all: "node_all (leaf_answers W X) (request_fit W X) nd"
    using knows by (simp_all add: node_knows_def)
  have "\<exists>X'. X \<subseteq> X' \<and> node_named W X' nd' \<and> made_all (leaf_answers W X') parse ev nd"
  proof (cases ev)
    case (EvReceive buf s)
    with receive_named [OF named inv _ got [OF EvReceive]] step show ?thesis by simp
  next
    case (EvWritten i failed)
    with on_write_named [OF named inv] step show ?thesis by (auto simp: made_all_def)
  next
    case EvChord
    with run_chord_round_named [OF named inv] step show ?thesis by (auto simp: made_all_def)
  next
    case EvPaste
    with handler_broadcast_named [OF named inv] step show ?thesis by (auto simp: made_all_def run_paste_round_def)
  next
    case (EvJoin a p)
    with handler_join_named [OF named inv] step show ?thesis by (auto simp: made_all_def)
  next
    case EvSend
    with step obtain cmds where "run_send ser resolves nd = Inr (cmds, nd')" by (auto elim!: res_bind_InrE)
    from run_send_named [OF named inv this sent [OF EvSend]] EvSend show ?thesis by (auto simp: made_all_def)
  next
    case (EvTick ms)
    with step have "nd' = nd\<lparr>nd_world := (nd_world nd)\<lparr>w_now := w_now (nd_world nd) + ms\<rparr>\<rparr>" by simp
    with named EvTick show ?thesis by (auto simp: made_all_def node_named_def issued_by_def)
  qed
  then obtain X' where X': "X \<subseteq> X'" "node_named W X' nd'" "made_all (leaf_answers W X') parse ev nd" by blast
  have "node_all (leaf_answers W X') (request_fit W X') nd"
    using all 
    by (rule node_all_mono) (erule leaf_answers_mono [OF _ order_refl X'(1)] request_fit_mono [OF _ order_refl X'(1)])+
  from fit.node_step_keeps [OF this X'(3) step] X' show ?thesis
    by (auto simp: node_knows_def)
qed

end
