(* ===== verification/Node_Network.thy ===== *)
theory Node_Network
  imports Node_Kinds
begin

section \<open>A network of nodes\<close>

text \<open>
  Any number of nodes, each running this program, and everything they have ever asked their
  sessions to write. The network may lose, duplicate, reorder and misdeliver messages as it likes:
  a node can receive any buffer of the log at any time. But it makes none up; and it reports a
  write only to the node that asked for it. Then a node can only crash because of an address.
\<close>

subsection \<open>The network\<close>

type_synonym send_log = "(nat \<times> send_cmd) list"

fun sent_buffer :: "send_cmd \<Rightarrow> byte list list" where
  "sent_buffer (WriteDirect s buf i) = [buf]"
| "sent_buffer (WriteSession s buf) = [buf]"
| "sent_buffer (ReadSession s) = []"
| "sent_buffer (ConnectAndWrite buf ip port) = [buf]"
| "sent_buffer ReadNew = []"

definition wire :: "send_log \<Rightarrow> byte list list" where
  "wire log = concat (map (sent_buffer \<circ> snd) log)"

definition sent_cmds ::
  "(pb_Request \<Rightarrow> byte list) \<Rightarrow> (string \<Rightarrow> string \<Rightarrow> bool) \<Rightarrow> node_event \<Rightarrow> node \<Rightarrow> send_cmd list" where
  "sent_cmds ser resolves ev nd =
     (if ev = EvSend then (case run_send ser resolves nd of Inl e \<Rightarrow> [] | Inr (cmds, nd') \<Rightarrow> cmds) else [])"

fun asks_for :: "oid \<Rightarrow> send_cmd \<Rightarrow> bool" where
  "asks_for j (WriteDirect s buf i) \<longleftrightarrow> i = j"
| "asks_for j c \<longleftrightarrow> False"

fun deliverable :: "send_log \<Rightarrow> nat \<Rightarrow> node_event \<Rightarrow> bool" where
  "deliverable log i (EvReceive buf s) \<longleftrightarrow> List.member (wire log) (frame buf)"
| "deliverable log i (EvWritten j failed) \<longleftrightarrow> list_ex (\<lambda>(k, c). k = i \<and> asks_for j c) log"
| "deliverable log i ev \<longleftrightarrow> True"

inductive network ::
  "(nat \<Rightarrow> Env) \<Rightarrow> (byte list \<Rightarrow> pb_Request) \<Rightarrow> (pb_Request \<Rightarrow> byte list) \<Rightarrow>
   (nat \<Rightarrow> string \<Rightarrow> string \<Rightarrow> bool) \<Rightarrow> (nat \<Rightarrow> node) \<Rightarrow> send_log \<Rightarrow> bool"
  for envs parse ser resolves where
  net_start: "(\<And>i. distinct (entries i)) \<Longrightarrow>
    network envs parse ser resolves
      (\<lambda>i. handler_init (MessageHandler_new (envs i) (ip i) (port i) (rt_new (s i) (p i) (t i)) (db i)
         (fs i) (can i) (entries i) (now i))) []"
| net_step: "network envs parse ser resolves nodes log \<Longrightarrow> deliverable log i ev \<Longrightarrow>
    node_step (envs i) parse ser (resolves i) ev (nodes i) = Inr nd \<Longrightarrow>
    network envs parse ser resolves (nodes(i := nd))
      (log @ map (Pair i) (sent_cmds ser (resolves i) ev (nodes i)))"

text \<open>The requests that have been sent, and those that have been issued: sent, or still queued.\<close>

definition requests_of :: "(byte list \<Rightarrow> pb_Request) \<Rightarrow> send_log \<Rightarrow> Message set" where
  "requests_of parse log =
     {m. is_request m \<and> (\<exists>buf. frame buf \<in> set (wire log) \<and> MessageFromSerialized parse buf = Inr m)}"

definition issued :: "(byte list \<Rightarrow> pb_Request) \<Rightarrow> (nat \<Rightarrow> node) \<Rightarrow> send_log \<Rightarrow> Message \<Rightarrow> bool" where
  "issued parse nodes log m \<longleftrightarrow> (\<exists>i. issued_by (requests_of parse log) (nodes i) m)"

text \<open>No two issued requests of different types have the same transaction id.\<close>

definition ids_tell_types :: "(byte list \<Rightarrow> pb_Request) \<Rightarrow> (nat \<Rightarrow> node) \<Rightarrow> send_log \<Rightarrow> bool" where
  "ids_tell_types parse nodes log \<longleftrightarrow>
     (\<forall>m m'. issued parse nodes log m \<longrightarrow> issued parse nodes log m' \<longrightarrow>
        get_transaction_id m = get_transaction_id m' \<longrightarrow> get_request_type m = get_request_type m')"

subsection \<open>What holds in the network\<close>

lemma wire_append [simp]: "wire (log @ log') = wire log @ wire log'"
  by (simp add: wire_def)

lemma requests_of_mono: "requests_of parse log \<subseteq> requests_of parse (log @ log')"
  by (auto simp: requests_of_def)

lemma frame_eq_iff [simp]: "frame b = frame b' \<longleftrightarrow> b = b'"
  by (auto simp: frame_def header_bytes_def)

lemma network_node: "network envs parse ser resolves nodes log \<Longrightarrow> node_reachable (envs i) parse ser (resolves i) (nodes i)"
proof (induction arbitrary: i rule: network.induct)
  case (net_start entries ip port s p t db fs can now)
  then show ?case by (intro node_reachable.started)
next
  case (net_step nodes log j ev nd)
  show ?case
  proof (cases "i = j")
    case True
    with net_step.IH [of j] net_step.hyps(3) show ?thesis by (auto intro: node_reachable.stepped)
  qed (simp add: net_step.IH)
qed

text \<open>What the sessions are asked to write is the message that was at the head of the queue.\<close>

lemma run_send_cmds:
  assumes e: "run_send ser resolves nd = Inr (cmds, nd')" and q: "nd_send_queue nd = r # q"
    and m: "ro_message r = Some m" "message_wf m"
    and pb: "\<And>x. frame (ser x) \<in> set (concat (map sent_buffer cmds)) \<Longrightarrow> parse (ser x) = x"
  shows "\<exists>buf. concat (map sent_buffer cmds) = [frame buf] \<and> MessageFromSerialized parse buf = Inr m"
    and "\<forall>c \<in> set cmds. asks_for j c \<longrightarrow> ro_on_write_handler r = Some j"
proof -
  obtain x where x: "message_to_pb m = Inr x" "message_from_pb x = Inr m"
    using message_codec.enc_total message_codec.dec_enc m(2) by blast
  have c: "send_object ser resolves r = Inr cmds"
    using e q by (auto simp: run_send_def wait_for_and_pop_def elim!: res_bind_InrE)
  then have w: "concat (map sent_buffer cmds) = [frame (ser x)]"
    using m(1) x(1)
    by (auto simp: send_object_def get_message_def SerializedFromMessage_def frame_message_eq
        elim!: res_bind_InrE split: if_splits option.splits)
  with pb have "parse (ser x) = x" by simp
  with x(2) have "MessageFromSerialized parse (ser x) = Inr m" by (simp add: MessageFromSerialized_def)
  with w show "\<exists>buf. concat (map sent_buffer cmds) = [frame buf] \<and> MessageFromSerialized parse buf = Inr m"
    by blast
  show "\<forall>c \<in> set cmds. asks_for j c \<longrightarrow> ro_on_write_handler r = Some j"
    using c by (auto simp: send_object_def elim!: res_bind_InrE split: if_splits option.splits)
qed

lemma wire_of_node: "wire (map (Pair i) cmds) = concat (map sent_buffer cmds)"
  by (simp add: wire_def comp_def)

text \<open>A node that has just been started knows nothing.\<close>

lemma started_knows: "node_knows {} {} (handler_init (MessageHandler_new env ip port rt db fs can entries now))"
  by (simp add: node_knows_def node_named_def node_all_def handler_init_def MessageHandler_new_def Let_def
      split_def queue_new_def split: option.split)

text \<open>Every buffer on the wire is a complete message that some request explains, and every node knows
  what it has asked for.\<close>

definition wire_fit :: "(byte list \<Rightarrow> pb_Request) \<Rightarrow> send_log \<Rightarrow> bool" where
  "wire_fit parse log \<longleftrightarrow>
     (\<forall>buf. frame buf \<in> set (wire log) \<longrightarrow>
        (\<exists>m. MessageFromSerialized parse buf = Inr m \<and> message_fit (requests_of parse log) m))"

definition node_fit :: "(byte list \<Rightarrow> pb_Request) \<Rightarrow> send_log \<Rightarrow> nat \<Rightarrow> node \<Rightarrow> bool" where
  "node_fit parse log i nd \<longleftrightarrow>
     (\<exists>X. node_knows (requests_of parse log) X nd \<and> (\<forall>c j. (i, c) \<in> set log \<longrightarrow> asks_for j c \<longrightarrow> j \<in> X))"

lemma node_fit_other:
  assumes "node_fit parse log k nd" "k \<noteq> i"
  shows "node_fit parse (log @ map (Pair i) cmds) k nd"
proof -
  from assms(1) obtain X where "node_knows (requests_of parse log) X nd"
    "\<forall>c j. (k, c) \<in> set log \<longrightarrow> asks_for j c \<longrightarrow> j \<in> X" by (auto simp: node_fit_def)
  with assms(2) show ?thesis
    unfolding node_fit_def by (intro exI [of _ X]) (auto intro: node_knows_mono [OF _ requests_of_mono])
qed

lemma message_fit_mono: "message_fit W m \<Longrightarrow> W \<subseteq> W' \<Longrightarrow> message_fit W' m"
  unfolding message_fit_def by blast

lemma network_fit:
  assumes "network envs parse ser resolves nodes log"
    and "\<And>x. frame (ser x) \<in> set (wire log) \<Longrightarrow> parse (ser x) = x"
  shows "wire_fit parse log \<and> (\<forall>i. node_fit parse log i (nodes i))"
  using assms
proof (induction rule: network.induct)
  case (net_start entries ip port s p t db fs can now)
  have "node_knows (requests_of parse []) {} (handler_init (MessageHandler_new env ip port rt db fs can entries now))"
    for env ip port rt db fs can entries now
    using started_knows by (simp add: requests_of_def wire_def)
  then have "node_fit parse [] i (handler_init (MessageHandler_new env ip port rt db fs can entries now))"
    for i env ip port rt db fs can entries now
    unfolding node_fit_def by (intro exI [of _ "{}"]) simp
  then show ?case by (simp add: wire_fit_def wire_def)
next
  case (net_step nodes log i ev nd)
  let ?cmds = "sent_cmds ser (resolves i) ev (nodes i)"
  let ?log = "log @ map (Pair i) ?cmds"
  let ?W = "requests_of parse log" and ?W' = "requests_of parse ?log"
  note IH = net_step.IH [OF net_step.prems]
  have IH: "wire_fit parse log" "\<And>k. node_fit parse log k (nodes k)" using IH by auto
  have inv: "node_inv (nodes i)" by (rule node_reachable_inv [OF network_node [OF net_step.hyps(1)]])
  obtain X where X: "node_knows ?W X (nodes i)" "\<And>c j. (i, c) \<in> set log \<Longrightarrow> asks_for j c \<Longrightarrow> j \<in> X"
    using IH(2) [of i] by (auto simp: node_fit_def)
  have sub: "?W \<subseteq> ?W'" by (rule requests_of_mono)
  have sent: "(\<exists>r q m. ev = EvSend \<and> nd_send_queue (nodes i) = r # q \<and> ro_message r = Some m \<and> message_fit ?W m \<and>
      (\<exists>buf. wire (map (Pair i) ?cmds) = [frame buf] \<and> MessageFromSerialized parse buf = Inr m)) \<or>
      (ev = EvSend \<longrightarrow> nd_send_queue (nodes i) = []) \<and> wire (map (Pair i) ?cmds) = []"
    and asked: "\<And>c j. c \<in> set ?cmds \<Longrightarrow> asks_for j c \<Longrightarrow> j \<in> X"
  proof -
    have all: "(\<exists>r q m. ev = EvSend \<and> nd_send_queue (nodes i) = r # q \<and> ro_message r = Some m \<and> message_fit ?W m \<and>
      (\<exists>buf. wire (map (Pair i) ?cmds) = [frame buf] \<and> MessageFromSerialized parse buf = Inr m)) \<and>
      (\<forall>j. \<forall>c \<in> set ?cmds. asks_for j c \<longrightarrow> j \<in> X)"
      if ev: "ev = EvSend" and q: "nd_send_queue (nodes i) = r # q" for r q
    proof -
      from net_step.hyps(3) ev obtain cmds nd1 where c: "run_send ser (resolves i) (nodes i) = Inr (cmds, nd1)"
        by (auto elim!: res_bind_InrE)
      then have cmds: "?cmds = cmds" by (simp add: sent_cmds_def ev)
      have wire: "wire (map (Pair i) ?cmds) = concat (map sent_buffer cmds)" by (simp add: wire_of_node cmds)
      have fit: "request_fit ?W X r" using X(1) q by (simp add: node_knows_def node_all_def)
      obtain m where m: "ro_message r = Some m" using inv q by (auto simp: node_inv_def request_sound_def)
      with fit have mf: "message_fit ?W m" by (simp add: request_fit_def)
      then have wf: "message_wf m" by (simp add: message_fit_def message_complete_def)
      have pb: "parse (ser x) = x" if "frame (ser x) \<in> set (concat (map sent_buffer cmds))" for x
        using net_step.prems [of x] that by (simp add: wire)
      note s = run_send_cmds [where parse = parse, OF c q m wf pb]
      from s(2) fit have "\<forall>j. \<forall>c \<in> set ?cmds. asks_for j c \<longrightarrow> j \<in> X" unfolding cmds request_fit_def by blast
      with s(1) ev q m mf show ?thesis unfolding wire by blast
    qed
    have none: "?cmds = []" if "\<not> (ev = EvSend \<and> nd_send_queue (nodes i) \<noteq> [])"
      using that by (auto simp: sent_cmds_def run_send_def wait_for_and_pop_def)
    show "(\<exists>r q m. ev = EvSend \<and> nd_send_queue (nodes i) = r # q \<and> ro_message r = Some m \<and> message_fit ?W m \<and>
      (\<exists>buf. wire (map (Pair i) ?cmds) = [frame buf] \<and> MessageFromSerialized parse buf = Inr m)) \<or>
      (ev = EvSend \<longrightarrow> nd_send_queue (nodes i) = []) \<and> wire (map (Pair i) ?cmds) = []"
      using all none by (cases "nd_send_queue (nodes i)"; cases "ev = EvSend") (auto simp: wire_def)
    show "j \<in> X" if "c \<in> set ?cmds" "asks_for j c" for c j
      using all none that by (cases "nd_send_queue (nodes i)"; cases "ev = EvSend") auto
  qed
  have wire: "wire_fit parse ?log"
    using sent
  proof
    assume "\<exists>r q m. ev = EvSend \<and> nd_send_queue (nodes i) = r # q \<and> ro_message r = Some m \<and> message_fit ?W m \<and>
      (\<exists>buf. wire (map (Pair i) ?cmds) = [frame buf] \<and> MessageFromSerialized parse buf = Inr m)"
    then obtain m buf where b: "wire (map (Pair i) ?cmds) = [frame buf]" "MessageFromSerialized parse buf = Inr m"
      "message_fit ?W m" by blast
    with IH(1) message_fit_mono [OF _ sub] show ?thesis unfolding wire_fit_def wire_append b(1) by auto
  next
    assume "(ev = EvSend \<longrightarrow> nd_send_queue (nodes i) = []) \<and> wire (map (Pair i) ?cmds) = []"
    with IH(1) message_fit_mono [OF _ sub] show ?thesis unfolding wire_fit_def by (auto simp: wire_append)
  qed
  have got: "m \<in> ?W'" if "ev = EvReceive buf s" "MessageFromSerialized parse buf = Inr m" "is_request m" for buf s m
    using net_step.hyps(2) that sub by (auto simp: requests_of_def)
  have popped: "m \<in> ?W'" if "ev = EvSend" "nd_send_queue (nodes i) = r # q" "ro_message r = Some m" "is_request m"
    for r q m
  proof -
    note p = that
    from sent p(1-3) obtain buf where "wire (map (Pair i) ?cmds) = [frame buf]" "MessageFromSerialized parse buf = Inr m"
      by auto
    then have "frame buf \<in> set (wire ?log)" "MessageFromSerialized parse buf = Inr m" by simp_all
    with p(4) show ?thesis unfolding requests_of_def by blast
  qed
  have "\<exists>X'. X \<subseteq> X' \<and> node_knows ?W' X' nd"
    by (rule node_step_named [OF node_knows_mono [OF X(1) sub] inv net_step.hyps(3) got popped])
  then obtain X' where X': "X \<subseteq> X'" "node_knows ?W' X' nd" by blast
  have "\<forall>c j. (i, c) \<in> set ?log \<longrightarrow> asks_for j c \<longrightarrow> j \<in> X'"
  proof (intro allI impI)
    fix c j assume c: "(i, c) \<in> set ?log" "asks_for j c"
    then have "(i, c) \<in> set log \<or> c \<in> set ?cmds" unfolding set_append set_map by blast
    with X(2) asked c(2) X'(1) show "j \<in> X'" by blast
  qed
  with X'(2) have "node_fit parse ?log i nd" unfolding node_fit_def by blast
  moreover have "node_fit parse ?log k (nodes k)" if "k \<noteq> i" for k by (rule node_fit_other [OF IH(2) that])
  ultimately have "node_fit parse ?log k ((nodes(i := nd)) k)" for k by (cases "k = i") simp_all
  with wire show ?case by blast
qed

text \<open>The answer that reaches an object answers a request of the object's kind.\<close>

lemma answered_kind:
  assumes ids: "ids_tell_types parse nodes log" and nd: "node_knows (requests_of parse log) X (nodes i)"
    and m: "message_fit (requests_of parse log) m" "\<not> is_request m"
    and h: "h \<in> set (nd_handlers (nodes i))" "ob \<in> set (nd_active (nodes i))"
      "ho_correlation_id h = get_correlational_id m" "obj_leaf ob l" "leaf_oid l = ho_parent h"
  shows "get_request_type m = request_name (leaf_kind l)"
proof -
  from m obtain q where q: "q \<in> requests_of parse log" "get_transaction_id q = get_correlational_id m"
    "get_request_type q = get_request_type m"
    by (auto simp: message_fit_def)
  from nd h obtain x where x: "issued_by (requests_of parse log) (nodes i) x"
    "get_transaction_id x = ho_correlation_id h" "get_request_type x = request_name (leaf_kind l)"
    unfolding node_knows_def node_named_def by blast
  have "issued_by (requests_of parse log) (nodes i) q" using q(1) by (auto simp: issued_by_def requests_of_def)
  with x(1) ids q(2) x(2) h(3) have "get_request_type q = get_request_type x"
    unfolding ids_tell_types_def issued_def by metis
  with q(3) x(3) show ?thesis by simp
qed

subsection \<open>Properties\<close>

text \<open>C1. What can still bring a node down in a network where every node runs this program, however
  messages are lost, duplicated, reordered or sent to the wrong node: an address. Either that of the
  receiver of a request cannot be resolved, or a query arrives on a session that has lost its peer.
  Protobuf is assumed to parse what it serialized, for what is in flight; and the transaction ids
  are assumed to tell requests of different types apart.\<close>

theorem network_crashes:
  assumes net: "network envs parse ser resolves nodes log" and ev: "deliverable log i ev"
    and pb: "\<And>x. frame (ser x) \<in> set (wire log) \<Longrightarrow> parse (ser x) = x"
    and ids: "ids_tell_types parse nodes log"
    and e: "node_step (envs i) parse ser (resolves i) ev (nodes i) = Inl e"
  shows "e = SystemError \<and>
    (ev = EvSend \<or>
     (\<exists>buf s m. ev = EvReceive buf s \<and> MessageFromSerialized parse buf = Inr m \<and> is_request m \<and>
        get_request_type m = ''query'' \<and> en_remote_ip (envs i) s = None))"
proof -
  let ?W = "requests_of parse log"
  note cause = node_step_causes [OF node_reachable_inv [OF network_node [OF net]] e]
  note fit = network_fit [OF net pb]
  obtain X where X: "node_knows ?W X (nodes i)" "\<And>c j. (i, c) \<in> set log \<Longrightarrow> asks_for j c \<Longrightarrow> j \<in> X"
    using fit unfolding node_fit_def by blast
  show ?thesis
  proof (cases ev)
    case (EvReceive buf s)
    with ev fit obtain m where m: "MessageFromSerialized parse buf = Inr m" "message_fit ?W m"
      by (auto simp: wire_fit_def)
    show ?thesis
    proof (cases "is_request m")
      case True
      with cause m EvReceive show ?thesis by (auto simp: request_cause_def message_fit_def message_complete_def)
    next
      case False
      with cause m(1) EvReceive obtain h ob l where
        h: "h \<in> set (nd_handlers (nodes i))" "ob \<in> set (nd_active (nodes i))"
          "ho_correlation_id h = get_correlational_id m" "obj_leaf ob l" "leaf_oid l = ho_parent h"
        and c: "leaf_kind l = FIND_SUCCESSOR \<and> msg_peers m = [] \<or> leaf_kind l = GET_FILE \<and> msg_file_chunk m = None"
        by auto
      have "get_request_type m = request_name (leaf_kind l)"
        by (rule answered_kind [OF ids X(1) m(2) False h])
      with c m(2) False show ?thesis by (auto simp: message_fit_def message_complete_def)
    qed
  next
    case (EvWritten j failed)
    with ev have "j \<in> X" using X(2) by (auto simp: list_ex_iff)
    with cause X(1) EvWritten show ?thesis by (auto simp: node_knows_def node_named_def)
  next
    case EvSend
    from cause EvSend obtain r q m where r: "nd_send_queue (nodes i) = r # q" "ro_message r = Some m" and
      c: "e = ReadPastEnd \<and> (\<exists>c. msg_file_chunk m = Some c \<and> length (chunk_data c) < unat (chunk_size c)) \<or>
          e = SystemError"
      by auto
    have "message_wf m"
      using X(1) r by (auto simp: node_knows_def node_all_def request_fit_def message_fit_def message_complete_def)
    with c EvSend show ?thesis by (auto simp: message_wf_def chunk_wf_def)
  qed (use cause in auto)
qed

text \<open>A query of node 0 that reaches node 1 on a session whose peer is already gone.\<close>

definition lonely_env :: Env where
  "lonely_env = example_env\<lparr>en_remote_ip := \<lambda>_. None\<rparr>"

definition lonely_node :: node where
  "lonely_node =
     handler_init (MessageHandler_new lonely_env ''ip'' 1 (rt_new True False True)
       Map.empty Map.empty (\<lambda>_. True) [] 0)"

lemma lonely_join:
  obtains nd r m p where "handler_join lonely_env ''10.0.0.2'' ''1337'' lonely_node = Inr nd"
    "nd_send_queue nd = [r]" "ro_message r = Some m" "is_request m" "get_request_type m = ''query''"
    "ro_connection r = ConnPeer (Some p)" "msg_file_chunk m = None" "msg_peers m \<noteq> []"
  by (simp add: handler_join_def with_new_oid_def Join_new_def new_oid_def run_object_def
      run_message_def join_create_request_def run_child_def qu_create_request_def
      send_with_handler_eq lift_step_def MessagingBase_new_def Join.defs MessagingBase.defs
      Query_new_def Query.defs Let_def split_def lonely_node_def MessageHandler_new_def is_request_def
      get_request_type_def set_connection_peer_def set_message_def
      handler_init_def queue_new_def queue_push_def deque_push_back_def)

lemma lonely_start: "network (\<lambda>_. lonely_env) parse ser resolves (\<lambda>_. lonely_node) []"
  unfolding lonely_node_def by (rule network.net_start) simp

lemma lonely_node_queue: "nd_send_queue lonely_node = []"
  by (simp add: lonely_node_def handler_init_def MessageHandler_new_def Let_def split_def queue_new_def
      split: option.split)

lemma lonely_crash:
  assumes "MessageFromSerialized parse buf = Inr m" "is_request m" "get_request_type m = ''query''"
    "msg_peers m \<noteq> []"
  shows "node_step lonely_env parse ser resolves (EvReceive buf s) lonely_node = Inl SystemError"
proof -
  obtain p ps where "msg_peers m = p # ps" using assms(4) by (cases "msg_peers m") auto
  with assms show ?thesis
    by (simp add: receive_def dispatch_def ro_is_request_def handle_request_def create_from_request_def
        ro_get_request_type_def split_def Let_def run_object_def lift_step_def run_message_def
        Query_new_request_def MessagingBase_new_request_def MessagingBase.defs Query.defs
        qu_handle_request_def get_message_def set_connection_session_def set_message_def
        RequestObject_new_def get_client_ip_def is_session_def get_session_def lonely_env_def)
qed

lemma lonely_network:
  "\<exists>parse ser nodes log m.
     network (\<lambda>_. lonely_env) parse ser (\<lambda>_ _ _. True) nodes log \<and> nodes (Suc 0) = lonely_node \<and>
     wire log = [frame []] \<and> (\<forall>x. ser x = [] \<longrightarrow> parse (ser x) = x) \<and> ids_tell_types parse nodes log \<and>
     MessageFromSerialized parse [] = Inr m \<and> is_request m \<and> get_request_type m = ''query'' \<and> msg_peers m \<noteq> []"
proof -
  obtain nd r m p where nd: "handler_join lonely_env ''10.0.0.2'' ''1337'' lonely_node = Inr nd"
    "nd_send_queue nd = [r]" and m: "ro_message r = Some m" "is_request m" "get_request_type m = ''query''"
    "ro_connection r = ConnPeer (Some p)" "msg_file_chunk m = None" "msg_peers m \<noteq> []"
    by (rule lonely_join)
  have "message_wf m" using m(5) by (simp add: message_wf_def)
  then obtain x where x: "message_to_pb m = Inr x" "message_from_pb x = Inr m"
    using message_codec.enc_total message_codec.dec_enc by blast
  let ?ser = "\<lambda>y. if y = x then [] else [1 :: byte]" and ?parse = "\<lambda>_ :: byte list. x"
  let ?net = "network (\<lambda>_. lonely_env) ?parse ?ser (\<lambda>_ _ _. True)"
  have "?net ((\<lambda>_. lonely_node)(0 := nd)) []"
    using network.net_step [OF lonely_start, of 0 "EvJoin ''10.0.0.2'' ''1337''" ?parse ?ser "\<lambda>_ _ _. True" nd] nd(1)
    by (simp add: sent_cmds_def)
  note join = this
  let ?cmds = "[ConnectAndWrite (frame []) (peer_ip p) (peer_port p), ReadNew]"
  let ?nodes = "(\<lambda>_. lonely_node)(0 := nd\<lparr>nd_send_queue := []\<rparr>)" and ?log = "map (Pair 0) ?cmds"
  have "run_send ?ser (\<lambda>_ _. True) nd = Inr (?cmds, nd\<lparr>nd_send_queue := []\<rparr>)"
    using nd(2) m x
    by (simp add: run_send_def wait_for_and_pop_def send_object_def get_message_def SerializedFromMessage_def
        frame_message_eq is_session_def get_peer_def)
  then have "?net ?nodes ?log"
    using network.net_step [OF join, of 0 EvSend "nd\<lparr>nd_send_queue := []\<rparr>"]
    by (simp add: sent_cmds_def)
  moreover have parsed: "MessageFromSerialized ?parse buf = Inr m" for buf
    using x(2) by (simp add: MessageFromSerialized_def)
  moreover have "?nodes (Suc 0) = lonely_node" "\<forall>y. ?ser y = [] \<longrightarrow> ?parse (?ser y) = y" "wire ?log = [frame []]"
    by (simp_all add: wire_def)
  moreover have "ids_tell_types ?parse ?nodes ?log"
    using parsed by (auto simp: ids_tell_types_def issued_def issued_by_def requests_of_def lonely_node_queue split: if_splits)
  ultimately show ?thesis using m(2,3,6) by blast
qed

lemma network_crashes_witness:
  "\<exists>parse buf m. MessageFromSerialized parse buf = Inr m \<and> is_request m \<and>
     get_request_type m = ''query'' \<and> en_remote_ip lonely_env 0 = None"
proof -
  obtain parse ser nodes log m where
    net: "network (\<lambda>_. lonely_env) parse ser (\<lambda>_ _ _. True) nodes log" "nodes (Suc 0) = lonely_node"
      "wire log = [frame []]"
    and pb: "\<forall>x. ser x = [] \<longrightarrow> parse (ser x) = x" and ids: "ids_tell_types parse nodes log"
    and m: "MessageFromSerialized parse [] = Inr m" "is_request m" "get_request_type m = ''query''" "msg_peers m \<noteq> []"
    using lonely_network by blast
  have "node_step lonely_env parse ser (\<lambda>_ _. True) (EvReceive [] 0) (nodes (Suc 0)) = Inl SystemError"
    unfolding net(2) by (rule lonely_crash [OF m])
  from network_crashes [OF net(1) _ _ ids this] m(1,2) pb net(3) show ?thesis by auto
qed

end
