(* ===== verification/Ring_Join.thy ===== *)
theory Ring_Join
  imports Exchanges Message_Handler
begin

section \<open>A node joins the ring\<close>

text \<open>
  The composites of \<open>join.cpp\<close> and \<open>stabilize.cpp\<close> at work between nodes: each question goes to the
  node at its address, is answered there by the object that the factory makes for it, and the
  answer is delivered to the composite that asked. A new node joins, stabilizes once, and its
  predecessor stabilizes once: then the ring is a ring again, with one node more.
\<close>

subsection \<open>Hosts\<close>

type_synonym hosts = "string \<times> string \<Rightarrow> world"

definition address :: "Peer \<Rightarrow> string \<times> string" where
  "address u = (peer_ip u, peer_port u)"

text \<open>The node at the address of \<open>u\<close> is asked \<open>m\<close>. A lookup may be passed on to other nodes, at most \<open>n\<close>
  in all.\<close>

definition ask :: "nat \<Rightarrow> Env \<Rightarrow> hosts \<Rightarrow> Peer \<Rightarrow> Message \<Rightarrow> Message option \<times> hosts" where
  "ask n env hs u m =
     (if get_request_type m = ''find_successor'' then (network_lookup n env (hs \<circ> address) m u, hs)
      else
        (case create_from_request (arrive m) (hs (address u)) of
           Inr (Some ob, w) \<Rightarrow>
             (case obj_run env ob w of
                Inr (ob', w', sigs) \<Rightarrow>
                  ((case sigs of [Sig r, SigNotify] \<Rightarrow> ro_message r | _ \<Rightarrow> None), hs(address u := w'))
              | Inl e \<Rightarrow> (None, hs))
         | _ \<Rightarrow> (None, hs)))"

text \<open>The object \<open>ob\<close> of the node at \<open>x\<close> has notified \<open>sigs\<close>; it asks, is answered, asks again, as long as
  there are answers and at most \<open>k\<close> times.\<close>

fun conversation ::
  "nat \<Rightarrow> nat \<Rightarrow> Env \<Rightarrow> string \<times> string \<Rightarrow> message_obj \<Rightarrow> signal list \<Rightarrow> hosts \<Rightarrow> message_obj \<times> hosts" where
  "conversation 0 n env x ob sigs hs = (ob, hs)"
| "conversation (Suc k) n env x ob sigs hs =
     (case sigs of
        [SigH r h] \<Rightarrow>
          (case (ro_connection r, ro_message r) of
             (ConnPeer (Some u), Some m) \<Rightarrow>
               (case ask n env hs u m of
                  (None, hs') \<Rightarrow> (ob, hs')
                | (Some am, hs') \<Rightarrow>
                    if get_correlational_id am = ho_correlation_id h \<and> \<not> is_request am then
                      (case obj_deliver env (ho_parent h) (leaf_handle env (ho_handler h) (arrive am)) ob (hs' x) of
                         Inr (ob', w', sigs') \<Rightarrow> conversation k n env x ob' sigs' (hs'(x := w'))
                       | Inl e \<Rightarrow> (ob, hs'))
                    else (ob, hs'))
           | _ \<Rightarrow> (ob, hs))
      | _ \<Rightarrow> (ob, hs))"

definition start_object :: "nat \<Rightarrow> Env \<Rightarrow> string \<times> string \<Rightarrow> message_obj \<Rightarrow> world \<Rightarrow> hosts \<Rightarrow> message_obj \<times> hosts" where
  "start_object n env x ob w hs =
     (case obj_run env ob w of
        Inr (ob', w', sigs) \<Rightarrow> conversation 3 n env x ob' sigs (hs(x := w'))
      | Inl e \<Rightarrow> (ob, hs))"

text \<open>\<open>join\<close> with the address of \<open>t\<close>, and a round of \<open>stabilize\<close>, of the node at \<open>x\<close>.\<close>

definition join_at :: "nat \<Rightarrow> Env \<Rightarrow> string \<times> string \<Rightarrow> Peer \<Rightarrow> hosts \<Rightarrow> message_obj \<times> hosts" where
  "join_at n env x t hs =
     (let (i, w) = new_oid (hs x); (j, w1) = Join_new i (peer_ip t) (peer_port t) w
      in start_object n env x (MJoin j) w1 hs)"

definition stabilize_at :: "nat \<Rightarrow> Env \<Rightarrow> string \<times> string \<Rightarrow> hosts \<Rightarrow> message_obj \<times> hosts" where
  "stabilize_at n env x hs =
     (let (i, w) = new_oid ((hs x)\<lparr>w_stabilize_flag := True\<rparr>)
      in start_object n env x (MStabilize (Stabilize_new i (w_now w))) w hs)"

text \<open>What the ring is made of: who a node thinks it is, its predecessor and its successors.\<close>

definition view :: "world \<Rightarrow> Peer option \<times> Peer option \<times> Peer list" where
  "view w = (rt_self (w_table w), rt_predecessor (w_table w), rt_successor_list (w_table w))"

definition sound_ring :: "Peer set \<Rightarrow> hosts \<Rightarrow> bool" where
  "sound_ring N hs \<longleftrightarrow>
     finite N \<and> inj_on peer_id N \<and> inj_on address N \<and>
     (\<forall>u \<in> N. peer_id u \<noteq> '''' \<and>
        (\<exists>p s ss. view (hs (address u)) = (Some u, Some p, s # ss) \<and> length (s # ss) = succ_list_size \<and>
           p \<in> N \<and> set (s # ss) \<subseteq> N \<and>
           (\<forall>m \<in> N. \<not> between (peer_id u) (peer_id m) (peer_id s)) \<and>
           (\<forall>m \<in> N. \<not> between (peer_id p) (peer_id m) (peer_id u))))"

subsection \<open>Questions and answers\<close>

text \<open>The object \<open>i\<close> asks the node at \<open>u\<close> a question of type \<open>ty\<close> about \<open>ps\<close>; \<open>am\<close> answers \<open>m\<close> with \<open>qs\<close>.\<close>

definition asking :: "signal list \<Rightarrow> oid \<Rightarrow> Peer \<Rightarrow> string \<Rightarrow> Peer list \<Rightarrow> bool" where
  "asking sigs i u ty ps \<longleftrightarrow>
     (\<exists>r h m. sigs = [SigH r h] \<and> ro_connection r = ConnPeer (Some u) \<and> ro_message r = Some m \<and>
        is_request m \<and> get_request_type m = ty \<and> msg_peers m = ps \<and>
        ho_parent h = i \<and> ho_handler h = HandleResponse \<and> ho_correlation_id h = get_transaction_id m)"

definition answers :: "Message \<Rightarrow> Message \<Rightarrow> Peer list \<Rightarrow> bool" where
  "answers am m qs \<longleftrightarrow>
     get_correlational_id am = get_transaction_id m \<and> \<not> is_request am \<and> msg_peers am = qs"

lemma asking_SigH [simp]:
  "asking [SigH r h] i u ty ps \<longleftrightarrow>
     (\<exists>m. ro_connection r = ConnPeer (Some u) \<and> ro_message r = Some m \<and>
        is_request m \<and> get_request_type m = ty \<and> msg_peers m = ps \<and>
        ho_parent h = i \<and> ho_handler h = HandleResponse \<and> ho_correlation_id h = get_transaction_id m)"
  by (simp add: asking_def)

lemma conversation_asking:
  assumes a: "asking sigs i u ty ps"
    and b: "\<And>m. is_request m \<Longrightarrow> get_request_type m = ty \<Longrightarrow> msg_peers m = ps \<Longrightarrow>
      \<exists>am hs'. ask n env hs u m = (Some am, hs') \<and> Q hs' \<and> answers am m qs"
    and c: "\<And>am hs'. Q hs' \<Longrightarrow> msg_peers am = qs \<Longrightarrow> \<not> is_request am \<Longrightarrow>
      \<exists>ob' w' sigs'. obj_deliver env i (leaf_handle env HandleResponse (arrive am)) ob (hs' x) =
        Inr (ob', w', sigs') \<and> R hs' ob' w' sigs'"
  shows "\<exists>hs' ob' w' sigs'. Q hs' \<and> R hs' ob' w' sigs' \<and>
    conversation (Suc k) n env x ob sigs hs = conversation k n env x ob' sigs' (hs'(x := w'))"
proof -
  from a obtain r h m where s: "sigs = [SigH r h]" "ro_connection r = ConnPeer (Some u)" "ro_message r = Some m"
    "is_request m" "get_request_type m = ty" "msg_peers m = ps" "ho_parent h = i" "ho_handler h = HandleResponse"
    "ho_correlation_id h = get_transaction_id m"
    by (auto simp: asking_def)
  from b [OF s(4-6)] obtain am hs' where am: "ask n env hs u m = (Some am, hs')" "Q hs'" "answers am m qs" by blast
  have "msg_peers am = qs" "\<not> is_request am" using am(3) by (simp_all add: answers_def)
  from c [OF am(2) this] obtain ob' w' sigs' where
    "obj_deliver env i (leaf_handle env HandleResponse (arrive am)) ob (hs' x) = Inr (ob', w', sigs')"
    "R hs' ob' w' sigs'"
    by blast
  with s am show ?thesis
    by (intro exI [of _ hs'] exI [of _ ob'] exI [of _ w'] exI [of _ sigs']) (simp add: answers_def)
qed

text \<open>An unanswered question ends the conversation.\<close>

lemma conversation_unanswered:
  assumes "asking sigs i u ty ps"
    and "\<And>m. is_request m \<Longrightarrow> get_request_type m = ty \<Longrightarrow> msg_peers m = ps \<Longrightarrow>
      \<exists>hs'. ask n env hs u m = (None, hs') \<and> Q hs'"
  shows "\<exists>hs'. Q hs' \<and> conversation (Suc k) n env x ob sigs hs = (ob, hs')"
proof -
  from assms(1) obtain r h m where s: "sigs = [SigH r h]" "ro_connection r = ConnPeer (Some u)"
    "ro_message r = Some m" "is_request m" "get_request_type m = ty" "msg_peers m = ps"
    by (auto simp: asking_def)
  from assms(2) [OF s(4-6)] obtain hs' where "ask n env hs u m = (None, hs')" "Q hs'" by blast
  with s show ?thesis by auto
qed

lemma conversation_end [simp]: "conversation k n env x ob [SigNotify] hs = (ob, hs)"
  by (cases k) simp_all

subsection \<open>What a node answers\<close>

definition views :: "hosts \<Rightarrow> string \<times> string \<Rightarrow> Peer option \<times> Peer option \<times> Peer list" where
  "views hs y = view (hs y)"

lemma views_upd [simp]: "views (hs(x := w)) = (views hs)(x := view w)"
  by (auto simp: views_def)

lemma views_same: "view w = view (hs x) \<Longrightarrow> views (hs(x := w)) = views hs"
  by (auto simp: views_def)

lemma view_eq: "view w = (a, b, c) \<longleftrightarrow>
    rt_self (w_table w) = a \<and> rt_predecessor (w_table w) = b \<and> rt_successor_list (w_table w) = c"
  by (auto simp: view_def)

lemma arrive_sound [simp]: "ro_is_request (arrive m) = Inr (is_request m)"
  "ro_get_request_type (arrive m) = Inr (get_request_type m)"
  by (simp_all add: ro_is_request_def ro_get_request_type_def)

lemmas ask_simps =
  ask_def create_from_request_def new_oid_def lift_step_def run_message_def exchange_simps
  MessagingBase_new_request_def MessagingBase.defs answers_def fun_upd_same

lemma ask_query:
  assumes "is_request m" "get_request_type m = ''query''" "msg_peers m = [p]" "en_remote_ip env 0 = Some ip"
  shows "\<exists>am hs'. ask n env hs u m = (Some am, hs') \<and> views hs' = views hs \<and>
    answers am m [p\<lparr>peer_ip := ip, peer_id := generate_sha256_addr (en_sha env) ip (peer_port p)\<rparr>]"
  using assms
  by (simp add: ask_simps Query_new_request_def Query.defs qu_handle_request_def get_client_ip_def
      add_peer_def fun_upd_idem_iff views_def view_def)

lemma ask_successor_list:
  assumes "is_request m" "get_request_type m = ''get_successor_list''" "views hs (address u) = (s, p, l)"
  shows "\<exists>am hs'. ask n env hs u m = (Some am, hs') \<and> views hs' = views hs \<and> answers am m l"
  using assms
  by (simp add: ask_simps GetSuccessorList_new_request_def GetSuccessorList.defs sl_handle_request_def
      rt_get_peers_def fun_upd_idem_iff views_def view_def)

lemma ask_pred_list:
  assumes "is_request m" "get_request_type m = ''get_predecessor_and_succ_list''"
    "views hs (address u) = (s, Some p, l)"
  shows "\<exists>am hs'. ask n env hs u m = (Some am, hs') \<and> views hs' = views hs \<and> answers am m (p # l)"
  using assms
  by (simp add: ask_simps GetPredAndSuccList_new_request_def GetPredAndSuccList.defs ps_handle_request_def
      rt_get_peers_def fun_upd_idem_iff views_def view_def set_promise_def)

lemma ask_self_list:
  assumes "is_request m" "get_request_type m = ''get_self_and_successor_list''"
    "views hs (address u) = (Some s, p, l)"
  shows "\<exists>am hs'. ask n env hs u m = (Some am, hs') \<and> views hs' = views hs \<and> answers am m (s # l)"
  using assms
  by (simp add: ask_simps GetSelfAndSuccList_new_request_def GetSelfAndSuccList.defs ss_handle_request_def
      rt_get_peers_def fun_upd_idem_iff views_def view_def set_promise_def)

lemma ask_notify:
  assumes "is_request m" "get_request_type m = ''notify''" "msg_peers m = [q]"
    "views hs (address u) = (Some s, Some p, l)"
  shows "\<exists>am hs'. ask n env hs u m = (Some am, hs') \<and>
    views hs' = (views hs)(address u := (Some s, Some (rectify (peer_id s) p q), l)) \<and> answers am m []"
  using assms
  by (simp add: ask_simps Notification_new_request_def Notification.defs no_handle_request_def
      has_predecessor_def rectify_def fun_upd_idem_iff views_def view_def)

lemma ask_notify_first:
  assumes "is_request m" "get_request_type m = ''notify''" "msg_peers m = [q]"
    "views hs (address u) = (Some s, None, l)"
  shows "\<exists>hs'. ask n env hs u m = (None, hs') \<and> views hs' = (views hs)(address u := (Some s, Some q, l))"
  using assms
  by (simp add: ask_simps Notification_new_request_def Notification.defs no_handle_request_def
      has_predecessor_def fun_upd_idem_iff views_def view_def)

subsection \<open>The join\<close>

lemmas deliver_simps =
  find_child_def view_eq join_step_simps

lemma join_starts:
  assumes "Join_new i a p w0 = (j, w)" "rt_self (w_table w0) = Some me"
  shows "\<exists>j' q w' sigs. obj_run env (MJoin j) w = Inr (MJoin j', w', sigs) \<and> view w' = view w0 \<and>
    jo_target j' = Peer_new '''' a p \<and> jo_deps j' = [(LQuery q, True)] \<and> qu_promise q = Awaitable_new \<and>
    asking sigs (mb_oid q) (Peer_new '''' a p) ''query'' [me]"
  using assms
  by (auto simp: Join_new_def new_oid_def run_message_def MessagingBase.defs MessagingBase_new_def Join.defs
      join_create_request_def run_child_def Query_new_def Query.defs qu_create_request_def send_with_handler_eq
      lift_step_def Let_def split_def view_def get_request_type_def is_request_def)

lemma join_asks_successor:
  assumes "jo_deps j = [(LQuery q, True)]" "qu_promise q = Awaitable_new" "msg_peers m = [self]" "view w = (s, p, l)"
  shows "\<exists>ob' w' sigs. obj_deliver env (mb_oid q) (leaf_handle env HandleResponse (arrive m)) (MJoin j) w =
      Inr (ob', w', sigs) \<and>
    (\<exists>j' fs. ob' = MJoin j' \<and> jo_deps j' = [(LFindSuccessor fs, True)] \<and> fs_promise fs = Awaitable_new \<and>
      jo_target j' = jo_target j \<and> view w' = (Some self, p, l) \<and>
      asking sigs (mb_oid fs) (jo_target j) ''find_successor'' [Peer_new (peer_id self) '''' ''''])"
  using assms
  by (simp add: deliver_simps qu_handle_response_def handle_query_notify_def FindSuccessor_new_target_def
      FindSuccessor.defs fs_create_request_def is_request_def)

lemma join_asks_list:
  assumes "jo_deps j = [(LFindSuccessor fs, True)]" "fs_promise fs = Awaitable_new" "msg_peers m = [t]" "view w = (s, p, l)"
  shows "\<exists>ob' w' sigs. obj_deliver env (mb_oid fs) (leaf_handle env HandleResponse (arrive m)) (MJoin j) w =
      Inr (ob', w', sigs) \<and>
    (\<exists>j' sl. ob' = MJoin j' \<and> jo_deps j' = [(LGetSuccessorList sl, True)] \<and> sl_promise sl = Awaitable_new \<and>
      view w' = (s, p, t # tl l) \<and> asking sigs (mb_oid sl) t ''get_successor_list'' [])"
  using assms
  by (simp add: deliver_simps fs_handle_response_def handle_find_successor_notify_def
      GetSuccessorList_new_def GetSuccessorList.defs sl_create_request_def is_request_def)

lemma join_ends:
  assumes "jo_deps j = [(LGetSuccessorList sl, True)]" "sl_promise sl = Awaitable_new" "view w = (s, p, t # l)"
  shows "\<exists>ob' w' sigs. obj_deliver env (mb_oid sl) (leaf_handle env HandleResponse (arrive m)) (MJoin j) w =
      Inr (ob', w', sigs) \<and> sigs = [SigNotify] \<and>
    view w' = (s, p, resize succ_list_size Peer_empty (t # msg_peers m @ l))"
  using assms
  by (simp add: deliver_simps sl_handle_response_def handle_get_successor_list_notify_def
      replace_after_successor_def)

subsection \<open>The stabilization\<close>

lemma stabilize_starts:
  assumes "view w = (s, p, t # l)"
  shows "\<exists>sb ps w' sigs. obj_run env (MStabilize (Stabilize_new i now)) w = Inr (MStabilize sb, w', sigs) \<and>
    view w' = view w \<and> sb_has_flag sb \<and> sb_deps sb = [(LGetPredAndSuccList ps, True)] \<and>
    ps_promise ps = Awaitable_new \<and> asking sigs (mb_oid ps) t ''get_predecessor_and_succ_list'' []"
  using assms
  by (simp add: Stabilize_new_def MessagingBase.defs MessagingBase_new_def Stabilize.defs run_message_def
      sb_create_request_def new_oid_def sb_start_child_def run_child_def GetPredAndSuccList_new_def
      GetPredAndSuccList.defs ps_create_request_def send_with_handler_eq lift_step_def Let_def split_def
      view_def get_request_type_def is_request_def)

lemmas sb_deliver_simps =
  find_child_def view_eq sb_child_def set_child_def leaf_oid_def leaf_is_done_def leaf_state_def
  sb_on_signal_def sb_notify_def future_get_def MessagingBase.truncate_def lift_step_def split_def Let_def
  finish_as_def RequestDestruction_def

lemma sb_asks_between:
  assumes "sb_deps sb = (LGetPredAndSuccList ps, e) # ds" "ps_promise ps = Awaitable_new" "\<not> is_request m"
    "msg_peers m = q # l'" "l' \<noteq> []" "view w = (Some me, p, t # l)" "between (peer_id me) (peer_id q) (peer_id t)"
    "sb_has_flag sb"
  shows "\<exists>ob' w' sigs. obj_deliver env (mb_oid ps) (leaf_handle env HandleResponse (arrive m)) (MStabilize sb) w =
      Inr (ob', w', sigs) \<and>
    (\<exists>sb' ss ds'. ob' = MStabilize sb' \<and> sb_deps sb' = (LGetSelfAndSuccList ss, True) # ds' \<and>
      ss_promise ss = Awaitable_new \<and> sb_has_flag sb' \<and>
      view w' = (Some me, p, resize succ_list_size Peer_empty (t # l')) \<and>
      asking sigs (mb_oid ss) q ''get_self_and_successor_list'' [])"
  using assms
  by (simp add: sb_deliver_simps ps_handle_response_def handle_get_pred_and_succ_list_notify_def set_promise_def
      sb_start_child_def run_child_def new_oid_def run_message_def GetSelfAndSuccList_new_def
      MessagingBase_new_def MessagingBase.defs GetSelfAndSuccList.defs ss_create_request_def
      send_with_handler_eq get_request_type_def is_request_def)

lemma sb_notifies:
  assumes "sb_deps sb = (LGetPredAndSuccList ps, e) # ds" "ps_promise ps = Awaitable_new" "\<not> is_request m"
    "msg_peers m = q # l'" "l' \<noteq> []" "view w = (Some me, p, t # l)" "\<not> between (peer_id me) (peer_id q) (peer_id t)"
    "sb_has_flag sb" "peer_id me \<noteq> ''''"
  shows "\<exists>ob' w' sigs. obj_deliver env (mb_oid ps) (leaf_handle env HandleResponse (arrive m)) (MStabilize sb) w =
      Inr (ob', w', sigs) \<and>
    (\<exists>sb' no ds'. ob' = MStabilize sb' \<and> sb_deps sb' = (LNotification no, True) # ds' \<and>
      view w' = (Some me, p, resize succ_list_size Peer_empty (t # l')) \<and>
      asking sigs (mb_oid no) t ''notify'' [me])"
  using assms
  by (simp add: sb_deliver_simps ps_handle_response_def handle_get_pred_and_succ_list_notify_def set_promise_def
      create_notification_def sb_start_child_def run_child_def new_oid_def run_message_def Notification_new_def
      MessagingBase_new_def MessagingBase.defs Notification.defs no_create_request_def sb_clear_flag_def
      send_with_handler_eq get_request_type_def is_request_def succ_list_size_def resize_def)

lemma sb_takes_list:
  assumes "sb_deps sb = (LGetSelfAndSuccList ss, e) # ds" "ss_promise ss = Awaitable_new" "\<not> is_request m"
    "msg_peers m = q # l'" "view w = (Some me, p, l)" "sb_has_flag sb" "peer_id me \<noteq> ''''"
  shows "\<exists>ob' w' sigs. obj_deliver env (mb_oid ss) (leaf_handle env HandleResponse (arrive m)) (MStabilize sb) w =
      Inr (ob', w', sigs) \<and>
    (\<exists>sb' no ds'. ob' = MStabilize sb' \<and> sb_deps sb' = (LNotification no, True) # ds' \<and>
      view w' = (Some me, p, resize succ_list_size Peer_empty (q # l')) \<and>
      asking sigs (mb_oid no) q ''notify'' [me])"
  using assms
  by (simp add: sb_deliver_simps ss_handle_response_def handle_get_self_and_succ_list_notify_def set_promise_def
      create_notification_def sb_start_child_def run_child_def new_oid_def run_message_def Notification_new_def
      MessagingBase_new_def MessagingBase.defs Notification.defs no_create_request_def sb_clear_flag_def
      send_with_handler_eq get_request_type_def is_request_def succ_list_size_def resize_def)

lemma sb_ends:
  assumes "sb_deps sb = (LNotification no, e) # ds"
  shows "\<exists>ob' w' sigs. obj_deliver env (mb_oid no) (leaf_handle env HandleResponse (arrive m)) (MStabilize sb) w =
      Inr (ob', w', sigs) \<and> sigs = [SigNotify] \<and> view w' = view w"
  using assms
  by (simp add: sb_deliver_simps no_handle_response_def handle_notification_notify_def)

lemma stabilize_begins:
  assumes "views hs x = (Some me, p, t # l)"
  obtains sb ps hs1 sigs where "views hs1 = views hs" "sb_has_flag sb"
    "sb_deps sb = [(LGetPredAndSuccList ps, True)]" "ps_promise ps = Awaitable_new"
    "asking sigs (mb_oid ps) t ''get_predecessor_and_succ_list'' []"
    "stabilize_at n env x hs = conversation 3 n env x (MStabilize sb) sigs hs1"
proof -
  let ?w = "(hs x)\<lparr>w_stabilize_flag := True, w_next_oid := Suc (w_next_oid (hs x))\<rparr>"
  let ?s = "Stabilize_new (w_next_oid (hs x)) (w_now (hs x))"
  have v: "view ?w = (Some me, p, t # l)" using assms by (simp add: views_def view_def)
  from stabilize_starts [OF v, of env "w_next_oid (hs x)" "w_now (hs x)"] obtain sb ps w1 sigs where
    s: "obj_run env (MStabilize ?s) ?w = Inr (MStabilize sb, w1, sigs)" "view w1 = view ?w" "sb_has_flag sb"
      "sb_deps sb = [(LGetPredAndSuccList ps, True)]" "ps_promise ps = Awaitable_new"
      "asking sigs (mb_oid ps) t ''get_predecessor_and_succ_list'' []"
    by blast
  have "views (hs(x := w1)) = views hs" using s(2) v assms by (auto simp: fun_upd_idem_iff)
  moreover have "stabilize_at n env x hs = conversation 3 n env x (MStabilize sb) sigs (hs(x := w1))"
    using s(1) by (simp add: stabilize_at_def start_object_def new_oid_def)
  ultimately show ?thesis using that s by blast
qed

text \<open>The rounds. The first successor has no predecessor between: it is notified and takes note.\<close>

lemma stabilize_notifies:
  assumes "views hs x = (Some me, p, t # l)" "peer_id me \<noteq> ''''" "x \<noteq> address t"
    "views hs (address t) = (Some t, Some q, l')" "l' \<noteq> []"
    "\<not> between (peer_id me) (peer_id q) (peer_id t)"
  shows "\<exists>ob hs'. stabilize_at n env x hs = (ob, hs') \<and>
    views hs' = (views hs)(x := (Some me, p, resize succ_list_size Peer_empty (t # l')),
      address t := (Some t, Some (rectify (peer_id t) q me), l'))"
proof -
  obtain sb ps hs1 sigs where s: "views hs1 = views hs" "sb_has_flag sb"
      "sb_deps sb = [(LGetPredAndSuccList ps, True)]" "ps_promise ps = Awaitable_new"
      "asking sigs (mb_oid ps) t ''get_predecessor_and_succ_list'' []"
    and run: "stabilize_at n env x hs = conversation 3 n env x (MStabilize sb) sigs hs1"
    by (rule stabilize_begins [OF assms(1)])
  let ?R = "\<lambda>hs' ob' w' sigs'. \<exists>sb' no ds'. ob' = MStabilize sb' \<and> sb_deps sb' = (LNotification no, True) # ds' \<and>
      view w' = (Some me, p, resize succ_list_size Peer_empty (t # l')) \<and> asking sigs' (mb_oid no) t ''notify'' [me]"
  have "\<exists>hs' ob' w' sigs'. views hs' = views hs \<and> ?R hs' ob' w' sigs' \<and>
    conversation 3 n env x (MStabilize sb) sigs hs1 = conversation 2 n env x ob' sigs' (hs'(x := w'))"
    unfolding eval_nat_numeral(3)
  proof (rule conversation_asking [OF s(5)])
    show "\<exists>am hs'. ask n env hs1 t m = (Some am, hs') \<and> views hs' = views hs \<and> answers am m (q # l')"
      if "is_request m" "get_request_type m = ''get_predecessor_and_succ_list''" for m
      using ask_pred_list [OF that, of hs1 t "Some t" q l' n env] assms(4) unfolding s(1) by blast
    show "\<exists>ob' w' sigs'. obj_deliver env (mb_oid ps) (leaf_handle env HandleResponse (arrive am)) (MStabilize sb) (hs' x) =
        Inr (ob', w', sigs') \<and> ?R hs' ob' w' sigs'"
      if "views hs' = views hs" "msg_peers am = q # l'" "\<not> is_request am" for am hs'
    proof -
      have "view (hs' x) = (Some me, p, t # l)" using fun_cong [OF that(1), of x] assms(1) by (simp add: views_def)
      from sb_notifies [OF s(3,4) that(3,2) assms(5) this assms(6) s(2) assms(2)] show ?thesis .
    qed
  qed
  then obtain hs2 sb' no ds' w2 sigs2 where 2: "views hs2 = views hs" "sb_deps sb' = (LNotification no, True) # ds'"
    "view w2 = (Some me, p, resize succ_list_size Peer_empty (t # l'))" "asking sigs2 (mb_oid no) t ''notify'' [me]"
    "stabilize_at n env x hs = conversation 2 n env x (MStabilize sb') sigs2 (hs2(x := w2))"
    unfolding run by blast
  let ?hs3 = "hs2(x := w2)"
  let ?V = "(views hs)(x := (Some me, p, resize succ_list_size Peer_empty (t # l')),
      address t := (Some t, Some (rectify (peer_id t) q me), l'))"
  have "\<exists>hs' ob' w' sigs'. views hs' = ?V \<and> (sigs' = [SigNotify] \<and> view w' = view (hs' x)) \<and>
    conversation 2 n env x (MStabilize sb') sigs2 ?hs3 = conversation 1 n env x ob' sigs' (hs'(x := w'))"
    unfolding numeral_2_eq_2 One_nat_def
  proof (rule conversation_asking [OF 2(4)])
    show "\<exists>am hs'. ask n env ?hs3 t m = (Some am, hs') \<and> views hs' = ?V \<and> answers am m []"
      if "is_request m" "get_request_type m = ''notify''" "msg_peers m = [me]" for m
      using ask_notify [OF that, of ?hs3 t t q l'] 2(1,3) assms(3,4) by (simp add: fun_upd_twist)
    show "\<exists>ob' w' sigs'. obj_deliver env (mb_oid no) (leaf_handle env HandleResponse (arrive am)) (MStabilize sb') (hs' x) =
        Inr (ob', w', sigs') \<and> sigs' = [SigNotify] \<and> view w' = view (hs' x)" for am hs'
      by (rule sb_ends [OF 2(2)])
  qed
  then obtain hs4 ob4 w4 where 4: "views hs4 = ?V" "view w4 = view (hs4 x)"
    "stabilize_at n env x hs = (ob4, hs4(x := w4))"
    unfolding 2(5) by auto
  have "views (hs4(x := w4)) = ?V" using views_same [of w4 hs4 x, OF 4(2)] 4(1) by (rule trans)
  with 4(3) show ?thesis by blast
qed

text \<open>Or the predecessor of the first successor has come between: it becomes the first successor and is
  notified. As it had no predecessor, it adopts the notifying node and does not answer.\<close>

lemma stabilize_adopts:
  assumes "views hs x = (Some me, p, t # l)" "peer_id me \<noteq> ''''"
    "views hs (address t) = (Some t, Some q, l')" "l' \<noteq> []"
    "between (peer_id me) (peer_id q) (peer_id t)" "x \<noteq> address q" "views hs (address q) = (Some q, None, lq)"
  shows "\<exists>ob hs'. stabilize_at n env x hs = (ob, hs') \<and>
    views hs' = (views hs)(x := (Some me, p, resize succ_list_size Peer_empty (q # lq)),
      address q := (Some q, Some me, lq))"
proof -
  obtain sb ps hs1 sigs where s: "views hs1 = views hs" "sb_has_flag sb"
      "sb_deps sb = [(LGetPredAndSuccList ps, True)]" "ps_promise ps = Awaitable_new"
      "asking sigs (mb_oid ps) t ''get_predecessor_and_succ_list'' []"
    and run: "stabilize_at n env x hs = conversation 3 n env x (MStabilize sb) sigs hs1"
    by (rule stabilize_begins [OF assms(1)])
  let ?v1 = "(Some me, p, resize succ_list_size Peer_empty (t # l'))"
  let ?R = "\<lambda>hs' ob' w' sigs'. \<exists>sb' ss ds'. ob' = MStabilize sb' \<and> sb_deps sb' = (LGetSelfAndSuccList ss, True) # ds' \<and>
      ss_promise ss = Awaitable_new \<and> sb_has_flag sb' \<and> view w' = ?v1 \<and>
      asking sigs' (mb_oid ss) q ''get_self_and_successor_list'' []"
  have "\<exists>hs' ob' w' sigs'. views hs' = views hs \<and> ?R hs' ob' w' sigs' \<and>
    conversation 3 n env x (MStabilize sb) sigs hs1 = conversation 2 n env x ob' sigs' (hs'(x := w'))"
    unfolding eval_nat_numeral(3)
  proof (rule conversation_asking [OF s(5)])
    show "\<exists>am hs'. ask n env hs1 t m = (Some am, hs') \<and> views hs' = views hs \<and> answers am m (q # l')"
      if "is_request m" "get_request_type m = ''get_predecessor_and_succ_list''" for m
      using ask_pred_list [OF that, of hs1 t "Some t" q l' n env] assms(3) unfolding s(1) by blast
    show "\<exists>ob' w' sigs'. obj_deliver env (mb_oid ps) (leaf_handle env HandleResponse (arrive am)) (MStabilize sb) (hs' x) =
        Inr (ob', w', sigs') \<and> ?R hs' ob' w' sigs'"
      if "views hs' = views hs" "msg_peers am = q # l'" "\<not> is_request am" for am hs'
    proof -
      have "view (hs' x) = (Some me, p, t # l)" using fun_cong [OF that(1), of x] assms(1) by (simp add: views_def)
      from sb_asks_between [OF s(3,4) that(3,2) assms(4) this assms(5) s(2)] show ?thesis .
    qed
  qed
  then obtain hs2 sb' ss ds' w2 sigs2 where 2: "views hs2 = views hs" "sb_deps sb' = (LGetSelfAndSuccList ss, True) # ds'"
    "ss_promise ss = Awaitable_new" "sb_has_flag sb'" "view w2 = ?v1"
    "asking sigs2 (mb_oid ss) q ''get_self_and_successor_list'' []"
    "stabilize_at n env x hs = conversation 2 n env x (MStabilize sb') sigs2 (hs2(x := w2))"
    unfolding run by blast
  let ?hs3 = "hs2(x := w2)"
  have V3: "views ?hs3 = (views hs)(x := ?v1)" by (simp add: 2)
  let ?v2 = "(Some me, p, resize succ_list_size Peer_empty (q # lq))"
  let ?R2 = "\<lambda>hs' ob' w' sigs'. \<exists>sb'' no ds''. ob' = MStabilize sb'' \<and> sb_deps sb'' = (LNotification no, True) # ds'' \<and>
      view w' = ?v2 \<and> asking sigs' (mb_oid no) q ''notify'' [me]"
  have "\<exists>hs' ob' w' sigs'. views hs' = (views hs)(x := ?v1) \<and> ?R2 hs' ob' w' sigs' \<and>
    conversation 2 n env x (MStabilize sb') sigs2 ?hs3 = conversation 1 n env x ob' sigs' (hs'(x := w'))"
    unfolding numeral_2_eq_2 One_nat_def
  proof (rule conversation_asking [OF 2(6)])
    show "\<exists>am hs'. ask n env ?hs3 q m = (Some am, hs') \<and> views hs' = (views hs)(x := ?v1) \<and> answers am m (q # lq)"
      if "is_request m" "get_request_type m = ''get_self_and_successor_list''" for m
      using ask_self_list [OF that, of ?hs3 q q None lq n env] assms(6,7) unfolding V3 by simp
    show "\<exists>ob' w' sigs'. obj_deliver env (mb_oid ss) (leaf_handle env HandleResponse (arrive am)) (MStabilize sb') (hs' x) =
        Inr (ob', w', sigs') \<and> ?R2 hs' ob' w' sigs'"
      if "views hs' = (views hs)(x := ?v1)" "msg_peers am = q # lq" "\<not> is_request am" for am hs'
    proof -
      have "view (hs' x) = ?v1" using fun_cong [OF that(1), of x] by (simp add: views_def)
      from sb_takes_list [OF 2(2,3) that(3,2) this 2(4) assms(2)] show ?thesis .
    qed
  qed
  then obtain hs4 ob4 w4 sigs4 where a: "views hs4 = (views hs)(x := ?v1)" "?R2 hs4 ob4 w4 sigs4"
    "conversation 2 n env x (MStabilize sb') sigs2 ?hs3 = conversation 1 n env x ob4 sigs4 (hs4(x := w4))"
    by (elim exE conjE) (rule that, assumption+, blast, assumption)
  from a(2) obtain no :: Notification where 4: "view w4 = ?v2" "asking sigs4 (mb_oid no) q ''notify'' [me]"
    by (elim exE conjE)
  let ?V = "(views hs)(x := ?v2, address q := (Some q, Some me, lq))"
  have V5: "views (hs4(x := w4)) = (views hs)(x := ?v2)" by (simp add: a(1) 4(1))
  have "\<exists>hs'. views hs' = ?V \<and> conversation 1 n env x ob4 sigs4 (hs4(x := w4)) = (ob4, hs')"
    unfolding One_nat_def
  proof (rule conversation_unanswered [OF 4(2)])
    show "\<exists>hs'. ask n env (hs4(x := w4)) q m = (None, hs') \<and> views hs' = ?V"
      if "is_request m" "get_request_type m = ''notify''" "msg_peers m = [me]" for m
      using ask_notify_first [OF that, of "hs4(x := w4)" q q lq n env] assms(6,7) unfolding V5 by simp
  qed
  then show ?thesis unfolding 2(7) a(3) by blast
qed

subsection \<open>The new node finds its place\<close>

lemma sound_ringE:
  assumes "sound_ring N hs" "u \<in> N"
  obtains p s ss where "views hs (address u) = (Some u, Some p, s # ss)" "length (s # ss) = succ_list_size"
    "p \<in> N" "s \<in> N" "set ss \<subseteq> N" "\<forall>m \<in> N. \<not> between (peer_id u) (peer_id m) (peer_id s)"
    "\<forall>m \<in> N. \<not> between (peer_id p) (peer_id m) (peer_id u)" "peer_id u \<noteq> ''''"
proof -
  from assms(1) have "\<forall>u \<in> N. peer_id u \<noteq> '''' \<and>
      (\<exists>p s ss. view (hs (address u)) = (Some u, Some p, s # ss) \<and> length (s # ss) = succ_list_size \<and>
         p \<in> N \<and> set (s # ss) \<subseteq> N \<and>
         (\<forall>m \<in> N. \<not> between (peer_id u) (peer_id m) (peer_id s)) \<and>
         (\<forall>m \<in> N. \<not> between (peer_id p) (peer_id m) (peer_id u)))"
    unfolding sound_ring_def by (elim conjE)
  from bspec [OF this assms(2)] obtain p s ss where "view (hs (address u)) = (Some u, Some p, s # ss)"
    "length (s # ss) = succ_list_size" "p \<in> N" "set (s # ss) \<subseteq> N"
    "\<forall>m \<in> N. \<not> between (peer_id u) (peer_id m) (peer_id s)"
    "\<forall>m \<in> N. \<not> between (peer_id p) (peer_id m) (peer_id u)" "peer_id u \<noteq> ''''"
    by (elim conjE exE)
  with that show ?thesis by (simp add: views_def)
qed

lemma sound_ring_stable:
  assumes "sound_ring N hs"
  shows "stable_ring N (hs \<circ> address)"
proof -
  have "ring_table N u (w_table ((hs \<circ> address) u))" if u: "u \<in> N" for u
  proof -
    obtain p s ss where "views hs (address u) = (Some u, Some p, s # ss)" "s \<in> N" "set ss \<subseteq> N"
      "\<forall>m \<in> N. \<not> between (peer_id u) (peer_id m) (peer_id s)"
      by (rule sound_ringE [OF assms u])
    then show ?thesis by (simp add: ring_table_def views_def view_eq)
  qed
  with assms show ?thesis by (simp add: sound_ring_def stable_ring_def)
qed

lemma sound_ring_views: "sound_ring N hs \<Longrightarrow> \<forall>u \<in> N. views hs' (address u) = views hs (address u) \<Longrightarrow> sound_ring N hs'"
  by (simp add: sound_ring_def views_def)

text \<open>Where a lookup is sent is a matter of the address alone.\<close>

lemma network_lookup_address:
  "address u = address t \<Longrightarrow> network_lookup n env (hs \<circ> address) m u = network_lookup n env (hs \<circ> address) m t"
  by (cases n) simp_all

lemma ask_successor:
  assumes ring: "sound_ring N hs" and t: "t \<in> N" "address u = address t" and n: "card N \<le> n"
    and s: "s \<in> N" "owns_id (peer_id ` N) (peer_id q) (peer_id s)"
    and m: "get_request_type m = ''find_successor''" "msg_peers m = [q]"
  shows "\<exists>am hs'. ask n env hs u m = (Some am, hs') \<and> views hs' = views hs \<and> answers am m [s]"
proof -
  from ring_lookup_owner [OF sound_ring_stable [OF ring] t(1) m(2) n, of env] obtain rm owner where
    l: "network_lookup n env (hs \<circ> address) m t = Some rm" "msg_peers rm = [owner]" "owner \<in> N"
      "owns_id (peer_id ` N) (peer_id q) (peer_id owner)" "\<not> is_request rm" "get_correlational_id rm = get_transaction_id m"
    by blast
  have "peer_id owner = peer_id s" by (rule owns_id_unique [OF l(4) s(2)])
  moreover have "inj_on peer_id N" using ring by (simp add: sound_ring_def)
  ultimately have "owner = s" using l(3) s(1) by (simp add: inj_on_def)
  with l m(1) network_lookup_address [OF t(2)] show ?thesis by (simp add: ask_def answers_def)
qed

lemma join_finds_place:
  assumes ring: "sound_ring N hs" and t: "t \<in> N" and n: "card N \<le> n"
    and x: "x \<notin> address ` N" "views hs x = (Some me, p0, l0)" and ip: "en_remote_ip env 0 = Some ip"
    and v: "v = me\<lparr>peer_ip := ip, peer_id := generate_sha256_addr (en_sha env) ip (peer_port me)\<rparr>"
    and s: "s \<in> N" "owns_id (peer_id ` N) (peer_id v) (peer_id s)" "views hs (address s) = (Some s, q, ls)"
  shows "\<exists>ob hs'. join_at n env x t hs = (ob, hs') \<and>
    views hs' = (views hs)(x := (Some v, p0, resize succ_list_size Peer_empty (s # ls @ tl l0)))"
proof -
  let ?c = "Peer_new '''' (peer_ip t) (peer_port t)" and ?V = "\<lambda>a. (views hs)(x := a)"
  have c: "address ?c = address t" by (simp add: address_def Peer_new_def)
  have tx: "address t \<noteq> x" "address s \<noteq> x" using x(1) t s(1) by auto
  have ring_at: "sound_ring N hs'" if "views hs' = ?V a" for hs' a
    by (rule sound_ring_views [OF ring]) (use that x(1) in auto)
  let ?w0 = "(hs x)\<lparr>w_next_oid := Suc (w_next_oid (hs x))\<rparr>"
  obtain j w where j: "Join_new (w_next_oid (hs x)) (peer_ip t) (peer_port t) ?w0 = (j, w)"
    by (cases "Join_new (w_next_oid (hs x)) (peer_ip t) (peer_port t) ?w0")
  have self: "rt_self (w_table ?w0) = Some me" using x(2) by (simp add: views_def view_eq)
  from join_starts [OF j self, of env] obtain j1 q1 w1 sigs where
    1: "obj_run env (MJoin j) w = Inr (MJoin j1, w1, sigs)" "view w1 = view ?w0" "jo_target j1 = ?c"
      "jo_deps j1 = [(LQuery q1, True)]" "qu_promise q1 = Awaitable_new" "asking sigs (mb_oid q1) ?c ''query'' [me]"
    by blast
  let ?hs1 = "hs(x := w1)"
  have V1: "views ?hs1 = ?V (Some me, p0, l0)" using 1(2) x(2) by (auto simp: views_def view_def)
  have run: "join_at n env x t hs = conversation 3 n env x (MJoin j1) sigs ?hs1"
    using j 1(1) by (simp add: join_at_def start_object_def new_oid_def)
  let ?R1 = "\<lambda>hs' ob' w' sigs'. \<exists>j' fs. ob' = MJoin j' \<and> jo_deps j' = [(LFindSuccessor fs, True)] \<and>
    fs_promise fs = Awaitable_new \<and> jo_target j' = jo_target j1 \<and> view w' = (Some v, p0, l0) \<and>
    asking sigs' (mb_oid fs) (jo_target j1) ''find_successor'' [Peer_new (peer_id v) '''' '''']"
  have "\<exists>hs' ob' w' sigs'. views hs' = ?V (Some me, p0, l0) \<and> ?R1 hs' ob' w' sigs' \<and>
    conversation 3 n env x (MJoin j1) sigs ?hs1 = conversation 2 n env x ob' sigs' (hs'(x := w'))"
    unfolding eval_nat_numeral(3)
  proof (rule conversation_asking [OF 1(6)])
    show "\<exists>am hs'. ask n env ?hs1 ?c m = (Some am, hs') \<and> views hs' = ?V (Some me, p0, l0) \<and> answers am m [v]"
      if "is_request m" "get_request_type m = ''query''" "msg_peers m = [me]" for m
      using ask_query [OF that ip, of n ?hs1 ?c] unfolding V1 v .
    show "\<exists>ob' w' sigs'. obj_deliver env (mb_oid q1) (leaf_handle env HandleResponse (arrive am)) (MJoin j1) (hs' x) =
        Inr (ob', w', sigs') \<and> ?R1 hs' ob' w' sigs'"
      if "views hs' = ?V (Some me, p0, l0)" "msg_peers am = [v]" for am hs'
    proof -
      have "view (hs' x) = (Some me, p0, l0)" using fun_cong [OF that(1), of x] by (simp add: views_def)
      from join_asks_successor [OF 1(4,5) that(2) this] show ?thesis .
    qed
  qed
  then obtain hs2 ob2 w2 sigs2 where a: "views hs2 = ?V (Some me, p0, l0)" "?R1 hs2 ob2 w2 sigs2"
    "conversation 3 n env x (MJoin j1) sigs ?hs1 = conversation 2 n env x ob2 sigs2 (hs2(x := w2))"
    by (elim exE conjE) (rule that, assumption+, blast, assumption)
  from a(2) obtain j2 :: Join and fs :: FindSuccessor where 2: "ob2 = MJoin j2" "jo_deps j2 = [(LFindSuccessor fs, True)]" "fs_promise fs = Awaitable_new"
    "view w2 = (Some v, p0, l0)" "asking sigs2 (mb_oid fs) ?c ''find_successor'' [Peer_new (peer_id v) '''' '''']"
    unfolding 1(3) by blast
  let ?hs3 = "hs2(x := w2)"
  have V3: "views ?hs3 = ?V (Some v, p0, l0)" by (simp add: a(1) 2(4))
  let ?R2 = "\<lambda>hs' ob' w' sigs'. \<exists>j' sl. ob' = MJoin j' \<and> jo_deps j' = [(LGetSuccessorList sl, True)] \<and>
    sl_promise sl = Awaitable_new \<and> view w' = (Some v, p0, s # tl l0) \<and> asking sigs' (mb_oid sl) s ''get_successor_list'' []"
  have "\<exists>hs' ob' w' sigs'. views hs' = ?V (Some v, p0, l0) \<and> ?R2 hs' ob' w' sigs' \<and>
    conversation 2 n env x ob2 sigs2 ?hs3 = conversation 1 n env x ob' sigs' (hs'(x := w'))"
    unfolding numeral_2_eq_2 One_nat_def
  proof (rule conversation_asking [OF 2(5)])
    show "\<exists>am hs'. ask n env ?hs3 ?c m = (Some am, hs') \<and> views hs' = ?V (Some v, p0, l0) \<and> answers am m [s]"
      if "get_request_type m = ''find_successor''" "msg_peers m = [Peer_new (peer_id v) '''' '''']" for m
      using ask_successor [OF ring_at [OF V3] t c n s(1) _ that, of env] s(2) unfolding V3 by (simp add: Peer_new_def)
    show "\<exists>ob' w' sigs'. obj_deliver env (mb_oid fs) (leaf_handle env HandleResponse (arrive am)) ob2 (hs' x) =
        Inr (ob', w', sigs') \<and> ?R2 hs' ob' w' sigs'"
      if "views hs' = ?V (Some v, p0, l0)" "msg_peers am = [s]" for am hs'
    proof -
      have "view (hs' x) = (Some v, p0, l0)" using fun_cong [OF that(1), of x] by (simp add: views_def)
      from join_asks_list [OF 2(2,3) that(2) this] show ?thesis unfolding 2(1) .
    qed
  qed
  then obtain hs4 ob4 w4 sigs4 where b: "views hs4 = ?V (Some v, p0, l0)" "?R2 hs4 ob4 w4 sigs4"
    "conversation 2 n env x ob2 sigs2 ?hs3 = conversation 1 n env x ob4 sigs4 (hs4(x := w4))"
    by (elim exE conjE) (rule that, assumption+, blast, assumption)
  from b(2) obtain j4 :: Join and sl :: GetSuccessorList where 4: "ob4 = MJoin j4" "jo_deps j4 = [(LGetSuccessorList sl, True)]" "sl_promise sl = Awaitable_new"
    "view w4 = (Some v, p0, s # tl l0)" "asking sigs4 (mb_oid sl) s ''get_successor_list'' []"
    by blast
  let ?hs5 = "hs4(x := w4)"
  have V5: "views ?hs5 = ?V (Some v, p0, s # tl l0)" by (simp add: b(1) 4(4))
  let ?a = "(Some v, p0, resize succ_list_size Peer_empty (s # ls @ tl l0))"
  have "\<exists>hs' ob' w' sigs'. views hs' = ?V (Some v, p0, s # tl l0) \<and> (sigs' = [SigNotify] \<and> view w' = ?a) \<and>
    conversation 1 n env x ob4 sigs4 ?hs5 = conversation 0 n env x ob' sigs' (hs'(x := w'))"
    unfolding One_nat_def
  proof (rule conversation_asking [OF 4(5)])
    show "\<exists>am hs'. ask n env ?hs5 s m = (Some am, hs') \<and> views hs' = ?V (Some v, p0, s # tl l0) \<and> answers am m ls"
      if "is_request m" "get_request_type m = ''get_successor_list''" for m
      using ask_successor_list [OF that, of ?hs5 s "Some s" q ls n env] s(3) tx(2) unfolding V5 by simp
    show "\<exists>ob' w' sigs'. obj_deliver env (mb_oid sl) (leaf_handle env HandleResponse (arrive am)) ob4 (hs' x) =
        Inr (ob', w', sigs') \<and> sigs' = [SigNotify] \<and> view w' = ?a"
      if "views hs' = ?V (Some v, p0, s # tl l0)" "msg_peers am = ls" for am hs'
    proof -
      have "view (hs' x) = (Some v, p0, s # tl l0)" using fun_cong [OF that(1), of x] by (simp add: views_def)
      from join_ends [OF 4(2,3) this, of env am] show ?thesis unfolding 4(1) that(2) .
    qed
  qed
  then obtain hs6 ob6 w6 where 6: "views hs6 = ?V (Some v, p0, s # tl l0)" "view w6 = ?a"
    "conversation 1 n env x ob4 sigs4 ?hs5 = (ob6, hs6(x := w6))"
    by auto
  have "views (hs6(x := w6)) = ?V ?a" by (simp add: 6(1,2))
  with 6(3) show ?thesis unfolding run a(3) b(3) by blast
qed

subsection \<open>Gaps of a ring\<close>

context cyclic_order
begin

text \<open>The member that follows a member, and the one before it, are unique.\<close>

lemma next_unique:
  assumes "a \<in> I" "s \<in> I" "t \<in> I" "\<forall>m \<in> I. \<not> btw a m s" "\<forall>m \<in> I. \<not> btw a m t"
  shows "s = t"
  using assms full_arc [of a] arc_total [of a s t] by metis

lemma before_unique:
  assumes "a \<in> I" "p \<in> I" "s \<in> I" "\<forall>m \<in> I. \<not> btw a m s" "\<forall>m \<in> I. \<not> btw p m s"
  shows "a = p"
proof (rule ccontr)
  assume "a \<noteq> p"
  then have "a \<noteq> s" "p \<noteq> s" using assms full_arc [of s] by metis+
  then show False using \<open>a \<noteq> p\<close> assms(1,2,4,5) arc_total [of a p s] arc_rotate [of a s p] by blast
qed

text \<open>A point between two neighbours splits their gap.\<close>

lemma gap_split:
  assumes "\<forall>m \<in> I. \<not> btw p m s" "btw p v s" "v \<notin> I"
  shows "\<forall>m \<in> insert v I. \<not> btw p m v" "\<forall>m \<in> insert v I. \<not> btw v m s"
proof -
  show "\<forall>m \<in> insert v I. \<not> btw v m s" using assms not_left arc_trans by blast
  show "\<forall>m \<in> insert v I. \<not> btw p m v"
  proof (cases "p = s")
    case True
    with assms(1) full_arc have "I \<subseteq> {p}" by blast
    then show ?thesis using not_left not_right by blast
  next
    case False
    then show ?thesis using assms(1,2) not_right prefix_trans by blast
  qed
qed

text \<open>It lies in no other gap.\<close>

lemma gap_only:
  assumes "a \<in> I" "b \<in> I" "\<forall>m \<in> I. \<not> btw a m b" "btw a v b"
    and "p \<in> I" "s \<in> I" "\<forall>m \<in> I. \<not> btw p m s" "btw p v s" "v \<notin> I"
  shows "a = p \<and> b = s"
proof -
  have "\<forall>m \<in> I. \<not> btw v m b" "\<forall>m \<in> I. \<not> btw v m s" using assms arc_trans by blast+
  then have "b = s" using first_unique [of b v s] assms(2,6,9) by blast
  with before_unique [of a I p s] assms show ?thesis by blast
qed

lemma gap_other:
  assumes "a \<in> I" "b \<in> I" "\<forall>m \<in> I. \<not> btw a m b" "a \<noteq> p \<or> b \<noteq> s"
    and "p \<in> I" "s \<in> I" "\<forall>m \<in> I. \<not> btw p m s" "btw p v s" "v \<notin> I"
  shows "\<forall>m \<in> insert v I. \<not> btw a m b"
  using assms gap_only [OF assms(1-3) _ assms(5-9)] by blast

text \<open>The first member after a point is followed by it in the gap before.\<close>

lemma owner_gap:
  assumes "p \<in> I" "s \<in> I" "\<forall>m \<in> I. \<not> btw p m s" "v \<notin> I" "\<forall>m \<in> I. \<not> btw v m s"
  shows "btw p v s"
proof (cases "p = s")
  case True
  with assms(2,4) full_arc show ?thesis by blast
next
  case False
  have "\<not> btw v p s" "v \<noteq> p" "v \<noteq> s" using assms by blast+
  with False show ?thesis using arc_total [of v p s] arc_rotate [of v s p] by blast
qed

end

subsection \<open>The ring with one node more\<close>

lemma resize_full: "n \<le> length xs \<Longrightarrow> resize n d xs = take n xs"
  by (simp add: resize_def)

lemma set_butlast_subset: "set (butlast xs) \<subseteq> set xs"
  by (auto dest: in_set_butlastD)

lemma sound_ringI:
  assumes "finite N" "inj_on peer_id N" "inj_on address N"
    and "\<And>u. u \<in> N \<Longrightarrow> peer_id u \<noteq> '''' \<and>
      (\<exists>p s ss. views hs (address u) = (Some u, Some p, s # ss) \<and> length (s # ss) = succ_list_size \<and>
         p \<in> N \<and> set (s # ss) \<subseteq> N \<and>
         (\<forall>m \<in> peer_id ` N. \<not> between (peer_id u) m (peer_id s)) \<and>
         (\<forall>m \<in> peer_id ` N. \<not> between (peer_id p) m (peer_id u)))"
  shows "sound_ring N hs"
  using assms unfolding sound_ring_def views_def by simp

text \<open>The three nodes whose tables change: the new node \<open>v\<close>, its successor \<open>s\<close>, and its predecessor \<open>p\<close>,
  which may be the same node. The other gaps do not contain the new node.\<close>

lemma ring_extended:
  assumes ring: "sound_ring N hs" and v: "peer_id v \<notin> peer_id ` N" "peer_id v \<noteq> ''''" "address v \<notin> address ` N"
    and N: "p \<in> N" "s \<in> N" and gap: "\<forall>m \<in> peer_id ` N. \<not> between (peer_id p) m (peer_id s)"
    and btw: "between (peer_id p) (peer_id v) (peer_id s)"
    and len: "length lv = 9" "length ls = 9" "length lp = 9" and sub: "set lv \<subseteq> N" "set ls \<subseteq> N" "set lp \<subseteq> insert v N"
    and old: "views hs (address s) = (Some s, Some p, s1 # ls)" "views hs (address p) = (Some p, Some pp, s # lp')"
    and new: "views hs' (address v) = (Some v, Some p, s # lv)"
      "views hs' (address p) = (Some p, Some (if p = s then v else pp), v # lp)"
      "p \<noteq> s \<Longrightarrow> views hs' (address s) = (Some s, Some v, s1 # ls)"
      "\<And>u. u \<in> N \<Longrightarrow> u \<noteq> s \<Longrightarrow> u \<noteq> p \<Longrightarrow> views hs' (address u) = views hs (address u)"
  shows "sound_ring (insert v N) hs'"
proof (rule sound_ringI)
  let ?I = "peer_id ` N" and ?J = "peer_id ` insert v N"
  have parts: "finite N" "inj_on peer_id N" "inj_on address N" using ring by (simp_all add: sound_ring_def)
  then show "finite (insert v N)" "inj_on peer_id (insert v N)" "inj_on address (insert v N)" using v by auto
  have split: "\<forall>m \<in> ?J. \<not> between (peer_id p) m (peer_id v)" "\<forall>m \<in> ?J. \<not> between (peer_id v) m (peer_id s)"
    using ring.gap_split [OF gap btw v(1)] by simp_all
  have other: "\<forall>m \<in> ?J. \<not> between (peer_id a) m (peer_id b)"
    if "a \<in> N" "b \<in> N" "\<forall>m \<in> N. \<not> between (peer_id a) (peer_id m) (peer_id b)" "a \<noteq> p \<or> b \<noteq> s" for a b
  proof -
    have "peer_id a \<noteq> peer_id p \<or> peer_id b \<noteq> peer_id s" using that(1,2,4) N parts(2) by (auto simp: inj_on_def)
    with ring.gap_other [of "peer_id a" ?I "peer_id b" "peer_id p" "peer_id s" "peer_id v"] that N gap btw v(1)
    show ?thesis by simp
  qed
  fix u assume "u \<in> insert v N"
  then consider "u = v" | "u = p" | "u = s" "u \<noteq> p" | "u \<in> N" "u \<noteq> s" "u \<noteq> p" by blast
  then show "peer_id u \<noteq> '''' \<and> (\<exists>p s ss. views hs' (address u) = (Some u, Some p, s # ss) \<and>
      length (s # ss) = succ_list_size \<and> p \<in> insert v N \<and> set (s # ss) \<subseteq> insert v N \<and>
      (\<forall>m \<in> ?J. \<not> between (peer_id u) m (peer_id s)) \<and> (\<forall>m \<in> ?J. \<not> between (peer_id p) m (peer_id u)))"
  proof cases
    case 1
    with new(1) v(2) len sub N split show ?thesis by (auto simp: succ_list_size_def)
  next
    case 2
    obtain q t ts where p: "views hs (address p) = (Some p, Some q, t # ts)" "q \<in> N" "peer_id p \<noteq> ''''"
      "\<forall>m \<in> N. \<not> between (peer_id q) (peer_id m) (peer_id p)"
      by (rule sound_ringE [OF ring N(1)])
    have pred: "p \<noteq> s \<Longrightarrow> \<forall>m \<in> ?J. \<not> between (peer_id q) m (peer_id p)" using other [OF p(2) N(1) p(4)] by blast
    from p(1) old(2) have "q = pp" by simp
    with 2 new(2) p(2,3) len(3) sub(3) split pred show ?thesis by (cases "p = s") (auto simp: succ_list_size_def)
  next
    case 3
    obtain q t ts where s: "views hs (address s) = (Some s, Some q, t # ts)" "t \<in> N" "peer_id s \<noteq> ''''"
      "\<forall>m \<in> N. \<not> between (peer_id s) (peer_id m) (peer_id t)"
      by (rule sound_ringE [OF ring N(2)])
    have "\<forall>m \<in> ?J. \<not> between (peer_id s) m (peer_id t)" using other [OF N(2) s(2,4)] 3 by blast
    moreover from s(1) old(1) have "t = s1" by simp
    ultimately show ?thesis using 3 new(3) s(2,3) len(2) sub(2) split by (auto simp: succ_list_size_def)
  next
    case 4
    obtain q t ts where u: "views hs (address u) = (Some u, Some q, t # ts)" "length (t # ts) = succ_list_size"
      "q \<in> N" "t \<in> N" "set ts \<subseteq> N" "\<forall>m \<in> N. \<not> between (peer_id u) (peer_id m) (peer_id t)"
      "\<forall>m \<in> N. \<not> between (peer_id q) (peer_id m) (peer_id u)" "peer_id u \<noteq> ''''"
      by (rule sound_ringE [OF ring 4(1)])
    have "\<forall>m \<in> ?J. \<not> between (peer_id u) m (peer_id t)" "\<forall>m \<in> ?J. \<not> between (peer_id q) m (peer_id u)"
      using other [OF 4(1) u(4,6)] other [OF u(3) 4(1) u(7)] 4 by blast+
    with 4 u new(4) show ?thesis by auto
  qed
qed

text \<open>A node joins and stabilizes, then the node before it does.\<close>

lemma ring_joined:
  assumes ring: "sound_ring N hs" and t: "t \<in> N" and n: "card N \<le> n"
    and me: "view (hs (ip, peer_port me)) = (Some me, None, l0)" "(ip, peer_port me) \<notin> address ` N"
    and ip: "en_remote_ip env 0 = Some ip"
    and v: "v = me\<lparr>peer_ip := ip, peer_id := generate_sha256_addr (en_sha env) ip (peer_port me)\<rparr>"
      "peer_id v \<notin> peer_id ` N" "peer_id v \<noteq> ''''"
  shows "\<exists>p \<in> N. (\<forall>m \<in> N. \<not> between (peer_id p) (peer_id m) (peer_id v)) \<and> sound_ring (insert v N)
    (snd (stabilize_at n env (address p) (snd (stabilize_at n env (address v) (snd (join_at n env (address v) t hs))))))"
proof -
  let ?x = "address v"
  have x: "?x = (ip, peer_port me)" by (simp add: v(1) address_def)
  have parts: "finite N" "inj_on peer_id N" "inj_on address N" using ring by (simp_all add: sound_ring_def)
  obtain s where s: "s \<in> N" "owns_id (peer_id ` N) (peer_id v) (peer_id s)"
  proof -
    obtain i where "owns_id (peer_id ` N) (peer_id v) i"
      using owns_id_exists [of "peer_id ` N" "peer_id v"] parts(1) t by blast
    then show ?thesis using that by (auto simp: owns_id_def)
  qed
  obtain p s1 ls where ps: "views hs (address s) = (Some s, Some p, s1 # ls)" "length (s1 # ls) = succ_list_size" "p \<in> N"
    "s1 \<in> N" "set ls \<subseteq> N" "\<forall>m \<in> N. \<not> between (peer_id p) (peer_id m) (peer_id s)"
    by (rule sound_ringE [OF ring s(1)])
  obtain pp s' lp where pv: "views hs (address p) = (Some p, Some pp, s' # lp)" "s' \<in> N" "peer_id p \<noteq> ''''"
    "\<forall>m \<in> N. \<not> between (peer_id p) (peer_id m) (peer_id s')"
    by (rule sound_ringE [OF ring ps(3)])
  have "peer_id s' = peer_id s" by (rule ring.next_unique [of "peer_id p" "peer_id ` N"]) (use pv(2,4) ps(3,6) s(1) in auto)
  then have s': "s' = s" using parts(2) pv(2) s(1) by (simp add: inj_on_def)
  have gap: "\<forall>m \<in> peer_id ` N. \<not> between (peer_id p) m (peer_id s)" using ps(6) by blast
  have after: "\<forall>m \<in> peer_id ` N. \<not> between (peer_id v) m (peer_id s)" using s(2) v(2) by (auto simp: owns_id_def)
  have btw: "between (peer_id p) (peer_id v) (peer_id s)"
    by (rule ring.owner_gap [OF _ _ gap v(2) after]) (use ps(3) s(1) in auto)
  have tens: "resize succ_list_size Peer_empty (s # (s1 # ls) @ l) = s # butlast (s1 # ls)" for l
    using ps(2) by (simp add: succ_list_size_def resize_full butlast_conv_take take_Cons')
  have "views hs ?x = (Some me, None, l0)" using me(1) by (simp add: x views_def)
  from join_finds_place [OF ring t n _ this ip v(1) s ps(1)] me(2) obtain ob1 hs1 where
    1: "join_at n env ?x t hs = (ob1, hs1)" "views hs1 = (views hs)(?x := (Some v, None, s # butlast (s1 # ls)))"
    unfolding tens x by blast
  have far: "?x \<noteq> address s" "?x \<noteq> address p" using me(2) s(1) ps(3) x by auto
  have vx: "views hs1 ?x = (Some v, None, s # butlast (s1 # ls))" by (simp add: 1(2))
  have vs: "views hs1 (address s) = (Some s, Some p, s1 # ls)" using far(1) ps(1) by (simp add: 1(2))
  have "\<not> between (peer_id v) (peer_id p) (peer_id s)" using after ps(3) by blast
  from stabilize_notifies [OF vx v(3) far(1) vs _ this, of n env] btw obtain ob2 hs2 where
    2: "stabilize_at n env ?x hs1 = (ob2, hs2)"
      "views hs2 = (views hs1)(?x := (Some v, None, s # butlast (s1 # ls)), address s := (Some s, Some v, s1 # ls))"
    using tens [of "[]"] by (auto simp: rectify_def)
  have "\<exists>q. views hs2 (address p) = (Some p, Some q, s # lp) \<and> q = (if p = s then v else pp)"
  proof (cases "p = s")
    case True
    with pv(1) ps(1) s' show ?thesis by (simp add: 2(2))
  next
    case False
    then have "address p \<noteq> address s" by (rule inj_on_contraD [OF parts(3) _ ps(3) s(1)])
    with False far pv(1) s' show ?thesis by (simp add: 2(2) 1(2))
  qed
  then have vp: "views hs2 (address p) = (Some p, Some (if p = s then v else pp), s # lp)" by simp
  have vs2: "views hs2 (address s) = (Some s, Some v, s1 # ls)" by (simp add: 2(2))
  have vx2: "views hs2 ?x = (Some v, None, s # butlast (s1 # ls))" using far(1) by (simp add: 2(2))
  from stabilize_adopts [OF vp pv(3) vs2 _ btw far(2) [symmetric] vx2, of n env] obtain ob3 hs3 where
    3: "stabilize_at n env (address p) hs2 = (ob3, hs3)"
      "views hs3 = (views hs2)(address p := (Some p, Some (if p = s then v else pp),
         resize succ_list_size Peer_empty (v # s # butlast (s1 # ls))),
         ?x := (Some v, Some p, s # butlast (s1 # ls)))"
    by auto
  have nine: "length (s1 # ls) = 10" "length (butlast (s1 # ls)) = 9" using ps(2) by (auto simp: succ_list_size_def)
  have ten: "resize succ_list_size Peer_empty (v # s # butlast (s1 # ls)) = v # s # take 8 (butlast (s1 # ls))"
    using nine by (simp add: succ_list_size_def resize_full take_Cons')
  have "sound_ring (insert v N) hs3"
  proof (rule ring_extended [OF ring v(2,3) _ ps(3) s(1) gap btw nine(2) _ _ _ ps(5) _ ps(1) pv(1) [unfolded s']])
    show "address v \<notin> address ` N" using me(2) x by simp
    show "length ls = 9" "length (s # take 8 (butlast (s1 # ls))) = 9" using nine by simp_all
    have "set (s1 # ls) \<subseteq> N" using ps(4,5) by simp
    then have sub: "set (butlast (s1 # ls)) \<subseteq> N" by (rule subset_trans [OF set_butlast_subset])
    then show "set (butlast (s1 # ls)) \<subseteq> N" .
    have "set (take 8 (butlast (s1 # ls))) \<subseteq> N" by (rule subset_trans [OF set_take_subset sub])
    then show "set (s # take 8 (butlast (s1 # ls))) \<subseteq> insert v N" unfolding list.set(2) using s(1) by blast
    show "views hs3 ?x = (Some v, Some p, s # butlast (s1 # ls))" by (simp add: 3(2))
    show "views hs3 (address p) = (Some p, Some (if p = s then v else pp), v # s # take 8 (butlast (s1 # ls)))"
      using far(2) ten by (simp add: 3(2))
    show "views hs3 (address s) = (Some s, Some v, s1 # ls)" if "p \<noteq> s"
    proof -
      have "address p \<noteq> address s" by (rule inj_on_contraD [OF parts(3) that ps(3) s(1)])
      with far(1) show ?thesis by (simp add: 3(2) vs2)
    qed
    show "views hs3 (address u) = views hs (address u)" if "u \<in> N" "u \<noteq> s" "u \<noteq> p" for u
    proof -
      have "address u \<noteq> address s" by (rule inj_on_contraD [OF parts(3) that(2,1) s(1)])
      moreover have "address u \<noteq> address p" by (rule inj_on_contraD [OF parts(3) that(3,1) ps(3)])
      moreover have "address u \<noteq> ?x" using me(2) imageI [OF that(1), of address] x by metis
      ultimately show ?thesis by (simp add: 3(2) 2(2) 1(2))
    qed
  qed
  moreover have "\<forall>m \<in> N. \<not> between (peer_id p) (peer_id m) (peer_id v)"
    using ring.gap_split(1) [OF gap btw v(2)] by simp
  ultimately show ?thesis using 1(1) 2(1) 3(1) ps(3) by (intro bexI [of _ p]) simp_all
qed

text \<open>A round of stabilization keeps a ring: the successor knows its predecessor already, and the list
  that is taken over is full.\<close>

lemma ring_stabilized:
  assumes ring: "sound_ring N hs" and u: "u \<in> N" and two: "1 < card N"
  shows "sound_ring N (snd (stabilize_at n env (address u) hs))"
proof -
  have parts: "finite N" "inj_on peer_id N" "inj_on address N" using ring by (simp_all add: sound_ring_def)
  obtain p s ss where us: "views hs (address u) = (Some u, Some p, s # ss)" "p \<in> N" "s \<in> N"
    "\<forall>m \<in> N. \<not> between (peer_id u) (peer_id m) (peer_id s)"
    "\<forall>m \<in> N. \<not> between (peer_id p) (peer_id m) (peer_id u)" "peer_id u \<noteq> ''''"
    by (rule sound_ringE [OF ring u])
  obtain q t ts where st: "views hs (address s) = (Some s, Some q, t # ts)" "length (t # ts) = succ_list_size"
    "q \<in> N" "t \<in> N" "set ts \<subseteq> N" "\<forall>m \<in> N. \<not> between (peer_id q) (peer_id m) (peer_id s)"
    by (rule sound_ringE [OF ring us(3)])
  have "peer_id q = peer_id u"
    by (rule ring.before_unique [of "peer_id q" "peer_id ` N" "peer_id u" "peer_id s"]) (use st(3,6) us(3,4) u in auto)
  then have q: "q = u" using inj_onD [OF parts(2) _ st(3) u] by simp
  have "u \<noteq> s"
  proof
    assume "u = s"
    then have "N \<subseteq> {u}" using us(4) ring.full_arc inj_onD [OF parts(2) _ _ u] by blast
    then have "card N \<le> 1" using card_mono [of "{u}" N] by simp
    then show False using two by simp
  qed
  then have far: "address u \<noteq> address s" by (rule inj_on_contraD [OF parts(3) _ u us(3)])
  have "\<not> between (peer_id u) (peer_id q) (peer_id s)" using us(4) st(3) by blast
  from stabilize_notifies [OF us(1,6) far st(1) _ this, of n env] st(2) obtain ob hs' where
    st1: "stabilize_at n env (address u) hs = (ob, hs')"
      "views hs' = (views hs)(address u := (Some u, Some p, resize succ_list_size Peer_empty (s # t # ts)),
        address s := (Some s, Some u, t # ts))"
    by (auto simp: succ_list_size_def rectify_def q)
  have "resize succ_list_size Peer_empty (s # t # ts) = s # butlast (t # ts)"
    using st(2) by (simp add: succ_list_size_def resize_full butlast_conv_take take_Cons')
  moreover have "(views hs)(address u := a, address s := (Some s, Some u, t # ts)) = (views hs)(address u := a)" for a
    using far st(1) by (intro ext) (simp add: q)
  ultimately have st': "stabilize_at n env (address u) hs = (ob, hs')"
    "views hs' = (views hs)(address u := (Some u, Some p, s # butlast (t # ts)))"
    using st1 by simp_all
  have len: "length (s # butlast (t # ts)) = succ_list_size" using st(2) by (simp del: butlast.simps)
  have "set (t # ts) \<subseteq> N" using st(4,5) by simp
  then have "set (butlast (t # ts)) \<subseteq> N" by (rule subset_trans [OF set_butlast_subset])
  then have sub: "set (s # butlast (t # ts)) \<subseteq> N" unfolding list.set(2) using us(3) by blast
  have "sound_ring N hs'"
  proof (rule sound_ringI [OF parts])
    fix x assume x: "x \<in> N"
    obtain px sx lx where xs: "views hs (address x) = (Some x, Some px, sx # lx)" "length (sx # lx) = succ_list_size"
      "px \<in> N" "sx \<in> N" "set lx \<subseteq> N" "\<forall>m \<in> N. \<not> between (peer_id x) (peer_id m) (peer_id sx)"
      "\<forall>m \<in> N. \<not> between (peer_id px) (peer_id m) (peer_id x)" "peer_id x \<noteq> ''''"
      by (rule sound_ringE [OF ring x])
    show "peer_id x \<noteq> '''' \<and> (\<exists>p s ss. views hs' (address x) = (Some x, Some p, s # ss) \<and>
        length (s # ss) = succ_list_size \<and> p \<in> N \<and> set (s # ss) \<subseteq> N \<and>
        (\<forall>m \<in> peer_id ` N. \<not> between (peer_id x) m (peer_id s)) \<and>
        (\<forall>m \<in> peer_id ` N. \<not> between (peer_id p) m (peer_id x)))"
    proof (cases "x = u")
      case True
      with us len sub show ?thesis by (simp add: st'(2))
    next
      case False
      then have "address x \<noteq> address u" by (rule inj_on_contraD [OF parts(3) _ x u])
      with xs show ?thesis by (simp add: st'(2))
    qed
  qed
  with st'(1) show ?thesis by simp
qed

subsection \<open>Properties\<close>

lemma ring_extends:
  assumes "sound_ring N hs" "t \<in> N" "card N \<le> n"
    and "view (hs (ip, peer_port me)) = (Some me, None, l0)" "(ip, peer_port me) \<notin> address ` N"
    and "en_remote_ip env 0 = Some ip"
    and "v = me\<lparr>peer_ip := ip, peer_id := generate_sha256_addr (en_sha env) ip (peer_port me)\<rparr>"
      "peer_id v \<notin> peer_id ` N" "peer_id v \<noteq> ''''"
    and p: "p \<in> N" "\<forall>m \<in> N. \<not> between (peer_id p) (peer_id m) (peer_id v)"
  shows "sound_ring (insert v N)
    (snd (stabilize_at n env (address p) (snd (stabilize_at n env (address v) (snd (join_at n env (address v) t hs))))))"
proof -
  from ring_joined [OF assms(1-9)] obtain q where q: "q \<in> N"
    "\<forall>m \<in> N. \<not> between (peer_id q) (peer_id m) (peer_id v)"
    "sound_ring (insert v N)
      (snd (stabilize_at n env (address q) (snd (stabilize_at n env (address v) (snd (join_at n env (address v) t hs))))))"
    by blast
  have "peer_id q = peer_id p"
    by (rule ring.before_unique [of "peer_id q" "insert (peer_id v) (peer_id ` N)" "peer_id p" "peer_id v"])
      (use p q(1,2) ring.not_right in auto)
  moreover have "inj_on peer_id N" using assms(1) by (simp add: sound_ring_def)
  ultimately have "q = p" using p(1) q(1) by (simp add: inj_on_def)
  with q(3) show ?thesis by simp
qed

text \<open>What becomes of a ring with full lists when one node after the other joins and stabilizes with the
  node before it, and members stabilize in between as often as they like.\<close>

inductive ring_history :: "Peer set \<Rightarrow> hosts \<Rightarrow> bool" where
  ring: "sound_ring N hs \<Longrightarrow> ring_history N hs"
| join: "ring_history N hs \<Longrightarrow> t \<in> N \<Longrightarrow> card N \<le> n \<Longrightarrow>
    view (hs (ip, peer_port me)) = (Some me, None, l0) \<Longrightarrow> (ip, peer_port me) \<notin> address ` N \<Longrightarrow>
    en_remote_ip env 0 = Some ip \<Longrightarrow>
    v = me\<lparr>peer_ip := ip, peer_id := generate_sha256_addr (en_sha env) ip (peer_port me)\<rparr> \<Longrightarrow>
    peer_id v \<notin> peer_id ` N \<Longrightarrow> peer_id v \<noteq> '''' \<Longrightarrow>
    p \<in> N \<Longrightarrow> \<forall>m \<in> N. \<not> between (peer_id p) (peer_id m) (peer_id v) \<Longrightarrow>
    ring_history (insert v N)
      (snd (stabilize_at n env (address p) (snd (stabilize_at n env (address v) (snd (join_at n env (address v) t hs))))))"
| stabilize: "ring_history N hs \<Longrightarrow> u \<in> N \<Longrightarrow> 1 < card N \<Longrightarrow>
    ring_history N (snd (stabilize_at n env (address u) hs))"

lemma history_sound: "ring_history N hs \<Longrightarrow> sound_ring N hs"
proof (induction rule: ring_history.induct)
  case (ring N hs)
  then show ?case .
next
  case (join N hs t n ip me l0 env v p)
  show ?case by (rule ring_extends [OF join.IH join.hyps(2-11)])
next
  case (stabilize N hs u n env)
  show ?case by (rule ring_stabilized [OF stabilize.IH stabilize.hyps(2,3)])
qed

text \<open>C4. A node joins: it asks any node of a ring for its address, its successor and the successor's
  list; it stabilizes once, which tells the successor; and the node before it stabilizes once, which
  finds the new node between itself and its successor. Then the tables of all nodes, the new one
  among them, are those of a ring with one node more: every first successor is the next node, every
  predecessor the one before, and the lists, which were full, are full again.\<close>

theorem join_extends_ring:
  assumes "sound_ring N hs" "t \<in> N" "card N \<le> n"
    and "view (hs (ip, peer_port me)) = (Some me, None, l0)" "(ip, peer_port me) \<notin> address ` N"
    and "en_remote_ip env 0 = Some ip"
    and "v = me\<lparr>peer_ip := ip, peer_id := generate_sha256_addr (en_sha env) ip (peer_port me)\<rparr>"
      "peer_id v \<notin> peer_id ` N" "peer_id v \<noteq> ''''"
    and p: "p \<in> N" "\<forall>m \<in> N. \<not> between (peer_id p) (peer_id m) (peer_id v)"
  shows "sound_ring (insert v N)
    (snd (stabilize_at n env (address p) (snd (stabilize_at n env (address v) (snd (join_at n env (address v) t hs))))))"
  using ring_extends [OF assms] .

text \<open>C5. Whatever has happened to a ring since: nodes have joined one after the other and any nodes
  have stabilized in between, a lookup that arrives at any member, old or new, is answered with the
  member that owns the identifier.\<close>

theorem history_lookup_finds_owner:
  assumes "ring_history N hs" "v \<in> N" "msg_peers m = p # rest" "card N \<le> n"
  shows "\<exists>rm owner. network_lookup n env (hs \<circ> address) m v = Some rm \<and> msg_peers rm = [owner] \<and>
    owner \<in> N \<and> owns_id (peer_id ` N) (peer_id p) (peer_id owner)"
  using ring_lookup_owner [OF sound_ring_stable [OF history_sound [OF assms(1)]] assms(2-4), of env] by blast

definition example_node_of :: "string \<Rightarrow> string \<Rightarrow> world" where
  "example_node_of i j =
     (example_world i [j, i, j, i, j, i, j, i, j, i])\<lparr>w_table :=
        set_predecessor (example_peer j) (w_table (example_world i [j, i, j, i, j, i, j, i, j, i]))\<rparr>"

definition example_joiner :: Peer where
  "example_joiner = Peer_new '''' '''' ''1''"

definition example_hosts :: hosts where
  "example_hosts y =
     (if y = (''ipb'', ''1'') then example_node_of ''b'' ''d''
      else if y = (''ipd'', ''1'') then example_node_of ''d'' ''b''
      else (example_world '''' [])\<lparr>w_table := set_self example_joiner (w_table (example_world '''' []))\<rparr>)"

lemma example_hosts_simps:
  "example_peer i \<noteq> example_peer j \<longleftrightarrow> i \<noteq> j"
  "address (example_peer i) = (''ip'' @ i, ''1'')"
  "view (example_node_of i j) = (Some (example_peer i), Some (example_peer j),
     map example_peer [j, i, j, i, j, i, j, i, j, i])"
  by (simp_all add: example_node_of_def view_def) (simp_all add: address_def example_peer_def Peer_new_def)

lemma example_ring: "sound_ring {example_peer ''b'', example_peer ''d''} example_hosts"
  by (simp add: sound_ring_def example_hosts_def example_hosts_simps succ_list_size_def between_def
      insert_Diff_if)

lemma example_joiner_simps:
  "view (example_hosts (''ip'', peer_port example_joiner)) = (Some example_joiner, None, [])"
  "peer_port example_joiner = ''1''"
  "Peer_new ''ip1'' ''ip'' ''1'' = example_joiner\<lparr>peer_ip := ''ip'',
     peer_id := generate_sha256_addr (en_sha example_env) ''ip'' (peer_port example_joiner)\<rparr>"
  by (simp_all add: example_hosts_def view_def)
    (simp_all add: example_joiner_def Peer_new_def generate_sha256_addr_def example_env_def)

definition example_joined :: hosts where
  "example_joined =
     snd (stabilize_at 2 example_env (address (example_peer ''d''))
       (snd (stabilize_at 2 example_env (address (Peer_new ''ip1'' ''ip'' ''1''))
         (snd (join_at 2 example_env (address (Peer_new ''ip1'' ''ip'' ''1''))
           (example_peer ''d'') example_hosts)))))"

lemma join_extends_ring_witness:
  "sound_ring {Peer_new ''ip1'' ''ip'' ''1'', example_peer ''b'', example_peer ''d''} example_joined"
  unfolding example_joined_def
  by (rule join_extends_ring [OF example_ring _ _ example_joiner_simps(1) _ _ example_joiner_simps(3)])
    (auto simp: example_joiner_simps example_hosts_simps example_env_def Peer_new_def card_insert_if between_def)

text \<open>Then the first node is asked for ''e'', which the new node owns.\<close>

lemma history_lookup_finds_owner_witness:
  "\<exists>rm. network_lookup 3 example_env (example_joined \<circ> address) (example_msg [''e'']) (example_peer ''b'') = Some rm \<and>
     msg_peers rm = [Peer_new ''ip1'' ''ip'' ''1'']"
proof -
  let ?v = "Peer_new ''ip1'' ''ip'' ''1''"
  let ?N = "{?v, example_peer ''b'', example_peer ''d''}"
  have "ring_history ?N example_joined"
    unfolding example_joined_def
    by (rule ring_history.join [OF ring_history.ring [OF example_ring] _ _ example_joiner_simps(1) _ _ example_joiner_simps(3)])
      (auto simp: example_joiner_simps example_hosts_simps example_env_def Peer_new_def card_insert_if between_def)
  moreover have "card ?N \<le> 3" by (simp add: card_insert_if)
  ultimately obtain rm owner where "network_lookup 3 example_env (example_joined \<circ> address) (example_msg [''e''])
      (example_peer ''b'') = Some rm" "msg_peers rm = [owner]" "owner \<in> ?N" "owns_id (peer_id ` ?N) ''e'' (peer_id owner)"
    using history_lookup_finds_owner [of ?N example_joined "example_peer ''b''" "example_msg [''e'']" "example_peer ''e''"
        "[]" 3 example_env]
    by auto
  then show ?thesis by (auto simp: owns_id_def between_def)
qed

end
