(* ===== verification/Members.thy ===== *)
theory Members
  imports Messaging Containers
begin

section \<open>The other members of the classes\<close>

text \<open>
  Accessors and members that no operation of a node calls, so that the classes are complete: those of
  \<open>Message\<close>, which only the tests use, the copies and comparisons of \<open>HandlerObject\<close>, the deprecated
  handler and promise of \<open>RequestObject\<close>, and what \<open>MessagingBase\<close> tells about itself.
\<close>

subsection \<open>Message\<close>

definition set_header :: "Header \<Rightarrow> Message \<Rightarrow> Message" where
  "set_header h m = m\<lparr>msg_header := h\<rparr>"

definition get_header :: "Message \<Rightarrow> Header" where
  "get_header m = msg_header m"

definition get_peers :: "Message \<Rightarrow> Peer list" where
  "get_peers m = msg_peers m"

definition set_peers :: "Peer list \<Rightarrow> Message \<Rightarrow> Message" where
  "set_peers ps m = m\<lparr>msg_peers := ps\<rparr>"

definition set_data :: "string \<Rightarrow> Message \<Rightarrow> Message" where
  "set_data d m = m\<lparr>msg_data := d\<rparr>"

definition get_data :: "Message \<Rightarrow> string" where
  "get_data m = msg_data m"

definition set_filelist :: "FileInfo list \<Rightarrow> Message \<Rightarrow> Message" where
  "set_filelist fs m = m\<lparr>msg_files := fs\<rparr>"

definition get_files_of_message :: "Message \<Rightarrow> FileInfo list" where
  "get_files_of_message m = msg_files m"

definition set_file_chunk :: "FileChunk \<Rightarrow> Message \<Rightarrow> Message" where
  "set_file_chunk c m = m\<lparr>msg_file_chunk := Some c\<rparr>"

definition get_file_chunk :: "Message \<Rightarrow> FileChunk option" where
  "get_file_chunk m = msg_file_chunk m"

text \<open>The requests of \<open>message.hpp\<close>, written with the accessors as the code writes them.\<close>

lemma create_request_members:
  "create_request sha now c ty =
     generate_transaction_id sha now c (set_header (Header_new True 0 0 ty '''' '''' '''') Message_empty)"
  "create_request_peers sha now c ty ps =
     generate_transaction_id sha now c
       (set_peers ps (set_header (Header_new True 0 0 ty '''' '''' '''') Message_empty))"
  by (simp_all add: create_request_def create_request_peers_def set_header_def set_peers_def)

text \<open>The id is the hash of everything \<open>stringify\<close> shows; files, data and the chunk do not take part.\<close>

lemma transaction_id_ignores_payload:
  "get_transaction_id (fst (generate_transaction_id sha now c (set_data d (set_filelist fs (set_file_chunk ch m))))) =
   get_transaction_id (fst (generate_transaction_id sha now c m))"
  by (simp add: generate_transaction_id_def transaction_preimage_def Message_stringify_def set_data_def
      set_filelist_def set_file_chunk_def get_transaction_id_def Let_def)

subsection \<open>HandlerObject\<close>

definition HandlerObject_default :: "string \<Rightarrow> handler_fn \<Rightarrow> oid \<Rightarrow> HandlerObject" where
  "HandlerObject_default cid f parent =
     \<lparr>ho_correlation_id = cid, ho_handler = f, ho_parent = parent, ho_is_persistent = False\<rparr>"

definition HandlerObject_copy :: "HandlerObject \<Rightarrow> HandlerObject" where
  "HandlerObject_copy h =
     \<lparr>ho_correlation_id = ho_correlation_id h, ho_handler = ho_handler h, ho_parent = ho_parent h,
      ho_is_persistent = ho_is_persistent h\<rparr>"

definition get_persistency :: "HandlerObject \<Rightarrow> bool" where
  "get_persistency h = ho_is_persistent h"

definition is_persistent :: "HandlerObject \<Rightarrow> bool" where
  "is_persistent h = ho_is_persistent h"

definition handler_before_id :: "HandlerObject \<Rightarrow> string \<Rightarrow> bool" where
  "handler_before_id h i \<longleftrightarrow> ho_correlation_id h < i"

definition id_before_handler :: "string \<Rightarrow> HandlerObject \<Rightarrow> bool" where
  "id_before_handler i h \<longleftrightarrow> i < ho_correlation_id h"

lemma HandlerObject_copy_same: "HandlerObject_copy h = h"
  by (simp add: HandlerObject_copy_def)

text \<open>What a set ordered by \<open>std::less<>\<close> needs to be searched by an id: the comparisons with an id
  cut the order of the handlers in three, and the middle part is the handlers with that id.\<close>

lemma id_cuts_handlers:
  "\<not> handler_before_id h i \<and> \<not> id_before_handler i h \<longleftrightarrow> handler_is_id h i"
  "handler_less h h' \<Longrightarrow> handler_before_id h' i \<Longrightarrow> handler_before_id h i"
  "handler_less h h' \<Longrightarrow> id_before_handler i h \<Longrightarrow> id_before_handler i h'"
  by (auto simp: handler_before_id_def id_before_handler_def handler_is_id_def handler_less_def)

subsection \<open>RequestObject\<close>

text \<open>The deprecated members: a function, known by its number, and a pointer to a promise of a string,
  of which the values given so far are in \<open>promises\<close>.\<close>

record DeprecatedRequest = RequestObject +
  dr_handler :: "nat option"
  dr_promise :: "nat option option"

definition set_handler :: "nat \<Rightarrow> DeprecatedRequest \<Rightarrow> DeprecatedRequest" where
  "set_handler f r = r\<lparr>dr_handler := Some f\<rparr>"

definition has_handler :: "DeprecatedRequest \<Rightarrow> bool" where
  "has_handler r \<longleftrightarrow> dr_handler r \<noteq> None"

definition get_handler :: "DeprecatedRequest \<Rightarrow> nat res" where
  "get_handler r = (case dr_handler r of None \<Rightarrow> Inl BadOptionalAccess | Some f \<Rightarrow> Inr f)"

text \<open>\<open>call\<close> runs the handler of \<open>r\<close> on the request it is given: the function that is called, and
  its argument. The overload with a shared pointer copies what it points to.\<close>

definition request_call :: "DeprecatedRequest \<Rightarrow> DeprecatedRequest \<Rightarrow> (nat \<times> DeprecatedRequest) option" where
  "request_call request r = (case dr_handler r of None \<Rightarrow> None | Some f \<Rightarrow> Some (f, request))"

definition request_call_shared ::
  "DeprecatedRequest option \<Rightarrow> DeprecatedRequest \<Rightarrow> (nat \<times> DeprecatedRequest) option res" where
  "request_call_shared request r =
     res_bind (deref request) (\<lambda>unique_request. Inr (request_call unique_request r))"

definition set_data_promise :: "nat option \<Rightarrow> DeprecatedRequest \<Rightarrow> DeprecatedRequest" where
  "set_data_promise p r = r\<lparr>dr_promise := Some p\<rparr>"

definition has_promise :: "DeprecatedRequest \<Rightarrow> bool" where
  "has_promise r \<longleftrightarrow> dr_promise r \<noteq> None"

definition set_promise_value ::
  "string \<Rightarrow> DeprecatedRequest \<Rightarrow> (nat \<Rightarrow> string option) \<Rightarrow> (bool \<times> (nat \<Rightarrow> string option)) res" where
  "set_promise_value v r promises =
     (if \<not> has_promise r then Inr (False, promises)
      else res_bind (deref (the (dr_promise r))) (\<lambda>p.
        case promises p of
          None \<Rightarrow> Inr (True, promises(p \<mapsto> v))
        | Some _ \<Rightarrow> Inl PromiseSatisfied))"

definition get_time_point :: "'r RequestObject_scheme \<Rightarrow> nat" where
  "get_time_point r = ro_start r"

definition get_on_write_handler :: "'r RequestObject_scheme \<Rightarrow> oid res" where
  "get_on_write_handler r =
     (case ro_on_write_handler r of None \<Rightarrow> Inl BadOptionalAccess | Some f \<Rightarrow> Inr f)"

text \<open>A promise takes one value: the second call throws, also through another request that shares the
  promise.\<close>

lemma promise_taken_once:
  assumes "set_promise_value v r promises = Inr (True, promises')" "dr_promise r' = dr_promise r"
  shows "set_promise_value v' r' promises' = Inl PromiseSatisfied"
  using assms
  by (auto simp: set_promise_value_def has_promise_def deref_def res_bind_def split: if_splits option.splits)

lemma call_without_handler: "\<not> has_handler r \<Longrightarrow> request_call q r = None"
  by (simp add: has_handler_def request_call_def)

subsection \<open>MessagingBase\<close>

definition is_request_handler :: "'m MessagingBase_scheme \<Rightarrow> bool" where
  "is_request_handler ob = mb_is_request_handler ob"

definition IsType :: "MessageType \<Rightarrow> 'm MessagingBase_scheme \<Rightarrow> bool" where
  "IsType ty ob \<longleftrightarrow> mb_type ob = ty"

definition GetType :: "'m MessagingBase_scheme \<Rightarrow> MessageType" where
  "GetType ob = mb_type ob"

definition get_state :: "'m MessagingBase_scheme \<Rightarrow> MESSAGE_STATE" where
  "get_state ob = mb_state ob"

definition get_timeout :: "'m MessagingBase_scheme \<Rightarrow> nat" where
  "get_timeout ob = mb_time_point ob"

text \<open>The move constructor leaves \<open>state_\<close> at its initialiser: the state of a finished object is lost.\<close>

definition MessagingBase_move :: "oid \<Rightarrow> MessagingBase \<Rightarrow> MessagingBase" where
  "MessagingBase_move i other =
     \<lparr>mb_oid = i, mb_type = mb_type other, mb_handler_object = mb_handler_object other,
      mb_request = mb_request other, mb_time_point = mb_time_point other, mb_is_done = mb_is_done other,
      mb_state = VALID, mb_is_request_handler = mb_is_request_handler other\<rparr>"

lemma moved_object:
  "mb_is_done (MessagingBase_move i ob) = mb_is_done ob"
  "IsType ty (MessagingBase_move i ob) = IsType ty ob"
  "get_timeout (MessagingBase_move i ob) = get_timeout ob"
  "get_state (MessagingBase_move i ob) = VALID"
  by (simp_all add: MessagingBase_move_def IsType_def get_timeout_def get_state_def)

subsection \<open>ConcurrentDeque\<close>

definition deque_new :: "'a list" where
  "deque_new = []"

definition deque_empty :: "'a list \<Rightarrow> bool" where
  "deque_empty xs \<longleftrightarrow> xs = []"

lemma deque_never_empty_after_push: "\<not> deque_empty (deque_push_back x xs)"
  by (simp add: deque_empty_def deque_push_back_def)

end
