(* ===== verification/Unit_Tests.thy ===== *)
theory Unit_Tests
  imports Members Routing_Table Converter
begin

section \<open>The unit tests\<close>

text \<open>
  The test cases of \<open>test/test.cpp\<close>: what a case requires is evaluated on the definitions of this
  library, and the two that start threads are run in every order of their steps.
\<close>

subsection \<open>Headers, peers and messages\<close>

definition test_header :: bool where
  "test_header \<longleftrightarrow>
     (let header = Header_new True 1 10 ''query'' ''123ABC'' ''1.0.0'' ''UNKNOWN'';
          changed = header\<lparr>t_flag := False, ttl := 2, message_length := 11, request_type := ''join'',
            transaction_id := ''456DEF'', hdr_version := ''2.0.1'', response_code := ''KNOWN''\<rparr>
      in t_flag header \<and> ttl header = 1 \<and> message_length header = 10 \<and> request_type header = ''query'' \<and>
         transaction_id header = ''123ABC'' \<and> hdr_version header = ''1.0.0'' \<and>
         response_code header = ''UNKNOWN'' \<and>
         \<not> t_flag changed \<and> ttl changed = 2 \<and> message_length changed = 11 \<and>
         request_type changed = ''join'' \<and> transaction_id changed = ''456DEF'' \<and>
         hdr_version changed = ''2.0.1'' \<and> response_code changed = ''KNOWN'' \<and>
         Header_stringify changed = ''0211join456DEF2.0.1KNOWN'')"

definition test_peer :: bool where
  "test_peer \<longleftrightarrow>
     (let peer = Peer_new ''123ABC'' ''10.0.0.1'' ''1337'';
          changed = peer\<lparr>peer_id := ''456DEF'', peer_ip := ''20.2.2.2'', peer_port := ''4242''\<rparr>
      in peer_id peer = ''123ABC'' \<and> peer_ip peer = ''10.0.0.1'' \<and> peer_port peer = ''1337'' \<and>
         \<not> Peer_eq peer Peer_empty \<and> Peer_neq peer Peer_empty \<and>
         peer_id changed = ''456DEF'' \<and> peer_ip changed = ''20.2.2.2'' \<and> peer_port changed = ''4242'' \<and>
         Peer_stringify changed = ''456DEF20.2.2.24242'')"

definition test_message :: bool where
  "test_message \<longleftrightarrow>
     (let peer = Peer_new ''123ABC'' ''10.0.0.1'' ''1337'';
          header = Header_new True 1 10 ''query'' ''123ABC'' ''1.0.0'' ''UNKNOWN'';
          message = add_peer peer (add_peer peer (add_peer peer (set_header header Message_empty)));
          header' = get_header message;
          peers = get_peers message;
          new_peers = map (\<lambda>p. p\<lparr>peer_id := ''456DEF'', peer_ip := ''20.2.2.2'', peer_port := ''4242''\<rparr>) peers
      in t_flag header' \<and> ttl header' = 1 \<and> message_length header' = 10 \<and>
         request_type header' = ''query'' \<and> transaction_id header' = ''123ABC'' \<and>
         hdr_version header' = ''1.0.0'' \<and> response_code header' = ''UNKNOWN'' \<and>
         length peers = 3 \<and>
         list_all (\<lambda>p. peer_id p = ''123ABC'' \<and> peer_ip p = ''10.0.0.1'' \<and> peer_port p = ''1337'') peers \<and>
         list_all (\<lambda>p. peer_id p = ''456DEF'' \<and> peer_ip p = ''20.2.2.2'' \<and> peer_port p = ''4242'')
           (get_peers (set_peers new_peers message)))"

lemmas test_data_simps =
  Header_new_def Header_stringify_def Peer_eq_def Peer_neq_def Peer_stringify_def add_peer_def
  set_header_def get_header_def set_peers_def get_peers_def Message_empty_def Let_def

lemma test_header_passes: "test_header"
  by code_simp

lemma test_peer_passes: "test_peer"
  by (simp add: test_peer_def test_data_simps)

lemma test_message_passes: "test_message"
  by (simp add: test_message_def test_data_simps)

subsection \<open>The ring order\<close>

definition test_between :: bool where
  "test_between \<longleftrightarrow>
     between ''a'' ''b'' ''c'' \<and> \<not> between ''b'' ''b'' ''c'' \<and> between ''c'' ''b'' ''c'' \<and>
     between ''a'' ''b'' ''a'' \<and> between ''c'' ''a'' ''b'' \<and> between ''2'' ''b'' ''1'' \<and>
     \<not> between ''2'' ''b'' ''3'' \<and> between ''1'' ''2'' ''3'' \<and> \<not> between ''3'' ''2'' ''1'' \<and>
     between ''3'' ''c'' ''2'' \<and> between ''c'' ''1'' ''a'' \<and> between ''1'' ''3'' ''c''"

lemma test_between_passes: "test_between"
  by (simp add: test_between_def between_def)

subsection \<open>The converter\<close>

definition test_pb_request :: pb_Request where
  "test_pb_request =
     \<lparr>pb_commonheader =
        \<lparr>pb_t_flag = True, pb_ttl = 10, pb_message_length = 15, pb_request_type = ''query'',
         pb_transaction_id = ''secret'', pb_correlational_id = '''', pb_version = ''1.0.0'',
         pb_response_code = Some ''UNKNOWN''\<rparr>,
      pb_peerinfo =
        [\<lparr>pb_peer_id = ''123ABC'', pb_peer_ip = ''123ABC'', pb_peer_port = ''123ABC'',
          pb_peer_rtt = None, pb_peer_uptime = None\<rparr>,
         \<lparr>pb_peer_id = ''321CBA'', pb_peer_ip = ''321CBA'', pb_peer_port = ''321CBA'',
          pb_peer_rtt = None, pb_peer_uptime = None\<rparr>],
      pb_files = [], pb_file_chunk = None, pb_data = None\<rparr>"

definition test_converter :: "(byte list \<Rightarrow> pb_Request) \<Rightarrow> (pb_Request \<Rightarrow> byte list) \<Rightarrow> bool" where
  "test_converter pb_parse pb_ser \<longleftrightarrow>
     (let buf = pb_ser test_pb_request in
      case MessageFromSerialized pb_parse buf of
        Inl e \<Rightarrow> False
      | Inr m \<Rightarrow>
          let h = get_header m; r = get_header (generate_response m); ps = get_peers m
          in t_flag h \<and> ttl h = 10 \<and> message_length h = 15 \<and> request_type h = ''query'' \<and>
             transaction_id h = ''secret'' \<and> correlational_id h = '''' \<and> hdr_version h = ''1.0.0'' \<and>
             response_code h = ''UNKNOWN'' \<and>
             \<not> t_flag r \<and> ttl r = 10 \<and> message_length r = 15 \<and> request_type r = ''query'' \<and>
             transaction_id r = '''' \<and> correlational_id r = ''secret'' \<and> hdr_version r = ''1.0.0'' \<and>
             response_code r = ''UNKNOWN'' \<and>
             length ps = 2 \<and>
             peer_id (ps ! 0) = ''123ABC'' \<and> peer_ip (ps ! 0) = ''123ABC'' \<and> peer_port (ps ! 0) = ''123ABC'' \<and>
             peer_id (ps ! 1) = ''321CBA'' \<and> peer_ip (ps ! 1) = ''321CBA'' \<and> peer_port (ps ! 1) = ''321CBA'' \<and>
             SerializedFromMessage pb_ser m = Inr buf)"

lemma test_converter_passes:
  assumes "pb_parse (pb_ser test_pb_request) = test_pb_request"
  shows "test_converter pb_parse pb_ser"
proof -
  have "MessageFromSerialized pb_parse (pb_ser test_pb_request) =
      Inr (Message_empty\<lparr>
        msg_header := Header_new_corr True 10 15 ''query'' ''secret'' '''' ''1.0.0'' ''UNKNOWN'',
        msg_peers := [Peer_new ''123ABC'' ''123ABC'' ''123ABC'', Peer_new ''321CBA'' ''321CBA'' ''321CBA'']\<rparr>)"
    unfolding MessageFromSerialized_def assms
    by (simp add: message_from_pb_def test_pb_request_def header_from_pb_def peer_from_pb_def add_peer_def
        Message_empty_def)
  moreover have "message_to_pb (Message_empty\<lparr>
        msg_header := Header_new_corr True 10 15 ''query'' ''secret'' '''' ''1.0.0'' ''UNKNOWN'',
        msg_peers := [Peer_new ''123ABC'' ''123ABC'' ''123ABC'', Peer_new ''321CBA'' ''321CBA'' ''321CBA'']\<rparr>) =
      Inr test_pb_request"
    by (simp add: message_to_pb_def test_pb_request_def header_to_pb_def peer_to_pb_def Header_new_corr_def
        Message_empty_def)
  ultimately show ?thesis
    by (simp add: test_converter_def SerializedFromMessage_def get_header_def get_peers_def
        generate_response_def generate_response_header_def Header_new_corr_def)
qed

subsection \<open>A queue between threads\<close>

text \<open>Threads that push one element each, threads that pop one each, and what was popped. A thread
  waits while there is nothing to pop.\<close>

type_synonym 'a queue_threads = "'a multiset \<times> nat \<times> 'a queue \<times> 'a list"

inductive queue_step :: "'a queue_threads \<Rightarrow> 'a queue_threads \<Rightarrow> bool" where
  put: "queue_step (add_mset x ps, n, q, got) (ps, n, queue_push x q, got)"
| get: "wait_and_pop q = Some (x, q') \<Longrightarrow> queue_step (ps, Suc n, q, got) (ps, n, q', got @ [x])"

lemma queue_threads_inv:
  assumes "queue_step\<^sup>*\<^sup>* (xs, size xs, queue_new, []) (ps, n, q, got)"
  shows "mset got + mset q + ps = xs \<and> n = size ps + length q"
  using assms
proof (induction "(ps, n, q, got)" arbitrary: ps n q got rule: rtranclp_induct)
  case base
  then show ?case by (simp add: queue_new_def)
next
  case (step s)
  then show ?case
    by (cases s) (auto elim!: queue_step.cases simp: queue_push_def wait_and_pop_def split: list.splits)
qed

text \<open>As long as a thread has not finished one of them can go on, and when all have, what was popped is
  what was pushed.\<close>

lemma queue_threads_finish:
  assumes "queue_step\<^sup>*\<^sup>* (xs, size xs, queue_new, []) (ps, n, q, got)"
  shows "(\<exists>s. queue_step (ps, n, q, got) s) \<or> ps = {#} \<and> n = 0 \<and> q = [] \<and> mset got = xs"
proof (cases "ps = {#}")
  case False
  then obtain x ps' where "ps = add_mset x ps'" by (meson multiset_cases)
  then show ?thesis by (blast intro: queue_step.put)
next
  case True
  with queue_threads_inv [OF assms] have inv: "mset got + mset q = xs" "n = length q" by simp_all
  show ?thesis
  proof (cases q)
    case Nil
    with True inv show ?thesis by simp
  next
    case (Cons x q')
    then have "wait_and_pop q = Some (x, q')" by (simp add: wait_and_pop_def)
    then have "queue_step (ps, Suc (length q'), q, got) (ps, length q', q', got @ [x])" by (rule queue_step.get)
    with Cons inv(2) show ?thesis by auto
  qed
qed

text \<open>The case: one thread puts 1, the other requires to get 1.\<close>

lemma test_queue_passes:
  assumes "queue_step\<^sup>*\<^sup>* ({#1 :: int#}, 1, queue_new, []) (ps, n, q, got)" "\<nexists>s. queue_step (ps, n, q, got) s"
  shows "got = [1]"
  using queue_threads_finish [of "{#1 :: int#}" ps n q got] assms by simp

subsection \<open>The routing table between threads\<close>

datatype table_action =
    WaitTilValid | SetSelf Peer | SetPredecessor Peer | SetSuccessor Peer
  | TryGetSelf | TryGetPredecessor | TryGetSuccessor

text \<open>An action, and what the calls of \<open>try_get_*\<close> have returned.\<close>

fun table_act :: "table_action \<Rightarrow> RoutingTable \<times> Peer option list \<Rightarrow> RoutingTable \<times> Peer option list" where
  "table_act WaitTilValid (rt, rs) = (wait_til_valid rt, rs)"
| "table_act (SetSelf p) (rt, rs) = (set_self p rt, rs)"
| "table_act (SetPredecessor p) (rt, rs) = (set_predecessor p rt, rs)"
| "table_act (SetSuccessor p) (rt, rs) = (set_successor p rt, rs)"
| "table_act TryGetSelf (rt, rs) = (let (p, rt') = try_get_self rt in (rt', rs @ [p]))"
| "table_act TryGetPredecessor (rt, rs) = (let (p, rt') = try_get_predecessor rt in (rt', rs @ [p]))"
| "table_act TryGetSuccessor (rt, rs) = (let (p, rt') = try_get_successor rt in (rt', rs @ [p]))"

definition test_table_main :: "Peer \<Rightarrow> table_action list" where
  "test_table_main peer =
     [TryGetSelf, TryGetPredecessor, TryGetSuccessor,
      SetSelf peer, SetPredecessor peer, SetSuccessor peer,
      TryGetSelf, TryGetPredecessor, TryGetSuccessor]"

text \<open>The runs of the case: a thread waits until the table is valid, at any time; the main thread acts,
  then starts three threads that set the entries in any order; when all of them have been joined it
  reads the table.\<close>

definition test_table_runs :: "Peer \<Rightarrow> table_action list set" where
  "test_table_runs peer =
     {run @ [TryGetSelf, TryGetSuccessor, TryGetPredecessor] | run sets.
        mset sets = {#SetSelf (peer\<lparr>peer_id := ''a''\<rparr>), SetSuccessor (peer\<lparr>peer_id := ''b''\<rparr>),
          SetPredecessor (peer\<lparr>peer_id := ''c''\<rparr>)#} \<and>
        run \<in> shuffles [WaitTilValid] (test_table_main peer @ sets)}"

lemma shuffles_one: "xs \<in> shuffles [a] ys \<longleftrightarrow> (\<exists>us vs. ys = us @ vs \<and> xs = us @ a # vs)"
proof (induction ys arbitrary: xs)
  case Nil
  then show ?case by simp
next
  case (Cons y ys)
  have "xs \<in> shuffles [a] (y # ys) \<longleftrightarrow>
      xs = a # y # ys \<or> (\<exists>us vs. ys = us @ vs \<and> xs = (y # us) @ a # vs)"
    using Cons.IH by auto
  also have "\<dots> \<longleftrightarrow> (\<exists>us vs. y # ys = us @ vs \<and> xs = us @ a # vs)" (is "?l \<longleftrightarrow> ?r")
  proof
    assume ?l
    then show ?r by (metis append_Cons append_Nil)
  next
    assume ?r
    then obtain us vs where "y # ys = us @ vs" "xs = us @ a # vs" by blast
    then show ?l by (cases us) (simp_all, blast)
  qed
  finally show ?case .
qed

definition set_table :: "Peer \<Rightarrow> RoutingTable" where
  "set_table peer =
     \<lparr>rt_self_is_set = True, rt_predecessor_is_set = True, rt_successor_is_set = True, rt_waiters = 0,
      rt_self = Some peer, rt_predecessor = Some peer, rt_successor_list = [peer]\<rparr>"

lemmas table_act_simps =
  test_table_main_def rt_new_def set_table_def set_self_def set_predecessor_def set_successor_def
  notify_all_def rt_is_valid_def wait_til_valid_def try_get_self_def try_get_predecessor_def
  try_get_successor_def

text \<open>The waiting thread has gone on when the main thread has made the table valid.\<close>

lemma main_thread_wakes:
  assumes "test_table_main peer = us @ vs"
  shows "fold table_act (us @ WaitTilValid # vs) (rt_new s p t, []) =
    (set_table peer, [None, None, None, Some peer, Some peer, Some peer])"
    "fold table_act (us @ vs) (rt_new s p t, []) =
    (set_table peer, [None, None, None, Some peer, Some peer, Some peer])"
proof -
  from assms have "us \<in> set (map (\<lambda>i. take i (test_table_main peer)) [0..<10])" "vs = drop (length us) (test_table_main peer)"
    by (auto simp: image_iff test_table_main_def intro!: bexI [of _ "length us"] dest: arg_cong [of _ _ length])
  then show "fold table_act (us @ WaitTilValid # vs) (rt_new s p t, []) =
    (set_table peer, [None, None, None, Some peer, Some peer, Some peer])"
    by (auto simp: table_act_simps upt_rec)
  show "fold table_act (us @ vs) (rt_new s p t, []) =
    (set_table peer, [None, None, None, Some peer, Some peer, Some peer])"
    unfolding assms [symmetric] by (simp add: table_act_simps)
qed

text \<open>From then on nobody waits, and the three threads do not see each other.\<close>

lemma setters_keep_valid:
  assumes "set sets \<subseteq> {SetSelf a, SetSuccessor b, SetPredecessor c}" "rt_is_valid rt"
  shows "\<exists>rt'. fold table_act sets (rt, rs) = (rt', rs) \<and> rt_is_valid rt'"
  using assms
proof (induction sets arbitrary: rt)
  case Nil
  then show ?case by simp
next
  case (Cons x xs)
  then have "\<exists>rt1. table_act x (rt, rs) = (rt1, rs) \<and> rt_is_valid rt1"
    by (auto simp: set_self_def set_predecessor_def set_successor_def notify_all_def rt_is_valid_def)
  with Cons show ?case by auto
qed

lemma three_setters:
  assumes "mset sets = {#SetSelf a, SetSuccessor b, SetPredecessor c#}"
  shows "fold table_act sets (set_table peer, rs) =
    ((set_table peer)\<lparr>rt_self := Some a, rt_predecessor := Some c, rt_successor_list := [b]\<rparr>, rs)"
proof -
  from assms have "length sets = 3" by (simp flip: size_mset)
  then obtain x y z where "sets = [x, y, z]" by (auto simp: numeral_3_eq_3 length_Suc_conv)
  with assms show ?thesis by (auto simp: add_eq_conv_ex table_act_simps)
qed

text \<open>The case requires that nothing is found in a new table, whatever its flags happen to be, that the
  entries are found once they are set, and that the last three are found at the end; to end at all it
  needs the waiting thread to be woken.\<close>

lemma test_table_passes:
  assumes "run \<in> test_table_runs peer"
  shows "\<exists>rt. fold table_act run (rt_new s p t, []) =
      (rt, [None, None, None, Some peer, Some peer, Some peer,
        Some (peer\<lparr>peer_id := ''a''\<rparr>), Some (peer\<lparr>peer_id := ''b''\<rparr>), Some (peer\<lparr>peer_id := ''c''\<rparr>)]) \<and>
    rt_waiters rt = 0"
proof -
  let ?a = "peer\<lparr>peer_id := ''a''\<rparr>" and ?b = "peer\<lparr>peer_id := ''b''\<rparr>" and ?c = "peer\<lparr>peer_id := ''c''\<rparr>"
  let ?rs = "[None, None, None, Some peer, Some peer, Some peer]"
  from assms obtain us vs sets where 1: "run = (us @ WaitTilValid # vs) @ [TryGetSelf, TryGetSuccessor, TryGetPredecessor]"
    "mset sets = {#SetSelf ?a, SetSuccessor ?b, SetPredecessor ?c#}" "test_table_main peer @ sets = us @ vs"
    unfolding test_table_runs_def by (auto simp: shuffles_one)
  have "fold table_act (us @ WaitTilValid # vs) (rt_new s p t, []) = fold table_act sets (set_table peer, ?rs)"
  proof -
    from 1(3) consider ws where "test_table_main peer = us @ ws" "vs = ws @ sets"
      | ws where "us = test_table_main peer @ ws" "sets = ws @ vs"
      by (auto simp: append_eq_append_conv2)
    then show ?thesis
    proof cases
      case 1
      from main_thread_wakes(1) [OF this(1)] 1(2) show ?thesis by simp
    next
      case 2
      have "set ws \<subseteq> set_mset (mset sets)" using 2(2) by simp
      then have "set ws \<subseteq> {SetSelf ?a, SetSuccessor ?b, SetPredecessor ?c}" by (simp add: 1(2) insert_commute)
      from setters_keep_valid [OF this, of "set_table peer" ?rs] obtain rt where
        "fold table_act ws (set_table peer, ?rs) = (rt, ?rs)" "rt_is_valid rt"
        by (auto simp: set_table_def rt_is_valid_def)
      with main_thread_wakes(2) [of peer "test_table_main peer" "[]" s p t] 2 show ?thesis
        by (simp add: wait_til_valid_def)
    qed
  qed
  with three_setters [OF 1(2)] 1(1) show ?thesis by (simp add: set_table_def table_act_simps)
qed

text \<open>It is \<open>set_successor\<close> that wakes the thread: \<open>set_self\<close> notifies nobody, and when it is the last
  of the three a thread that waits already goes on waiting for a table that is valid.\<close>

lemma set_self_wakes_nobody:
  "\<exists>rt. fold table_act [WaitTilValid, SetPredecessor a, SetSuccessor b, SetSelf c] (rt_new False p t, []) = (rt, []) \<and>
    rt_is_valid rt \<and> rt_waiters rt = 1"
  by (simp add: table_act_simps)

end
