(* ===== verification/Spec2Isabelle.thy ===== *)
theory Spec2Isabelle
  imports Routing_Table Containers Converter Framing Storage Node_Reachable Exchanges File_Transfer Lifecycle Locking Node_Liveness Transport Routing_Report Node_Network Ring_Join Unit_Tests
begin

section \<open>peerpaste\<close>

text \<open>
  peerpaste shares files in a Chord ring. A node keeps a routing table (itself, its predecessor, up
  to ten successors), runs a set of small message objects that each ask one question and take one
  answer, and a storage directory whose files are fetched chunk by chunk from the peers that
  announce them. Requests and answers travel as protobuf messages behind a four-byte length.

  \<^bold>\<open>How the parts interact.\<close> A session (\<open>boost_session.cpp\<close>) cuts the byte stream into messages and
  pushes them into a queue; the dispatcher (\<open>consumer.hpp\<close>) converts them (\<open>message_converter.hpp\<close>)
  and hands them to the message handler (\<open>message_handler.hpp\<close>): a request becomes a message object
  made by the factory, an answer goes to the handler registered under its correlation id. Message
  objects notify their observers (\<open>observable.cpp\<close>): a composite (Join, Stabilize,
  BroadcastFilelist) drives its dependencies, the handler queues what is to be sent, and the
  dispatcher writes it. Maintenance rounds start CheckPredecessor, Stabilize and BroadcastFilelist
  and clean up finished objects.

  \<^bold>\<open>Theories and code.\<close>
  \<^item> \<open>Prelude\<close>: results of C++ code that can crash (\<open>res\<close>, one constructor of \<open>crash\<close> per kind of
    failure), lists, \<open>std::to_string\<close>.
  \<^item> \<open>Identifiers\<close>: \<open>cryptowrapper.cpp\<close>; the circular order \<open>between\<close>, its locale of ring orders and
    the owner of an identifier.
  \<^item> \<open>Messages\<close>: \<open>peer.hpp\<close>, \<open>header.hpp\<close>, \<open>message.hpp\<close>. \<open>Routing_Table\<close>:
    \<open>concurrent_routing_table.hpp\<close>. \<open>Containers\<close>: \<open>concurrent_queue.hpp\<close>,
    \<open>concurrent_request_handler.hpp\<close>. \<open>Request\<close>: \<open>request_object.hpp\<close>.
  \<^item> \<open>Converter\<close>: \<open>message_converter.hpp\<close> and the schema \<open>messages.proto\<close>. \<open>Framing\<close>:
    \<open>boost_session.cpp\<close>, as a step relation of the reading and the writing side. \<open>Session_Writes\<close>: the
    three ways to write on a session. \<open>Transport\<close>: two sessions with TCP between them.
  \<^item> \<open>Storage\<close>: \<open>storage.cpp\<close>, \<open>storage.hpp\<close>; the file list, write tokens, the table of transfers.
  \<^item> \<open>Messaging\<close>: \<open>messaging_base.cpp\<close>, \<open>observable.cpp\<close>; the state \<open>world\<close> that the objects of a
    node share, and what every operation of a message keeps. \<open>Find_Successor\<close>:
    \<open>find_successor.cpp\<close>. \<open>Leaf_Messages\<close>: \<open>query.cpp\<close>, \<open>notify.cpp\<close>, \<open>check_predecessor.cpp\<close>,
    \<open>get_successor_list.cpp\<close>, \<open>get_self_and_succ_list.cpp\<close>, \<open>get_pred_and_succ_list.cpp\<close>.
    \<open>Get_File\<close>: \<open>get_file.cpp\<close>. \<open>Composite_Messages\<close>: \<open>join.cpp\<close>, \<open>stabilize.cpp\<close>,
    \<open>broadcast_file_list.cpp\<close>.
  \<^item> \<open>Message_Handler\<close>: \<open>message_handler.hpp\<close>, \<open>message_factory.cpp\<close> and the dispatcher
    \<open>consumer.hpp\<close>; the record \<open>node\<close> is the state of a process.
  \<^item> \<open>Object_Safety\<close>, \<open>Node_Safety\<close>, \<open>Node_Steps\<close>, \<open>Node_Responses\<close>, \<open>Node_Reachable\<close>: the step
    relation of a node, its invariant, and which failures are possible at all. \<open>Node_Liveness\<close>:
    the two maintenance flags always have an object that will lower them. \<open>Crash_Causes\<close>: which
    message, in which state, makes a step fail. \<open>Object_Contracts\<close>: the locale
    of what holds of every single message and request, and with it of the node. \<open>Sent_Messages\<close>:
    what a node sends is complete, and an answer answers a request that was received.
    \<open>Object_Kinds\<close>, \<open>Node_Kinds\<close>: every registered handler waits, under the id of a request that was
    issued, for the answer to a request of its object's kind. \<open>Node_Network\<close>: any number of nodes and
    what they have asked their sessions to write; a node of such a network only fails on an address.
  \<^item> \<open>Ring_Lookup\<close>, \<open>Exchanges\<close>, \<open>File_Transfer\<close>: several nodes together. \<open>Ring_Join\<close>: the composites
    of one node in conversation with the objects of the others.
  \<^item> \<open>Lifecycle\<close>: \<open>main.cpp\<close>, \<open>peerpaste.hpp\<close>, \<open>server.hpp\<close>, \<open>thread_pool.cpp\<close> and the \<open>run\<close>,
    \<open>stop\<close> and \<open>join\<close> of handler and dispatcher; which threads exist, and what stopping does.
  \<^item> \<open>Routing_Report\<close>: the report to a local web server in \<open>consumer.hpp\<close>.
  \<^item> \<open>Locking\<close>: the recursive mutexes that message objects and the deque of active messages hold
    while they call each other, as sequences of lock operations of several threads.
  \<^item> \<open>Members\<close>: accessors and members of these classes that no operation of a node calls.
    \<open>Unit_Tests\<close>: the cases of \<open>test/test.cpp\<close>, which hold on the definitions, with threads in every
    order of their steps.

  \<^bold>\<open>How state is modelled.\<close> A C++ object is a record, a shared pointer to a message object its
  number (\<open>oid\<close>), a member function a function from the old state to the new state and the signals
  it sends, in order. A signal is what \<open>Notify\<close> gives to the observers. What the program reads out
  of an empty optional or list, a second \<open>set_value\<close> of a promise, a second \<open>get\<close> of a future and the
  like is a value of \<open>crash\<close>. Machine integers keep their width.

  \<^bold>\<open>What the lemmas show.\<close> The per-component theories prove what each operation does on each branch
  and an invariant that all operations keep (\<open>rt_inv\<close>, \<open>storage_inv\<close>, \<open>write_inv\<close>, \<open>read_inv\<close>).
  \<open>Node_*\<close> lifts them to all reachable nodes: every interleaving of received bytes, written
  messages, maintenance rounds and time; it says which crashes remain and that maintenance never
  stalls. \<open>Ring_Lookup\<close>, \<open>Exchanges\<close> and \<open>File_Transfer\<close> compose the
  handlers of different nodes: lookups find the owner, joins, notifications and stabilisation move
  the tables as the protocol intends, a transfer ends with the owner's file. \<open>Ring_Join\<close> runs whole
  objects against each other: a join and one stabilization on each side turn a ring into a ring with
  one node more, and after any history of joins and stabilizations lookups find the owner. It takes
  full successor lists, since a shorter list is filled with empty peers (see
  \<open>padded_list_misroutes\<close>); that a lookup also counts up the numbers of objects on the nodes it
  passes is left out there.

  \<^bold>\<open>Bounds and fuel.\<close> \<open>network_lookup\<close> takes the number of nodes that may take part; the number of
  members of the ring is enough, since every hop is strictly closer to the owner. The clean-up loop
  of \<open>ConcurrentDeque\<close> terminates because each turn shortens what is still to be looked at; the
  other loops are structural recursions. A transfer needs
  \<open>length c div 1024\<close> callbacks after the first chunk.

  \<^bold>\<open>Parameters.\<close> SHA-256 (\<open>en_sha\<close>, \<open>en_digest\<close>), the secret box of libsodium and the protobuf
  codec are arguments; where a theorem needs a law of them it is a hypothesis (protobuf parses what
  it serialized). The address of the other end of a session is \<open>en_remote_ip\<close>.
  Transaction ids are hashes; that no two issued requests of different types share one is a hypothesis
  of \<open>network_crashes\<close> alone (\<open>ids_tell_types\<close>).

  \<^bold>\<open>Not modelled.\<close> In the step relation of the node the operations that the code runs under a
  lock are atomic steps, interleaved in any order; the order of their mutexes is the subject of
  \<open>Locking\<close> alone. SQLite, which is a map from names to
  rows (the file \<open>db.sqlite\<close> is not part of the file map); the JSON writer of Boost; what
  \<open>program_options\<close> makes of \<open>argv\<close>; the move constructors of the message classes, which nobody
  calls; \<open>print\<close>; where the operations write to the log. What Boost.Asio does with sockets,
  strands, resolving and connecting is events of the step relations of \<open>Framing\<close> and
  \<open>Session_Writes\<close>.
\<close>

end
